(* ===== verification/Prelude.thy ===== *)
theory Prelude
  imports Main "HOL-Library.Word" "HOL-Library.Code_Target_Nat"
begin

text \<open>
  The prelude of the development: the Go types every component uses (bytes, fixed-width
  integers, byte strings, \<open>error\<close> values), a small sequencing discipline for code that
  returns \<open>(value, error)\<close> while it changes some state, and the generic lemmas the
  component proofs share.

  A Go \<open>string\<close> is a sequence of bytes, and so is an Isabelle \<open>string\<close> (a list
  of 8-bit characters); a Go \<open>[]byte\<close> is a \<open>byte list\<close>. The two are related by
  \<open>str_bytes\<close> and \<open>bytes_str\<close>, Go's conversions \<open>[]byte(s)\<close> and \<open>string(b)\<close>.
\<close>

unbundle bit_operations_syntax

named_theorems sem_simps \<open>evaluation of the sequencing combinators\<close>
named_theorems sem_elims \<open>inversion of a sequence that returned a value\<close>

section \<open>Machine types\<close>

type_synonym byte = "8 word"
type_synonym uint16 = "16 word"
type_synonym uint32 = "32 word"
type_synonym uint64 = "64 word"
type_synonym bytes = "byte list"

definition str_bytes :: "string \<Rightarrow> bytes" where
  "str_bytes s = map (\<lambda>c. word_of_nat (of_char c)) s"

definition bytes_str :: "bytes \<Rightarrow> string" where
  "bytes_str b = map (\<lambda>w. char_of (unat w)) b"

text \<open>\<open>binary.BigEndian.PutUint16\<close> and \<open>binary.BigEndian.Uint16\<close>.\<close>

definition be16_put :: "uint16 \<Rightarrow> bytes" where
  "be16_put v = [ucast (drop_bit 8 v), ucast v]"

definition be16_get :: "bytes \<Rightarrow> uint16" where
  "be16_get b = ucast (b ! 1) OR push_bit 8 (ucast (b ! 0))"

section \<open>Errors\<close>

text \<open>
  Go's \<open>error\<close> values. Sentinel errors are constructors of their own, so that
  \<open>errors.Is\<close> can be decided; \<open>fmt.Errorf\<close> without \<open>%w\<close> is \<open>Errorf\<close> (the
  format and its operands) and with \<open>%w\<close> is \<open>Wrapf\<close>; an error an operating system
  call or a third-party package returned is \<open>ExtErr\<close>.
\<close>

datatype garg = AInt int | AStr string | AStrs "string list"

datatype goerr =
    ErrClosed \<comment> \<open>\<open>net.ErrClosed\<close>\<close>
  | EOF | ErrUnexpectedEOF | ErrShortWrite | ErrShortBuffer \<comment> \<open>package \<open>io\<close>\<close>
  | ErrBindAlreadyOpen | ErrWrongEndpointType \<comment> \<open>wireguard-go \<open>conn\<close>\<close>
  | CtxCanceled | CtxDeadlineExceeded \<comment> \<open>\<open>ctx.Err()\<close>\<close>
  | NumSyntax string | NumRange string \<comment> \<open>\<open>strconv.NumError\<close>\<close>
  | AddrErr string string \<comment> \<open>\<open>net.AddrError{Err, Addr}\<close>\<close>
  | ParseAddrErr string string \<comment> \<open>\<open>netip\<close> parse errors: message, input\<close>
  | CorruptInput nat \<comment> \<open>\<open>base64.CorruptInputError\<close>\<close>
  | Errno nat \<comment> \<open>\<open>syscall.Errno\<close>\<close>
  | ExtErr string
  | Errorf string "garg list"
  | Wrapf string "garg list" goerr

text \<open>\<open>errors.Is\<close>: the target occurs in the chain of wrapped errors.\<close>

fun errors_is :: "goerr \<Rightarrow> goerr \<Rightarrow> bool" where
  "errors_is (Wrapf f as e) t = (Wrapf f as e = t \<or> errors_is e t)"
| "errors_is e t = (e = t)"

section \<open>Sequencing\<close>

text \<open>
  A call that may change a state \<open>'s\<close> and returns \<open>(value, error)\<close>. The state is
  returned on every path: Go keeps the effects of a call that failed.
\<close>

type_synonym ('s, 'a) sem = "'s \<Rightarrow> (goerr + 'a) \<times> 's"

definition ret :: "'a \<Rightarrow> ('s, 'a) sem" where
  "ret x = (\<lambda>s. (Inr x, s))"

definition throw :: "goerr \<Rightarrow> ('s, 'a) sem" where
  "throw e = (\<lambda>s. (Inl e, s))"

text \<open>\<open>x, err := m; if err != nil { return err }\<close>, then the rest.\<close>

definition andThen :: "('s, 'a) sem \<Rightarrow> ('a \<Rightarrow> ('s, 'b) sem) \<Rightarrow> ('s, 'b) sem" where
  "andThen m f = (\<lambda>s. case m s of (Inl e, s') \<Rightarrow> (Inl e, s') | (Inr x, s') \<Rightarrow> f x s')"

text \<open>\<open>if err := m; err != nil { cleanup; return g err }\<close>.\<close>

definition onErr :: "('s, 'a) sem \<Rightarrow> ('s \<Rightarrow> 's) \<Rightarrow> (goerr \<Rightarrow> goerr) \<Rightarrow> ('s, 'a) sem" where
  "onErr m h g = (\<lambda>s. case m s of (Inl e, s') \<Rightarrow> (Inl (g e), h s') | (Inr x, s') \<Rightarrow> (Inr x, s'))"

definition modS :: "('s \<Rightarrow> 's) \<Rightarrow> ('s, unit) sem" where
  "modS f = (\<lambda>s. (Inr (), f s))"

text \<open>A pure computation that can fail.\<close>

definition liftE :: "goerr + 'a \<Rightarrow> ('s, 'a) sem" where
  "liftE r = (\<lambda>s. (r, s))"

section \<open>Generic lemmas\<close>

lemma ret_apply [simp, sem_simps]: "ret x s = (Inr x, s)"
  by (simp add: ret_def)

lemma throw_apply [simp, sem_simps]: "throw e s = (Inl e, s)"
  by (simp add: throw_def)

lemma modS_apply [simp, sem_simps]: "modS f s = (Inr (), f s)"
  by (simp add: modS_def)

lemma liftE_apply [simp, sem_simps]: "liftE r s = (r, s)"
  by (simp add: liftE_def)

lemma andThen_Inr [simp, sem_simps]: "m s = (Inr x, s') \<Longrightarrow> andThen m f s = f x s'"
  by (simp add: andThen_def)

lemma andThen_Inl [simp, sem_simps]: "m s = (Inl e, s') \<Longrightarrow> andThen m f s = (Inl e, s')"
  by (simp add: andThen_def)

lemma onErr_Inr [simp, sem_simps]: "m s = (Inr x, s') \<Longrightarrow> onErr m h g s = (Inr x, s')"
  by (simp add: onErr_def)

lemma onErr_Inl [simp, sem_simps]: "m s = (Inl e, s') \<Longrightarrow> onErr m h g s = (Inl (g e), h s')"
  by (simp add: onErr_def)

lemma andThen_InrE [sem_elims]:
  assumes "andThen m f s = (Inr y, t)"
  obtains x s' where "m s = (Inr x, s')" "f x s' = (Inr y, t)"
  using assms by (auto simp: andThen_def split: prod.splits sum.splits)

lemma andThen_InlE:
  assumes "andThen m f s = (Inl e, t)"
  obtains "m s = (Inl e, t)" | x s' where "m s = (Inr x, s')" "f x s' = (Inl e, t)"
  using assms by (auto simp: andThen_def split: prod.splits sum.splits)

lemma onErr_InrE [sem_elims]:
  assumes "onErr m h g s = (Inr y, t)"
  obtains "m s = (Inr y, t)"
  using assms by (auto simp: onErr_def split: prod.splits sum.splits)

lemma onErr_InlE:
  assumes "onErr m h g s = (Inl e, t)"
  obtains e' t' where "m s = (Inl e', t')" "e = g e'" "t = h t'"
  using assms by (auto simp: onErr_def split: prod.splits sum.splits)

text \<open>
  A relation between the state before and after that every call of a sequence respects is
  respected by the sequence, on its error paths too.
\<close>

definition keeps :: "('s \<Rightarrow> 's \<Rightarrow> bool) \<Rightarrow> ('s, 'a) sem \<Rightarrow> bool" where
  "keeps R m \<longleftrightarrow> (\<forall>s. R s (snd (m s)))"

lemma keepsI [intro?]: "(\<And>s. R s (snd (m s))) \<Longrightarrow> keeps R m"
  by (simp add: keeps_def)

lemma keepsD: "keeps R m \<Longrightarrow> m s = (r, t) \<Longrightarrow> R s t"
  by (metis keeps_def snd_conv)

lemma keeps_ret: "reflp R \<Longrightarrow> keeps R (ret x)"
  by (simp add: keeps_def reflpD)

lemma keeps_throw: "reflp R \<Longrightarrow> keeps R (throw e)"
  by (simp add: keeps_def reflpD)

lemma keeps_liftE: "reflp R \<Longrightarrow> keeps R (liftE e)"
  by (simp add: keeps_def reflpD)

lemma keeps_andThen:
  assumes "transp R" "keeps R m" "\<And>x. keeps R (f x)"
  shows "keeps R (andThen m f)"
proof
  fix s
  show "R s (snd (andThen m f s))"
  proof (cases "m s")
    case (Pair r s')
    with assms(2) have R: "R s s'" by (rule keepsD)
    show ?thesis
    proof (cases r)
      case (Inl e)
      with Pair R show ?thesis by simp
    next
      case (Inr x)
      have "R s' (snd (f x s'))" using assms(3) by (simp add: keeps_def)
      with R have "R s (snd (f x s'))" using assms(1) by (meson transpD)
      with Pair Inr show ?thesis by simp
    qed
  qed
qed

lemma keeps_modS: "(\<And>s. R s (f s)) \<Longrightarrow> keeps R (modS f)"
  by (simp add: keeps_def)

lemma keeps_onErr:
  assumes "transp R" "keeps R m" "\<And>s. R s (h s)"
  shows "keeps R (onErr m h g)"
proof
  fix s
  show "R s (snd (onErr m h g s))"
  proof (cases "m s")
    case (Pair r s')
    with assms(2) have "R s s'" by (rule keepsD)
    with Pair assms(1,3) show ?thesis by (cases r) (auto dest: transpD)
  qed
qed

lemma andThen_assoc: "andThen (andThen m f) g = andThen m (\<lambda>x. andThen (f x) g)"
  by (rule ext) (auto simp: andThen_def split: prod.splits sum.splits)

lemma andThen_ret [simp]: "andThen (ret x) f = f x"
  by (rule ext) (simp add: andThen_def)

subsection \<open>Bytes and strings\<close>

lemma bytes_str_str_bytes [simp]: "bytes_str (str_bytes s) = s"
proof -
  have "char_of (unat (word_of_nat (of_char c) :: byte)) = c" for c
  proof -
    have "(of_char c :: nat) < 256" by simp
    then have "unat (word_of_nat (of_char c) :: byte) = of_char c"
      by (simp add: unat_of_nat)
    then show ?thesis by simp
  qed
  then show ?thesis by (simp add: bytes_str_def str_bytes_def comp_def)
qed

lemma str_bytes_bytes_str [simp]: "str_bytes (bytes_str b) = b"
proof -
  have "(word_of_nat (of_char (char_of (unat w) :: char)) :: byte) = w" for w :: byte
  proof -
    have "unat w < 256" using unsigned_less [of w] by simp
    then have "(of_char (char_of (unat w) :: char) :: nat) = unat w"
      by (simp add: of_char_of)
    then show ?thesis by simp
  qed
  then show ?thesis by (simp add: bytes_str_def str_bytes_def comp_def)
qed

lemma length_str_bytes [simp]: "length (str_bytes s) = length s"
  by (simp add: str_bytes_def)

lemma length_bytes_str [simp]: "length (bytes_str b) = length b"
  by (simp add: bytes_str_def)

lemma str_bytes_inj: "str_bytes s = str_bytes t \<longleftrightarrow> s = t"
  by (metis bytes_str_str_bytes)

lemma str_bytes_Nil [simp]: "str_bytes [] = []"
  by (simp add: str_bytes_def)

lemma str_bytes_append [simp]: "str_bytes (a @ b) = str_bytes a @ str_bytes b"
  by (simp add: str_bytes_def)

subsection \<open>Big-endian 16-bit integers\<close>

lemma length_be16_put [simp]: "length (be16_put v) = 2"
  by (simp add: be16_put_def)

lemma be16_get_put [simp]: "be16_get (be16_put v) = v"
  unfolding be16_get_def be16_put_def
  by (rule bit_word_eqI) (auto simp: bit_simps not_less)

lemma be16_get_put_append [simp]: "be16_get (take 2 (be16_put v @ r)) = v"
  by simp

lemma unat_be16_get_bound: "unat (be16_get b) < 65536"
  using unsigned_less [of "be16_get b"] by simp

lemma be16_put_get: "length b = 2 \<Longrightarrow> be16_put (be16_get b) = b"
proof -
  assume "length b = 2"
  then obtain x y where b: "b = [x, y]"
    by (auto simp: length_Suc_conv numeral_2_eq_2)
  have "ucast (drop_bit 8 (be16_get [x, y])) = x"
    unfolding be16_get_def
    by (rule bit_word_eqI) (auto simp: bit_simps dest: bit_imp_le_length)
  moreover have "ucast (be16_get [x, y]) = y"
    unfolding be16_get_def by (rule bit_word_eqI) (auto simp: bit_simps)
  ultimately show ?thesis by (simp add: be16_put_def b)
qed

lemma be16_put_inj: "be16_put v = be16_put w \<longleftrightarrow> v = w"
  by (metis be16_get_put)

subsection \<open>Lists\<close>

lemma take_length_append [simp]: "length a = n \<Longrightarrow> take n (a @ b) = a"
  by simp

lemma drop_length_append [simp]: "length a = n \<Longrightarrow> drop n (a @ b) = b"
  by simp

lemma subset_image_map: "set xs \<subseteq> f ` B \<Longrightarrow> \<exists>ys. set ys \<subseteq> B \<and> xs = map f ys"
proof (induction xs)
  case (Cons x xs)
  then obtain ys y where "set ys \<subseteq> B" "xs = map f ys" "y \<in> B" "x = f y" by auto
  then show ?case by (intro exI [of _ "y # ys"]) simp
qed simp

end
