(* ===== verification/Threads.thy ===== *)
theory Threads
  imports Prelude
begin

text \<open>
  Goroutines. A method that takes locks and does I/O is a tree of atomic actions on the
  shared state (\<open>prog\<close>): one action per critical section or call. The same tree is run
  alone (\<open>runP\<close>) and interleaved with others (\<open>pstep\<close>, \<open>runSched\<close>), so what is proved of
  a method alone and what is proved of all schedules is about one definition.
\<close>

section \<open>Programs\<close>

text \<open>
  \<open>Act g f\<close> waits until the guard \<open>g\<close> holds (a mutex that is free) and then does \<open>f\<close>
  in one step. \<open>Crash\<close> is a run-time panic: nothing in the program recovers one, so it ends
  the goroutine (and the process) whatever handlers are around it.
\<close>

datatype ('s, 'a) prog =
    Done "goerr + 'a"
  | Crash string
  | Act "'s \<Rightarrow> bool" "'s \<Rightarrow> ('s, 'a) prog \<times> 's"

primrec bindP :: "('s, 'a) prog \<Rightarrow> (goerr + 'a \<Rightarrow> ('s, 'b) prog) \<Rightarrow> ('s, 'b) prog" where
  "bindP (Done r) k = k r"
| "bindP (Crash m) k = Crash m"
| "bindP (Act g f) k = Act g (map_prod (\<lambda>p. bindP p k) id \<circ> f)"

definition thenP :: "('s, 'a) prog \<Rightarrow> ('a \<Rightarrow> ('s, 'b) prog) \<Rightarrow> ('s, 'b) prog" where
  "thenP m k = bindP m (\<lambda>r. case r of Inl e \<Rightarrow> Done (Inl e) | Inr x \<Rightarrow> k x)"

definition atom :: "('s, 'a) sem \<Rightarrow> ('s, 'a) prog" where
  "atom m = Act (\<lambda>_. True) (\<lambda>s. case m s of (r, s') \<Rightarrow> (Done r, s'))"

definition await :: "('s \<Rightarrow> bool) \<Rightarrow> ('s \<Rightarrow> 's) \<Rightarrow> ('s, unit) prog" where
  "await g f = Act g (\<lambda>s. (Done (Inr ()), f s))"

text \<open>\<open>defer f()\<close>, on every return of \<open>m\<close>.\<close>

definition deferP :: "('s, 'a) prog \<Rightarrow> ('s \<Rightarrow> 's) \<Rightarrow> ('s, 'a) prog" where
  "deferP m f = bindP m (\<lambda>r. bindP (atom (modS f)) (\<lambda>_. Done r))"

section \<open>Running alone\<close>

text \<open>How a run ends: it returned, or it panicked. Waiting for ever is a panic of the run time.\<close>

datatype 'a outcome = Returned "goerr + 'a" | Crashed string

abbreviation Ok :: "'a \<Rightarrow> 'a outcome" where "Ok x \<equiv> Returned (Inr x)"
abbreviation Err :: "goerr \<Rightarrow> 'a outcome" where "Err e \<equiv> Returned (Inl e)"

definition deadlock :: "'a outcome" where
  "deadlock = Crashed ''all goroutines are asleep - deadlock!''"

primrec runP :: "('s, 'a) prog \<Rightarrow> 's \<Rightarrow> 'a outcome \<times> 's" where
  "runP (Done r) = (\<lambda>s. (Returned r, s))"
| "runP (Crash m) = (\<lambda>s. (Crashed m, s))"
| "runP (Act g f) = (\<lambda>s. if g s then (case (map_prod runP id \<circ> f) s of (m, s') \<Rightarrow> m s') else (deadlock, s))"

lemma runP_bindP:
  "runP (bindP m k) s = (case runP m s of
      (Returned r, s') \<Rightarrow> runP (k r) s'
    | (Crashed p, s') \<Rightarrow> (Crashed p, s'))"
proof (induction m arbitrary: s)
  case (Act g f)
  show ?case
  proof (cases "g s")
    case True
    obtain p s' where f: "f s = (p, s')" by fastforce
    have "runP (bindP p k) s' = (case runP p s' of
      (Returned r, s') \<Rightarrow> runP (k r) s' | (Crashed p, s') \<Rightarrow> (Crashed p, s'))"
      using Act.IH [of "(p, s')" p s'] f by (metis fsts.intros fst_conv rangeI)
    with True f show ?thesis by simp
  next
    case False
    then show ?thesis by (simp add: deadlock_def)
  qed
qed simp_all

lemma runP_atom [simp]: "runP (atom m) s = (case m s of (r, s') \<Rightarrow> (Returned r, s'))"
  by (simp add: atom_def split: prod.split)

lemma runP_await [simp]: "g s \<Longrightarrow> runP (await g f) s = (Ok (), f s)"
  by (simp add: await_def)

lemma runP_thenP:
  "runP (thenP m k) s = (case runP m s of
      (Returned r, s') \<Rightarrow> (case r of Inl e \<Rightarrow> (Err e, s') | Inr x \<Rightarrow> runP (k x) s')
    | (Crashed p, s') \<Rightarrow> (Crashed p, s'))"
  by (simp add: thenP_def runP_bindP split: prod.split sum.split outcome.split)

lemma thenP_Inr: "runP m s = (Ok x, s') \<Longrightarrow> runP (thenP m k) s = runP (k x) s'"
  and thenP_Inl: "runP m s = (Err e, s') \<Longrightarrow> runP (thenP m k) s = (Err e, s')"
  by (simp_all add: runP_thenP)

lemma bindP_Returned: "runP m s = (Returned r, s') \<Longrightarrow> runP (bindP m k) s = runP (k r) s'"
  by (simp add: runP_bindP)

lemma runP_deferP:
  "runP (deferP m f) s = (case runP m s of
      (Returned r, s') \<Rightarrow> (Returned r, f s')
    | (Crashed p, s') \<Rightarrow> (Crashed p, s'))"
  by (auto simp: deferP_def runP_bindP split: prod.split outcome.split)

lemmas runP_simps = thenP_Inr thenP_Inl bindP_Returned runP_deferP

section \<open>Running together\<close>

text \<open>A configuration: the shared state and what each goroutine still has to do.\<close>

type_synonym ('s, 'a) pool = "'s \<times> ('s, 'a) prog list"

inductive pstep :: "('s, 'a) pool \<Rightarrow> ('s, 'a) pool \<Rightarrow> bool" where
  run: "i < length ts \<Longrightarrow> ts ! i = Act g f \<Longrightarrow> g s \<Longrightarrow> f s = (p, s') \<Longrightarrow> pstep (s, ts) (s', ts[i := p])"

inductive_cases pstepE: "pstep (s, ts) c"

abbreviation psteps :: "('s, 'a) pool \<Rightarrow> ('s, 'a) pool \<Rightarrow> bool" where
  "psteps \<equiv> pstep\<^sup>*\<^sup>*"

text \<open>A schedule names the goroutine to run next; one that cannot run is skipped.\<close>

fun sched1 :: "nat \<Rightarrow> ('s, 'a) pool \<Rightarrow> ('s, 'a) pool" where
  "sched1 i (s, ts) =
     (if i < length ts then
        case ts ! i of
          Done r \<Rightarrow> (s, ts)
        | Crash m \<Rightarrow> (s, ts)
        | Act g f \<Rightarrow> if g s then (case f s of (p, s') \<Rightarrow> (s', ts[i := p])) else (s, ts)
      else (s, ts))"

fun runSched :: "nat list \<Rightarrow> ('s, 'a) pool \<Rightarrow> ('s, 'a) pool" where
  "runSched [] c = c"
| "runSched (i # is) c = runSched is (sched1 i c)"

lemma sched1_psteps: "psteps c (sched1 i c)"
proof (cases c)
  case (Pair s ts)
  show ?thesis
  proof (cases "i < length ts \<and> (\<exists>g f. ts ! i = Act g f \<and> g s)")
    case True
    then obtain g f where a: "i < length ts" "ts ! i = Act g f" "g s" by blast
    obtain p s' where "f s = (p, s')" by fastforce
    with a Pair show ?thesis by (auto intro!: r_into_rtranclp run)
  next
    case False
    then have "sched1 i c = c" using Pair by (auto split: prog.split)
    then show ?thesis by simp
  qed
qed

lemma runSched_psteps: "psteps c (runSched is c)"
proof (induction "is" arbitrary: c)
  case (Cons i "is")
  have "psteps c (sched1 i c)" by (rule sched1_psteps)
  also have "psteps (sched1 i c) (runSched is (sched1 i c))" by (rule Cons.IH)
  finally show ?case by simp
qed simp

section \<open>Invariants of all schedules\<close>

text \<open>
  \<open>okP I Q p\<close>: every action \<open>p\<close> can still take keeps \<open>I\<close>, whatever the others did in
  between as long as they kept \<open>I\<close>, and if \<open>p\<close> returns it returns a result in \<open>Q\<close>.
\<close>

inductive okP :: "('s \<Rightarrow> bool) \<Rightarrow> ('a outcome \<Rightarrow> bool) \<Rightarrow> ('s, 'a) prog \<Rightarrow> bool" for I Q where
  okDone: "Q (Returned r) \<Longrightarrow> okP I Q (Done r)"
| okCrash: "Q (Crashed m) \<Longrightarrow> okP I Q (Crash m)"
| okAct: "(\<And>s. g s \<Longrightarrow> I s \<Longrightarrow> I (snd (f s)) \<and> okP I Q (fst (f s))) \<Longrightarrow> okP I Q (Act g f)"

inductive_cases okP_ActE: "okP I Q (Act g f)"
inductive_cases okP_DoneE: "okP I Q (Done r)"
inductive_cases okP_CrashE: "okP I Q (Crash m)"

lemma okP_bindP:
  assumes "okP I Q m" "\<And>r. Q (Returned r) \<Longrightarrow> okP I R (k r)" "\<And>m. Q (Crashed m) \<Longrightarrow> R (Crashed m)"
  shows "okP I R (bindP m k)"
  using assms(1) by (induction rule: okP.induct) (auto intro!: assms okP.intros)

lemma okP_thenP:
  assumes "okP I Q m" "\<And>x. Q (Ok x) \<Longrightarrow> okP I R (k x)" "\<And>e. Q (Err e) \<Longrightarrow> R (Err e)"
    "\<And>m. Q (Crashed m) \<Longrightarrow> R (Crashed m)"
  shows "okP I R (thenP m k)"
  unfolding thenP_def using assms by (auto intro!: okP_bindP [of I Q] okDone split: sum.split)

lemma okP_atom: "(\<And>s. I s \<Longrightarrow> I (snd (m s)) \<and> Q (Returned (fst (m s)))) \<Longrightarrow> okP I Q (atom m)"
  unfolding atom_def by (intro okAct) (force split: prod.split intro: okDone)

lemma okP_await: "(\<And>s. g s \<Longrightarrow> I s \<Longrightarrow> I (f s)) \<Longrightarrow> Q (Ok ()) \<Longrightarrow> okP I Q (await g f)"
  unfolding await_def by (auto intro!: okAct okDone)

lemma okP_deferP:
  assumes "okP I Q m" "\<And>s. I s \<Longrightarrow> I (f s)"
  shows "okP I Q (deferP m f)"
  unfolding deferP_def
proof (rule okP_bindP [OF assms(1)])
  fix r
  assume "Q (Returned r)"
  then show "okP I Q (bindP (atom (modS f)) (\<lambda>_. Done r))"
    by (intro okP_bindP [of I "\<lambda>r. r = Ok ()"] okP_atom) (auto intro: assms okDone)
qed

lemma okP_weaken: "okP I Q p \<Longrightarrow> (\<And>r. Q r \<Longrightarrow> R r) \<Longrightarrow> okP I R p"
  by (induction rule: okP.induct) (auto intro!: okP.intros)

lemma psteps_ok:
  assumes "psteps (s, ts) (s', ts')" "I s" "\<And>p. p \<in> set ts \<Longrightarrow> okP I Q p"
  shows "I s' \<and> (\<forall>p\<in>set ts'. okP I Q p)"
  using assms
proof (induction rule: rtranclp_induct2)
  case refl
  then show ?case by simp
next
  case (step s1 ts1 s2 ts2)
  then have I: "I s1" "\<forall>p\<in>set ts1. okP I Q p" by auto
  from \<open>pstep (s1, ts1) (s2, ts2)\<close> obtain i g f p where
    a: "i < length ts1" "ts1 ! i = Act g f" "g s1" "f s1 = (p, s2)" "ts2 = ts1[i := p]"
    by (auto elim: pstepE)
  from a I have "okP I Q (Act g f)" by (metis nth_mem)
  then have "I (snd (f s1)) \<and> okP I Q (fst (f s1))" using a(3) I(1) by (blast elim: okP_ActE)
  with a have "I s2 \<and> okP I Q p" by simp
  with a I show ?case by (auto dest: set_update_subset_insert [THEN subsetD])
qed

text \<open>One goroutine among any others, of which nothing is known.\<close>

lemma okP_any: "okP (\<lambda>_. True) (\<lambda>_. True) p"
proof (induction p)
  case (Act g f)
  show ?case
  proof (rule okAct)
    fix s
    have "f s \<in> range f" "fst (f s) \<in> Basic_BNFs.fsts (f s)" by (simp_all add: fsts.intros)
    then show "True \<and> okP (\<lambda>_. True) (\<lambda>_. True) (fst (f s))" using Act.IH by blast
  qed
qed (auto intro: okP.intros)

lemma psteps_one:
  assumes "psteps (s, ts) (s', ts')" "i < length ts" "okP (\<lambda>_. True) Q (ts ! i)"
  shows "length ts' = length ts \<and> okP (\<lambda>_. True) Q (ts' ! i)"
  using assms
proof (induction rule: rtranclp_induct2)
  case (step s1 ts1 s2 ts2)
  then have I: "length ts1 = length ts" "okP (\<lambda>_. True) Q (ts1 ! i)" by auto
  from \<open>pstep (s1, ts1) (s2, ts2)\<close> obtain j g f p where
    a: "j < length ts1" "ts1 ! j = Act g f" "g s1" "f s1 = (p, s2)" "ts2 = ts1[j := p]"
    by (auto elim: pstepE)
  show ?case
  proof (cases "j = i")
    case True
    then have "okP (\<lambda>_. True) Q (Act g f)" using a I by simp
    then have "okP (\<lambda>_. True) Q (fst (f s1))" using a(3) by (blast elim: okP_ActE)
    then show ?thesis using True a I by simp
  qed (use a I in simp)
qed simp

text \<open>Alone is a special case of together.\<close>

lemma runP_ok: "okP I Q p \<Longrightarrow> I s \<Longrightarrow> Q deadlock \<Longrightarrow> I (snd (runP p s)) \<and> Q (fst (runP p s))"
proof (induction arbitrary: s rule: okP.induct)
  case (okAct g f)
  then show ?case by (cases "f s") fastforce
qed simp_all

section \<open>Triples for programs that run alone\<close>

definition spec :: "('s \<Rightarrow> bool) \<Rightarrow> ('s, 'a) prog \<Rightarrow> ('a outcome \<Rightarrow> 's \<Rightarrow> bool) \<Rightarrow> bool" where
  "spec P m Q \<longleftrightarrow> (\<forall>s. P s \<longrightarrow> (case runP m s of (r, s') \<Rightarrow> Q r s'))"

lemma specI [intro?]: "(\<And>s r s'. P s \<Longrightarrow> runP m s = (r, s') \<Longrightarrow> Q r s') \<Longrightarrow> spec P m Q"
  by (auto simp: spec_def)

lemma specD: "spec P m Q \<Longrightarrow> P s \<Longrightarrow> runP m s = (r, s') \<Longrightarrow> Q r s'"
  by (fastforce simp: spec_def)

lemma spec_Done: "(\<And>s. P s \<Longrightarrow> Q (Returned r) s) \<Longrightarrow> spec P (Done r) Q"
  by (simp add: spec_def)

lemma spec_Crash: "(\<And>s. P s \<Longrightarrow> Q (Crashed m) s) \<Longrightarrow> spec P (Crash m) Q"
  by (simp add: spec_def)

lemma spec_atom: "(\<And>s. P s \<Longrightarrow> case m s of (r, s') \<Rightarrow> Q (Returned r) s') \<Longrightarrow> spec P (atom m) Q"
  by (fastforce simp: spec_def split: prod.split)

lemma spec_bindP:
  assumes "spec P m Q" "\<And>r. spec (Q (Returned r)) (k r) R" "\<And>m s. Q (Crashed m) s \<Longrightarrow> R (Crashed m) s"
  shows "spec P (bindP m k) R"
proof
  fix s r s'
  assume p: "P s" and r: "runP (bindP m k) s = (r, s')"
  obtain x t where m: "runP m s = (x, t)" by fastforce
  with assms(1) p have q: "Q x t" by (rule specD)
  show "R r s'"
  proof (cases x)
    case (Crashed p)
    with q m r assms(3) show ?thesis by (auto simp: runP_bindP)
  next
    case (Returned y)
    then have "runP (k y) t = (r, s')" using m r by (simp add: runP_bindP)
    with assms(2) q Returned show ?thesis by (blast dest: specD)
  qed
qed

lemma spec_thenP:
  assumes "spec P m Q" "\<And>x. spec (Q (Ok x)) (k x) R" "\<And>e s. Q (Err e) s \<Longrightarrow> R (Err e) s"
    "\<And>m s. Q (Crashed m) s \<Longrightarrow> R (Crashed m) s"
  shows "spec P (thenP m k) R"
  unfolding thenP_def
proof (rule spec_bindP [OF assms(1)])
  fix r
  show "spec (Q (Returned r)) (case r of Inl e \<Rightarrow> Done (Inl e) | Inr x \<Rightarrow> k x) R"
    using assms(2,3) by (cases r) (auto intro: spec_Done)
qed (rule assms(4))

lemma spec_pre: "spec P m Q \<Longrightarrow> (\<And>s. P' s \<Longrightarrow> P s) \<Longrightarrow> spec P' m Q"
  by (auto simp: spec_def)

lemma spec_post: "spec P m Q \<Longrightarrow> (\<And>r s. Q r s \<Longrightarrow> Q' r s) \<Longrightarrow> spec P m Q'"
  by (fastforce simp: spec_def)

text \<open>Preservation of a state predicate is the triple most proofs need.\<close>

abbreviation pres :: "('s \<Rightarrow> bool) \<Rightarrow> ('s, 'a) prog \<Rightarrow> bool" where
  "pres I m \<equiv> spec I m (\<lambda>_. I)"

lemma pres_Done: "pres I (Done r)"
  by (rule spec_Done)

lemma pres_bindP: "pres I m \<Longrightarrow> (\<And>r. pres I (k r)) \<Longrightarrow> pres I (bindP m k)"
  by (rule spec_bindP)

lemma pres_thenP: "pres I m \<Longrightarrow> (\<And>x. pres I (k x)) \<Longrightarrow> pres I (thenP m k)"
  by (rule spec_thenP)

lemma pres_atom: "(\<And>s. I s \<Longrightarrow> I (snd (m s))) \<Longrightarrow> pres I (atom m)"
  by (rule spec_atom) (force split: prod.split)

end
