(* ===== verification/GoText.thy ===== *)
theory GoText
  imports Prelude
begin

text \<open>
  The parts of Go's standard library for text that the program calls: UTF-8 and the
  \<open>for _, r := range s\<close> loop over a string's runes, package \<open>strings\<close>
  (\<open>TrimSpace\<close>, \<open>Split\<close>, \<open>Contains\<close>, \<open>ContainsAny\<close>, \<open>ReplaceAll\<close>, \<open>Join\<close>,
  \<open>ToLower\<close>) and package \<open>strconv\<close> (\<open>FormatUint\<close>, \<open>ParseUint\<close>, \<open>Atoi\<close>) in base 10.
  The lemmas are the round trips and shapes the components need.
\<close>

section \<open>UTF-8\<close>

type_synonym rune = nat

abbreviation chr :: "nat \<Rightarrow> char" where "chr n \<equiv> char_of n"
abbreviation ord :: "char \<Rightarrow> nat" where "ord c \<equiv> of_char c"

definition runeError :: rune where "runeError = 0xFFFD"

definition surrogate :: "rune \<Rightarrow> bool" where
  "surrogate r \<longleftrightarrow> 0xD800 \<le> r \<and> r \<le> 0xDFFF"

definition valid_rune :: "rune \<Rightarrow> bool" where
  "valid_rune r \<longleftrightarrow> r \<le> 0x10FFFF \<and> \<not> surrogate r"

text \<open>\<open>string([]rune{r})\<close>: an invalid rune is written as \<open>U+FFFD\<close>.\<close>

definition enc3 :: "rune \<Rightarrow> string" where
  "enc3 r = [chr (0xE0 + r div 4096), chr (0x80 + r div 64 mod 64), chr (0x80 + r mod 64)]"

definition enc_rune :: "rune \<Rightarrow> string" where
  "enc_rune r =
     (if r < 0x80 then [chr r]
      else if r < 0x800 then [chr (0xC0 + r div 64), chr (0x80 + r mod 64)]
      else if \<not> valid_rune r then enc3 runeError
      else if r < 0x10000 then enc3 r
      else [chr (0xF0 + r div 262144), chr (0x80 + r div 4096 mod 64),
            chr (0x80 + r div 64 mod 64), chr (0x80 + r mod 64)])"

definition string_of_runes :: "rune list \<Rightarrow> string" where
  "string_of_runes rs = concat (map enc_rune rs)"

definition cont_byte :: "char \<Rightarrow> bool" where
  "cont_byte c \<longleftrightarrow> 0x80 \<le> ord c \<and> ord c < 0xC0"

definition low6 :: "char \<Rightarrow> nat" where "low6 c = ord c - 0x80"

text \<open>
  \<open>utf8.DecodeRuneInString\<close> on a non-empty string \<open>c # s\<close>: the rune and the bytes
  after it. A byte that does not start a valid encoding is \<open>(U+FFFD, 1)\<close>.
\<close>

fun dec2 :: "char \<Rightarrow> string \<Rightarrow> (rune \<times> string) option" where
  "dec2 c (c1 # s) =
     (let r = (ord c - 0xC0) * 64 + low6 c1
      in if 0xC0 \<le> ord c \<and> ord c < 0xE0 \<and> cont_byte c1 \<and> 0x80 \<le> r
         then Some (r, s) else None)"
| "dec2 c s = None"

fun dec3 :: "char \<Rightarrow> string \<Rightarrow> (rune \<times> string) option" where
  "dec3 c (c1 # c2 # s) =
     (let r = (ord c - 0xE0) * 4096 + low6 c1 * 64 + low6 c2
      in if 0xE0 \<le> ord c \<and> ord c < 0xF0 \<and> cont_byte c1 \<and> cont_byte c2 \<and>
            0x800 \<le> r \<and> \<not> surrogate r
         then Some (r, s) else None)"
| "dec3 c s = None"

fun dec4 :: "char \<Rightarrow> string \<Rightarrow> (rune \<times> string) option" where
  "dec4 c (c1 # c2 # c3 # s) =
     (let r = (ord c - 0xF0) * 262144 + low6 c1 * 4096 + low6 c2 * 64 + low6 c3
      in if 0xF0 \<le> ord c \<and> ord c < 0xF8 \<and> cont_byte c1 \<and> cont_byte c2 \<and>
            cont_byte c3 \<and> 0x10000 \<le> r \<and> r \<le> 0x10FFFF
         then Some (r, s) else None)"
| "dec4 c s = None"

definition dec_rune :: "char \<Rightarrow> string \<Rightarrow> rune \<times> string" where
  "dec_rune c s =
     (if ord c < 0x80 then (ord c, s)
      else case dec2 c s of Some x \<Rightarrow> x
      | None \<Rightarrow> (case dec3 c s of Some x \<Rightarrow> x
      | None \<Rightarrow> (case dec4 c s of Some x \<Rightarrow> x | None \<Rightarrow> (runeError, s))))"

lemma dec2_shorter: "dec2 c s = Some x \<Longrightarrow> length (snd x) < length s"
  by (cases "(c, s)" rule: dec2.cases) (auto simp: Let_def split: if_splits)

lemma dec3_shorter: "dec3 c s = Some x \<Longrightarrow> length (snd x) < length s"
  by (cases "(c, s)" rule: dec3.cases) (auto simp: Let_def split: if_splits)

lemma dec4_shorter: "dec4 c s = Some x \<Longrightarrow> length (snd x) < length s"
  by (cases "(c, s)" rule: dec4.cases) (auto simp: Let_def split: if_splits)

lemma dec_rune_shorter: "length (snd (dec_rune c s)) \<le> length s"
  by (auto simp: dec_rune_def less_imp_le split: option.split
      dest!: dec2_shorter dec3_shorter dec4_shorter)

text \<open>The runes a \<open>range\<close> loop over the string yields.\<close>

function runes :: "string \<Rightarrow> rune list" where
  "runes [] = []"
| "runes (c # s) = fst (dec_rune c s) # runes (snd (dec_rune c s))"
  by pat_completeness auto
termination
  by (relation "measure length") (auto simp: less_Suc_eq_le dec_rune_shorter)

section \<open>Package strings\<close>

text \<open>
  \<open>unicode.IsSpace\<close>, as the UTF-8 encodings of its runes. \<open>TrimSpace\<close> decodes a rune
  at each end; an encoding can be recognised as a prefix or a suffix because its first
  byte is the only one that is not a continuation byte.
\<close>

definition space_runes :: "rune list" where
  "space_runes = [9, 10, 11, 12, 13, 32, 0x85, 0xA0, 0x1680] @ [0x2000..<0x200B] @
     [0x2028, 0x2029, 0x202F, 0x205F, 0x3000]"

definition space_encs :: "string list" where
  "space_encs = map enc_rune space_runes"

definition is_prefix :: "string \<Rightarrow> string \<Rightarrow> bool" where
  "is_prefix p s \<longleftrightarrow> take (length p) s = p"

definition lead_space :: "string \<Rightarrow> string option" where
  "lead_space s = find (\<lambda>e. is_prefix e s) space_encs"

lemma diff_length_less: "e \<noteq> [] \<Longrightarrow> length e \<le> length s \<Longrightarrow> length s - length e < length s"
  by (cases e) auto

lemma lead_space_pos: "lead_space s = Some e \<Longrightarrow> 0 < length e \<and> length e \<le> length s"
proof -
  assume "lead_space s = Some e"
  then have "e \<in> set space_encs" and pre: "is_prefix e s"
    by (auto simp: lead_space_def find_Some_iff in_set_conv_nth)
  then obtain r where "e = enc_rune r" by (auto simp: space_encs_def)
  then have "0 < length e" by (simp add: enc_rune_def enc3_def)
  moreover from pre have "length e \<le> length s"
    by (metis is_prefix_def length_take min.cobounded1)
  ultimately show ?thesis ..
qed

function trim_left :: "string \<Rightarrow> string" where
  "trim_left s =
     (case lead_space s of None \<Rightarrow> s | Some e \<Rightarrow> trim_left (drop (length e) s))"
  by pat_completeness auto
termination
  by (relation "measure length") (auto dest!: lead_space_pos intro: diff_length_less)

declare trim_left.simps [simp del]

definition tail_space :: "string \<Rightarrow> string option" where
  "tail_space s = find (\<lambda>e. is_prefix (rev e) (rev s)) space_encs"

lemma tail_space_pos: "tail_space s = Some e \<Longrightarrow> 0 < length e \<and> length e \<le> length s"
proof -
  assume "tail_space s = Some e"
  then have "e \<in> set space_encs" and pre: "is_prefix (rev e) (rev s)"
    by (auto simp: tail_space_def find_Some_iff in_set_conv_nth)
  then obtain r where "e = enc_rune r" by (auto simp: space_encs_def)
  then have "0 < length e" by (simp add: enc_rune_def enc3_def)
  moreover from pre have "length e \<le> length s"
    by (metis is_prefix_def length_rev length_take min.cobounded1)
  ultimately show ?thesis ..
qed

function trim_right :: "string \<Rightarrow> string" where
  "trim_right s =
     (case tail_space s of None \<Rightarrow> s | Some e \<Rightarrow> trim_right (take (length s - length e) s))"
  by pat_completeness auto
termination
  by (relation "measure length") (auto dest!: tail_space_pos intro: diff_length_less)

declare trim_right.simps [simp del]

definition trimSpace :: "string \<Rightarrow> string" where
  "trimSpace s = trim_right (trim_left s)"

text \<open>\<open>strings.Split(s, sep)\<close> for a separator of one byte.\<close>

fun split_on :: "char \<Rightarrow> string \<Rightarrow> string list" where
  "split_on c [] = [[]]"
| "split_on c (x # xs) =
     (if x = c then [] # split_on c xs
      else case split_on c xs of [] \<Rightarrow> [[x]] | y # ys \<Rightarrow> (x # y) # ys)"

text \<open>\<open>strings.Contains(s, sub)\<close>.\<close>

fun contains_str :: "string \<Rightarrow> string \<Rightarrow> bool" where
  "contains_str [] sub = (sub = [])"
| "contains_str (x # xs) sub = (is_prefix sub (x # xs) \<or> contains_str xs sub)"

text \<open>\<open>strings.ContainsAny(s, chars)\<close> for ASCII \<open>chars\<close>.\<close>

definition contains_any :: "string \<Rightarrow> string \<Rightarrow> bool" where
  "contains_any s cs = list_ex (\<lambda>x. x \<in> set cs) s"

text \<open>\<open>strings.ReplaceAll(s, old, new)\<close> for \<open>old\<close> of one byte.\<close>

definition replace_all :: "char \<Rightarrow> string \<Rightarrow> string \<Rightarrow> string" where
  "replace_all old new s = concat (map (\<lambda>x. if x = old then new else [x]) s)"

text \<open>\<open>strings.Join(xs, sep)\<close>.\<close>

fun join_str :: "string \<Rightarrow> string list \<Rightarrow> string" where
  "join_str sep [] = []"
| "join_str sep [x] = x"
| "join_str sep (x # y # xs) = x @ sep @ join_str sep (y # xs)"

text \<open>
  \<open>strings.ToLower\<close>: bytewise on ASCII strings, else rune by rune. \<open>ulow\<close> is
  \<open>unicode.ToLower\<close> on the runes beyond ASCII (the Unicode tables).
\<close>

definition ascii_lower :: "nat \<Rightarrow> nat" where
  "ascii_lower r = (if 65 \<le> r \<and> r \<le> 90 then r + 32 else r)"

definition toLower :: "(rune \<Rightarrow> rune) \<Rightarrow> string \<Rightarrow> string" where
  "toLower ulow s =
     (if list_all (\<lambda>c. ord c < 128) s then map (\<lambda>c. chr (ascii_lower (ord c))) s
      else string_of_runes (map (\<lambda>r. if r < 128 then ascii_lower r else ulow r) (runes s)))"

section \<open>Package strconv\<close>

definition digit_chr :: "nat \<Rightarrow> char" where "digit_chr d = chr (48 + d)"

definition is_digit :: "char \<Rightarrow> bool" where
  "is_digit c \<longleftrightarrow> 48 \<le> ord c \<and> ord c \<le> 57"

definition digit_val :: "char \<Rightarrow> nat" where "digit_val c = ord c - 48"

text \<open>\<open>strconv.FormatUint(n, 10)\<close>.\<close>

fun formatUint :: "nat \<Rightarrow> string" where
  "formatUint n =
     (if n < 10 then [digit_chr n] else formatUint (n div 10) @ [digit_chr (n mod 10)])"

declare formatUint.simps [simp del]

text \<open>\<open>strconv.ParseUint(s, 10, bits)\<close> with \<open>maxVal = 1<<bits - 1\<close>.\<close>

fun parse_digits :: "nat \<Rightarrow> string \<Rightarrow> nat \<Rightarrow> string \<Rightarrow> goerr + nat" where
  "parse_digits maxVal s0 n [] = Inr n"
| "parse_digits maxVal s0 n (c # cs) =
     (if \<not> is_digit c then Inl (NumSyntax s0)
      else let n1 = n * 10 + digit_val c
           in if n1 > maxVal then Inl (NumRange s0) else parse_digits maxVal s0 n1 cs)"

definition parseUint :: "nat \<Rightarrow> string \<Rightarrow> goerr + nat" where
  "parseUint maxVal s = (if s = [] then Inl (NumSyntax s) else parse_digits maxVal s 0 s)"

definition parseUint16 :: "string \<Rightarrow> goerr + nat" where
  "parseUint16 = parseUint 65535"

text \<open>\<open>strconv.Atoi\<close>: an optional sign, then a magnitude that fits a 64-bit \<open>int\<close>.\<close>

definition atoi :: "string \<Rightarrow> goerr + int" where
  "atoi s =
     (let neg = (s \<noteq> [] \<and> hd s = CHR ''-'');
          mag = (if s \<noteq> [] \<and> (hd s = CHR ''-'' \<or> hd s = CHR ''+'') then tl s else s)
      in case parseUint (2 ^ 64 - 1) mag of
           Inl (NumRange _) \<Rightarrow> Inl (NumRange s)
         | Inl _ \<Rightarrow> Inl (NumSyntax s)
         | Inr n \<Rightarrow>
             if \<not> neg \<and> n \<ge> 2 ^ 63 then Inl (NumRange s)
             else if neg \<and> n > 2 ^ 63 then Inl (NumRange s)
             else Inr (if neg then - int n else int n))"

section \<open>Lemmas\<close>

subsection \<open>Runes\<close>

lemma ord_chr [simp]: "n < 256 \<Longrightarrow> ord (chr n) = n"
  by (simp add: of_char_of)

lemma ord_bound: "ord c < 256"
  by simp

lemma split64: "(r::nat) div 64 * 64 + r mod 64 = r"
  by (rule div_mult_mod_eq)

lemma split4096: "(r::nat) div 4096 * 4096 + r div 64 mod 64 * 64 + r mod 64 = r"
proof -
  have "r div 64 div 64 * 64 + r div 64 mod 64 = r div 64" by (rule split64)
  moreover have "r div 64 div 64 = r div 4096" by (simp add: div_mult2_eq [symmetric])
  ultimately show ?thesis using split64 [of r] by linarith
qed

lemma split262144:
  "(r::nat) div 262144 * 262144 + r div 4096 mod 64 * 4096 + r div 64 mod 64 * 64 + r mod 64 = r"
proof -
  have "r div 4096 div 64 * 64 + r div 4096 mod 64 = r div 4096" by (rule split64)
  moreover have "r div 4096 div 64 = r div 262144" by (simp add: div_mult2_eq [symmetric])
  ultimately show ?thesis using split4096 [of r] by linarith
qed

lemma cont_byte_chr [simp]: "n < 64 \<Longrightarrow> cont_byte (chr (128 + n))"
  by (simp add: cont_byte_def)

lemma low6_chr [simp]: "n < 64 \<Longrightarrow> low6 (chr (128 + n)) = n"
  by (simp add: low6_def)

lemma dec_enc2:
  assumes "0x80 \<le> r" "r < 0x800"
  shows "dec_rune (chr (0xC0 + r div 64)) (chr (0x80 + r mod 64) # s) = (r, s)"
proof -
  have "r div 64 < 32" using assms by auto
  with assms have "dec2 (chr (0xC0 + r div 64)) (chr (0x80 + r mod 64) # s) = Some (r, s)"
    using split64 [of r] by (auto simp: Let_def)
  then show ?thesis using assms by (simp add: dec_rune_def)
qed

lemma dec_enc3:
  assumes "0x800 \<le> r" "r < 0x10000" "\<not> surrogate r"
  shows "dec_rune (chr (0xE0 + r div 4096))
           (chr (0x80 + r div 64 mod 64) # chr (0x80 + r mod 64) # s) = (r, s)"
proof -
  have "r div 4096 < 16" using assms by auto
  then show ?thesis using assms split4096 [of r] by (simp add: dec_rune_def Let_def)
qed

lemma dec_enc4:
  assumes "0x10000 \<le> r" "r \<le> 0x10FFFF"
  shows "dec_rune (chr (0xF0 + r div 262144)) (chr (0x80 + r div 4096 mod 64) #
           chr (0x80 + r div 64 mod 64) # chr (0x80 + r mod 64) # s) = (r, s)"
proof -
  have "r div 262144 < 8" using assms by auto
  then show ?thesis using assms split262144 [of r] by (simp add: dec_rune_def Let_def)
qed

lemma runes_enc_rune: "valid_rune r \<Longrightarrow> runes (enc_rune r @ s) = r # runes s"
  by (auto simp: enc_rune_def enc3_def valid_rune_def dec_enc2 dec_enc3 dec_enc4 dec_rune_def
      [of "chr r"])

text \<open>A string that encodes valid runes is read back rune by rune.\<close>

lemma runes_string_of_runes:
  "list_all valid_rune rs \<Longrightarrow> runes (string_of_runes rs @ s) = rs @ runes s"
  by (induction rs) (simp_all add: string_of_runes_def runes_enc_rune)

lemma string_of_runes_append [simp]:
  "string_of_runes (a @ b) = string_of_runes a @ string_of_runes b"
  by (simp add: string_of_runes_def)

lemma string_of_runes_Nil [simp]: "string_of_runes [] = []"
  by (simp add: string_of_runes_def)

lemma string_of_runes_Cons: "string_of_runes (r # rs) = enc_rune r @ string_of_runes rs"
  by (simp add: string_of_runes_def)

lemma enc_rune_neq_Nil [simp]: "enc_rune r \<noteq> []"
  by (simp add: enc_rune_def enc3_def)


subsection \<open>Numbers\<close>

lemma is_digit_digit_chr [simp]: "d < 10 \<Longrightarrow> is_digit (digit_chr d)"
  by (simp add: is_digit_def digit_chr_def)

lemma digit_val_digit_chr [simp]: "d < 10 \<Longrightarrow> digit_val (digit_chr d) = d"
  by (simp add: digit_val_def digit_chr_def)

lemma formatUint_neq_Nil [simp]: "formatUint n \<noteq> []"
  by (subst formatUint.simps) simp

lemma formatUint_digits: "list_all is_digit (formatUint n)"
proof (induction n rule: formatUint.induct)
  case (1 n)
  then show ?case by (subst formatUint.simps) simp
qed

lemma formatUint_not_member: "\<not> is_digit c \<Longrightarrow> c \<notin> set (formatUint n)"
  using formatUint_digits [of n] by (auto simp: list_all_iff)

lemma parse_digits_append:
  "parse_digits m s0 n (a @ b) =
     (case parse_digits m s0 n a of Inl e \<Rightarrow> Inl e | Inr n' \<Rightarrow> parse_digits m s0 n' b)"
  by (induction a arbitrary: n) (auto simp: Let_def)

lemma parse_digits_formatUint: "n \<le> m \<Longrightarrow> parse_digits m s0 0 (formatUint n) = Inr n"
proof (induction n rule: formatUint.induct)
  case (1 n)
  show ?case
  proof (cases "n < 10")
    case True
    with "1.prems" show ?thesis by (subst formatUint.simps) (simp add: Let_def)
  next
    case False
    with "1" have "parse_digits m s0 0 (formatUint (n div 10)) = Inr (n div 10)"
      by (meson div_le_dividend le_trans)
    with False "1.prems" show ?thesis
      by (subst formatUint.simps) (simp add: parse_digits_append Let_def)
  qed
qed

lemma parseUint_formatUint: "n \<le> m \<Longrightarrow> parseUint m (formatUint n) = Inr n"
  by (simp add: parseUint_def parse_digits_formatUint)

lemma parse_digits_bound: "n \<le> m \<Longrightarrow> parse_digits m s0 n cs = Inr v \<Longrightarrow> v \<le> m"
  by (induction cs arbitrary: n) (auto simp: Let_def not_less split: if_splits)

lemma parseUint_bound: "parseUint m s = Inr v \<Longrightarrow> v \<le> m"
  by (auto simp: parseUint_def split: if_splits intro: parse_digits_bound [of 0])

lemma parseUint16_formatUint [simp]: "parseUint16 (formatUint (unat (p :: uint16))) = Inr (unat p)"
proof -
  have "unat p < 65536" using unsigned_less [of p] by simp
  then show ?thesis by (simp add: parseUint16_def parseUint_formatUint)
qed

lemma parse_digits_all: "parse_digits m s0 n s = Inr v \<Longrightarrow> list_all is_digit s"
  by (induction s arbitrary: n) (auto simp: Let_def split: if_splits)

lemma parseUint_digits: "parseUint m s = Inr v \<Longrightarrow> list_all is_digit s"
  by (auto simp: parseUint_def split: if_splits dest: parse_digits_all)

lemma parseUint16_bound: "parseUint16 s = Inr v \<Longrightarrow> v < 65536"
  using parseUint_bound [of 65535 s v] by (simp add: parseUint16_def)

subsection \<open>Strings\<close>

lemma is_prefix_append [simp]: "is_prefix p (p @ s)"
  by (simp add: is_prefix_def)

lemma is_prefix_iff: "is_prefix p s \<longleftrightarrow> (\<exists>r. s = p @ r)"
  by (metis append_take_drop_id is_prefix_append is_prefix_def)

lemma contains_str_iff: "contains_str s sub \<longleftrightarrow> (\<exists>a b. s = a @ sub @ b)"
proof (induction s)
  case (Cons x xs)
  have "(\<exists>a b. x # xs = a @ sub @ b) \<longleftrightarrow>
      (\<exists>b. x # xs = sub @ b) \<or> (\<exists>a b. xs = a @ sub @ b)"
    by (metis append_Cons append_Nil list.sel(3) neq_Nil_conv)
  with Cons show ?case by (simp add: is_prefix_iff)
qed simp

lemma split_on_neq_Nil [simp]: "split_on c s \<noteq> []"
  by (induction s) (auto split: list.split)

lemma split_on_no_sep: "c \<notin> set s \<Longrightarrow> split_on c s = [s]"
  by (induction s) auto

lemma split_on_append: "c \<notin> set a \<Longrightarrow> split_on c (a @ c # b) = a # split_on c b"
  by (induction a) auto

lemma split_on_join:
  "xs \<noteq> [] \<Longrightarrow> list_all (\<lambda>x. c \<notin> set x) xs \<Longrightarrow> split_on c (join_str [c] xs) = xs"
proof (induction "[c]" xs rule: join_str.induct)
  case (3 x y xs)
  then show ?case by (simp add: split_on_append)
qed (simp_all add: split_on_no_sep)

lemma toLower_ascii:
  "list_all (\<lambda>c. ord c < 128) s \<Longrightarrow> toLower u s = map (\<lambda>c. chr (ascii_lower (ord c))) s"
  by (simp add: toLower_def)

text \<open>A string whose first and last bytes are graphic ASCII characters has no space to trim.\<close>

definition graphic :: "char \<Rightarrow> bool" where
  "graphic c \<longleftrightarrow> 32 < ord c \<and> ord c < 127"

lemma space_enc_ends:
  assumes "e \<in> set space_encs"
  shows "e \<noteq> [] \<and> \<not> graphic (hd e) \<and> \<not> graphic (last e)"
proof -
  obtain r where r: "r \<in> set space_runes" "e = enc_rune r"
    using assms by (auto simp: space_encs_def)
  have "r \<le> 32 \<or> (0x80 \<le> r \<and> r \<le> 0x3000)"
    using r(1) by (auto simp: space_runes_def)
  moreover have "\<not> surrogate r" using calculation by (auto simp: surrogate_def)
  moreover have "0xE0 + r div 4096 < 256" "0xC0 + r div 64 < 256 \<or> 0x800 \<le> r"
    using calculation by auto
  ultimately show ?thesis
    using r(2) by (auto simp: enc_rune_def enc3_def graphic_def valid_rune_def)
qed

lemma lead_space_graphic: "s \<noteq> [] \<Longrightarrow> graphic (hd s) \<Longrightarrow> lead_space s = None"
proof (rule ccontr)
  assume s: "s \<noteq> []" "graphic (hd s)" and "lead_space s \<noteq> None"
  then obtain e where e: "e \<in> set space_encs" "is_prefix e s"
    by (auto simp: lead_space_def find_None_iff)
  then have "hd s = hd e" using space_enc_ends [OF e(1)] by (auto simp: is_prefix_iff)
  with e s space_enc_ends show False by auto
qed

lemma tail_space_graphic: "s \<noteq> [] \<Longrightarrow> graphic (last s) \<Longrightarrow> tail_space s = None"
proof (rule ccontr)
  assume s: "s \<noteq> []" "graphic (last s)" and "tail_space s \<noteq> None"
  then obtain e where e: "e \<in> set space_encs" "is_prefix (rev e) (rev s)"
    by (auto simp: tail_space_def find_None_iff)
  then obtain r where "rev s = rev e @ r" by (auto simp: is_prefix_iff)
  then have "s = rev r @ e" by (metis rev_append rev_rev_ident)
  then have "last s = last e" using space_enc_ends [OF e(1)] by simp
  with e s space_enc_ends show False by auto
qed

lemma trimSpace_graphic:
  "s \<noteq> [] \<Longrightarrow> graphic (hd s) \<Longrightarrow> graphic (last s) \<Longrightarrow> trimSpace s = s"
  by (simp add: trimSpace_def trim_left.simps [of s] trim_right.simps [of s]
      lead_space_graphic tail_space_graphic)

lemma trimSpace_Nil [simp]: "trimSpace [] = []"
proof -
  have "lead_space [] = None" "tail_space [] = None"
    using lead_space_pos [of "[]"] tail_space_pos [of "[]"] by (auto intro: option.exhaust)
  then show ?thesis
    by (simp add: trimSpace_def trim_left.simps [of "[]"] trim_right.simps [of "[]"])
qed

end
