(* ===== verification/Caps.thy ===== *)
theory Caps
  imports GoText
begin

text \<open>
  \<open>caps.go\<close>: the capabilities of a thread. \<open>restrictCurrentThreadCaps\<close> drops every capability
  outside a 64-bit mask from the bounding set, clears the ambient set and sets the other three
  sets to the mask. The kernel's side, \<open>prctl\<close> and \<open>capset\<close>, is modelled by the sets those calls
  are documented to change; which of them fail, and how, is an argument.
\<close>

section \<open>Masks\<close>

definition capInMask :: "uint64 \<Rightarrow> int \<Rightarrow> bool" where
  "capInMask msk cap \<longleftrightarrow> cap \<ge> 0 \<and> cap < 64 \<and> msk AND push_bit (nat cap) 1 \<noteq> 0"

fun capMaskLoop :: "uint64 \<Rightarrow> int list \<Rightarrow> uint64" where
  "capMaskLoop msk [] = msk"
| "capMaskLoop msk (cap # caps) =
     capMaskLoop (if cap \<ge> 0 \<and> cap < 64 then msk OR push_bit (nat cap) 1 else msk) caps"

definition capMask :: "int list \<Rightarrow> uint64" where
  "capMask caps = capMaskLoop 0 caps"

section \<open>The kernel's last capability\<close>

definition CAP_LAST_CAP :: int where "CAP_LAST_CAP = 40"

text \<open>\<open>file\<close> is what reading \<open>/proc/sys/kernel/cap_last_cap\<close> returned.\<close>

definition kernelLastCap :: "goerr + bytes \<Rightarrow> int" where
  "kernelLastCap file =
     (case file of
        Inl e \<Rightarrow> CAP_LAST_CAP
      | Inr b \<Rightarrow>
          (case atoi (trimSpace (bytes_str b)) of
             Inl e \<Rightarrow> CAP_LAST_CAP
           | Inr n \<Rightarrow> if n < 0 then CAP_LAST_CAP else n))"

section \<open>Restricting a thread\<close>

text \<open>
  The capability sets of a thread; \<open>dropFails\<close>, \<open>ambientFails\<close> and \<open>capsetFails\<close> are the
  outcomes of the three kinds of call.
\<close>

record thread_caps =
  bounding :: "int set"
  ambient :: "int set"
  effective :: "int set"
  permitted :: "int set"
  inheritable :: "int set"

record caps_env =
  lastCapFile :: "goerr + bytes"
  dropFails :: "int \<Rightarrow> goerr option"
  ambientFails :: "goerr option"
  capsetFails :: "goerr option"

definition EINVAL :: goerr where "EINVAL = Errno 22"

text \<open>The loop \<open>for cap := 0; cap <= kernelLastCap(); cap++\<close>; it ends after \<open>last + 1\<close> rounds.\<close>

function dropLoop :: "caps_env \<Rightarrow> uint64 \<Rightarrow> int \<Rightarrow> (thread_caps, unit) sem" where
  "dropLoop env msk cap = (\<lambda>t.
     if cap > kernelLastCap (lastCapFile env) then (Inr (), t)
     else if capInMask msk cap then dropLoop env msk (cap + 1) t
     else (case dropFails env cap of
         None \<Rightarrow> dropLoop env msk (cap + 1) (t\<lparr>bounding := bounding t - {cap}\<rparr>)
       | Some e \<Rightarrow>
           if errors_is e EINVAL then dropLoop env msk (cap + 1) t
           else (Inl (Wrapf ''drop bounding cap %d: %w'' [AInt cap] e), t)))"
  by pat_completeness auto
termination
  by (relation "measure (\<lambda>(env, msk, cap). nat (kernelLastCap (lastCapFile env) + 1 - cap))") auto

declare dropLoop.simps [simp del]

text \<open>The two words \<open>capset\<close> is given, and the set the kernel reads from them.\<close>

definition capsetWords :: "uint64 \<Rightarrow> uint32 \<times> uint32" where
  "capsetWords msk = (ucast msk, ucast (drop_bit 32 msk))"

definition wordCaps :: "uint32 \<times> uint32 \<Rightarrow> int set" where
  "wordCaps w = {cap. 0 \<le> cap \<and> cap < 32 \<and> bit (fst w) (nat cap)} \<union>
     {cap. 32 \<le> cap \<and> cap < 64 \<and> bit (snd w) (nat cap - 32)}"

definition restrictCurrentThreadCaps :: "caps_env \<Rightarrow> uint64 \<Rightarrow> (thread_caps, unit) sem" where
  "restrictCurrentThreadCaps env msk =
     andThen (dropLoop env msk 0) (\<lambda>_.
     andThen (case ambientFails env of
                None \<Rightarrow> modS (\<lambda>t. t\<lparr>ambient := {}\<rparr>)
              | Some e \<Rightarrow> if \<not> errors_is e EINVAL then throw (Wrapf ''clear ambient caps: %w'' [] e) else ret ()) (\<lambda>_.
     case capsetFails env of
       Some e \<Rightarrow> throw (Wrapf ''set caps mask 0x%x: %w'' [AInt (uint msk)] e)
     | None \<Rightarrow>
         let s = wordCaps (capsetWords msk)
         in modS (\<lambda>t. t\<lparr>effective := s, permitted := s, inheritable := s\<rparr>)))"

section \<open>Masks as sets\<close>

definition maskCaps :: "uint64 \<Rightarrow> int set" where
  "maskCaps msk = {cap. capInMask msk cap}"

lemma and_push_bit_1: "(msk :: uint64) AND push_bit n 1 \<noteq> 0 \<longleftrightarrow> n < 64 \<and> bit msk n"
proof -
  have "msk AND push_bit n 1 = (if n < 64 \<and> bit msk n then push_bit n 1 else 0)"
    by (rule bit_word_eqI) (auto simp: bit_simps)
  moreover have "n < 64 \<Longrightarrow> push_bit n (1 :: uint64) \<noteq> 0"
  proof
    assume "n < 64" "push_bit n (1 :: uint64) = 0"
    then have "bit (push_bit n (1 :: uint64)) n = False" by simp
    with \<open>n < 64\<close> show False by (simp add: bit_simps)
  qed
  ultimately show ?thesis by auto
qed

lemma capInMask_bit: "capInMask msk cap \<longleftrightarrow> 0 \<le> cap \<and> cap < 64 \<and> bit msk (nat cap)"
  unfolding capInMask_def and_push_bit_1 by auto

lemma bit_2_iff_pow: "bit ((2 :: uint64) ^ n) m \<longleftrightarrow> m = n \<and> n < 64"
  by (auto simp: bit_exp_iff)

lemma capMaskLoop_bit:
  "0 \<le> cap \<Longrightarrow> cap < 64 \<Longrightarrow> bit (capMaskLoop msk caps) (nat cap) \<longleftrightarrow> bit msk (nat cap) \<or> cap \<in> set caps"
proof (induction caps arbitrary: msk)
  case (Cons c caps)
  have "bit (push_bit (nat c) (1 :: uint64)) (nat cap) \<longleftrightarrow> c = cap" if "0 \<le> c" "c < 64"
    using that Cons.prems by (auto simp: bit_2_iff_pow nat_less_iff)
  then show ?case
    using Cons.prems by (cases "0 \<le> c \<and> c < 64") (auto simp: Cons.IH bit_or_iff)
qed simp

lemma wordCaps_mask: "wordCaps (capsetWords msk) = maskCaps msk"
proof (rule set_eqI)
  fix cap
  have "bit (ucast msk :: uint32) (nat cap) \<longleftrightarrow> bit msk (nat cap)" if "0 \<le> cap" "cap < 32"
    using that by (simp add: bit_simps nat_less_iff)
  moreover have "bit (ucast (drop_bit 32 msk) :: uint32) (nat cap - 32) \<longleftrightarrow> bit msk (nat cap)"
    if "32 \<le> cap" "cap < 64"
  proof -
    have "32 \<le> nat cap" "nat cap - 32 < 32" using that by linarith+
    then show ?thesis by (simp add: bit_simps)
  qed
  ultimately show "cap \<in> wordCaps (capsetWords msk) \<longleftrightarrow> cap \<in> maskCaps msk"
    by (cases "cap < 32") (auto simp: wordCaps_def capsetWords_def maskCaps_def capInMask_bit)
qed

lemma dropLoop_ok:
  assumes "dropLoop env msk cap t = (Inr (), t')" "0 \<le> cap"
  shows "t' = t\<lparr>bounding := bounding t -
     {c. cap \<le> c \<and> c \<le> kernelLastCap (lastCapFile env) \<and> \<not> capInMask msk c \<and> dropFails env c = None}\<rparr>"
  using assms
proof (induction "nat (kernelLastCap (lastCapFile env) + 1 - cap)" arbitrary: cap t)
  case 0
  then have gt: "kernelLastCap (lastCapFile env) < cap" by simp
  then have none: "{c. cap \<le> c \<and> c \<le> kernelLastCap (lastCapFile env) \<and> \<not> capInMask msk c \<and> dropFails env c = None} = {}"
    by auto
  from gt 0(2) have "t' = t" by (simp add: dropLoop.simps [of env msk cap])
  then show ?case unfolding none by simp
next
  case (Suc n)
  let ?l = "kernelLastCap (lastCapFile env)"
  let ?D = "\<lambda>cap. {c. cap \<le> c \<and> c \<le> ?l \<and> \<not> capInMask msk c \<and> dropFails env c = None}"
  have l: "cap \<le> ?l" and n: "n = nat (?l + 1 - (cap + 1))" using Suc.hyps(2) by auto
  note IH = Suc.hyps(1) [OF n, of _]
  have step: "cap \<le> c \<longleftrightarrow> c = cap \<or> cap + 1 \<le> c" for c by arith
  consider "capInMask msk cap" | e where "\<not> capInMask msk cap" "dropFails env cap = Some e"
    | "\<not> capInMask msk cap" "dropFails env cap = None" by (cases "dropFails env cap") auto
  then show ?case
  proof cases
    case 1
    then have "dropLoop env msk (cap + 1) t = (Inr (), t')"
      using Suc.prems(1) l by (simp add: dropLoop.simps [of env msk cap])
    from IH [OF this] Suc.prems(2) have "t' = t\<lparr>bounding := bounding t - ?D (cap + 1)\<rparr>" by simp
    moreover have "?D (cap + 1) = ?D cap" using 1 by (auto simp: step)
    ultimately show ?thesis by simp
  next
    case 2
    then have "dropLoop env msk (cap + 1) t = (Inr (), t')"
      using Suc.prems(1) l by (simp add: dropLoop.simps [of env msk cap] split: if_splits)
    from IH [OF this] Suc.prems(2) have "t' = t\<lparr>bounding := bounding t - ?D (cap + 1)\<rparr>" by simp
    moreover have "?D (cap + 1) = ?D cap" using 2 by (auto simp: step)
    ultimately show ?thesis by simp
  next
    case 3
    then have "dropLoop env msk (cap + 1) (t\<lparr>bounding := bounding t - {cap}\<rparr>) = (Inr (), t')"
      using Suc.prems(1) l by (simp add: dropLoop.simps [of env msk cap])
    from IH [OF this] Suc.prems(2) have "t' = t\<lparr>bounding := bounding t - {cap} - ?D (cap + 1)\<rparr>" by simp
    moreover have "{cap} \<union> ?D (cap + 1) = ?D cap" using 3 l by (auto simp: step)
    moreover have "bounding t - {cap} - ?D (cap + 1) = bounding t - ({cap} \<union> ?D (cap + 1))" by blast
    ultimately show ?thesis by simp
  qed
qed

lemma dropLoop_passed:
  assumes "dropLoop env msk cap t = (Inr (), t')"
  shows "cap \<le> c \<Longrightarrow> c \<le> kernelLastCap (lastCapFile env) \<Longrightarrow> \<not> capInMask msk c \<Longrightarrow>
    dropFails env c = Some e \<Longrightarrow> errors_is e EINVAL"
  using assms
proof (induction env msk cap arbitrary: t rule: dropLoop.induct)
  case (1 env msk cap)
  show ?case
  proof (cases "c = cap")
    case True
    with 1 show ?thesis by (auto simp: dropLoop.simps [of env msk cap] split: if_splits)
  next
    case False
    with 1 show ?thesis by (auto simp: dropLoop.simps [of env msk cap] split: if_splits option.splits)
  qed
qed

section \<open>Properties\<close>

text \<open>
  The mask \<open>capMask\<close> builds is exact: \<open>capInMask\<close> finds in it the capabilities that were
  listed, none of the others, and nothing outside the 64 bits, whatever was listed.
\<close>

lemma capMask_exact:
  "capInMask (capMask caps) cap \<longleftrightarrow> 0 \<le> cap \<and> cap < 64 \<and> cap \<in> set caps"
  by (auto simp: capInMask_bit capMask_def capMaskLoop_bit)

text \<open>
  When \<open>restrictCurrentThreadCaps\<close> succeeds the thread holds the capabilities of the mask
  and no others: its effective, permitted and inheritable sets are the mask's, and the ambient
  set is empty unless the kernel has none. The bounding set has lost every capability outside
  the mask, under what \<open>prctl(2)\<close> documents: a thread's bounding set holds capabilities up to the
  kernel's last one, and \<open>EINVAL\<close> is only returned for a capability the kernel does not have.
\<close>

lemma restrictCurrentThreadCaps_drops:
  assumes r: "restrictCurrentThreadCaps env msk t = (Inr (), t')"
    and known: "bounding t \<subseteq> {0..kernelLastCap (lastCapFile env)}"
    and einval: "\<And>cap e. cap \<in> bounding t \<Longrightarrow> dropFails env cap = Some e \<Longrightarrow> \<not> errors_is e EINVAL"
  shows "effective t' = maskCaps msk \<and> permitted t' = maskCaps msk \<and> inheritable t' = maskCaps msk
    \<and> bounding t' = bounding t \<inter> maskCaps msk \<and> (ambientFails env = None \<longrightarrow> ambient t' = {})"
proof -
  obtain t1 where d: "dropLoop env msk 0 t = (Inr (), t1)"
    and t': "t' = t1\<lparr>ambient := ambient t', effective := maskCaps msk, permitted := maskCaps msk,
      inheritable := maskCaps msk\<rparr>"
    and am: "ambientFails env = None \<longrightarrow> ambient t' = {}"
    using r by (auto simp: restrictCurrentThreadCaps_def wordCaps_mask Let_def split: option.splits if_splits
        elim!: andThen_InrE sem_elims)
  have "bounding t1 = bounding t \<inter> maskCaps msk"
  proof -
    have "dropFails env c = None" if "c \<in> bounding t" "\<not> capInMask msk c" for c
      using that known einval [of c] dropLoop_passed [OF d, of c] by (cases "dropFails env c") force+
    with known show ?thesis unfolding dropLoop_ok [OF d order_refl] maskCaps_def by auto
  qed
  with t' am show ?thesis
    by (metis thread_caps.select_convs(1-5) thread_caps.surjective thread_caps.update_convs(1-5))
qed

text \<open>
  At the mask \<open>warp.go\<close> gives warp-svc, \<open>CAP_NET_BIND_SERVICE\<close> (10) and \<open>CAP_NET_ADMIN\<close> (12), on
  a kernel whose last capability is number 15.
\<close>

definition rootCaps :: thread_caps where
  "rootCaps = \<lparr>bounding = {0..15}, ambient = {3}, effective = {0..15}, permitted = {0..15}, inheritable = {}\<rparr>"

definition oldKernel :: caps_env where
  "oldKernel = \<lparr>lastCapFile = Inr (str_bytes ''15''), dropFails = \<lambda>_. None, ambientFails = None, capsetFails = None\<rparr>"

lemma oldKernel_last: "kernelLastCap (lastCapFile oldKernel) = 15"
  by code_simp

lemma maskCaps_bits: "maskCaps msk = {cap. 0 \<le> cap \<and> cap < 64 \<and> bit msk (nat cap)}"
  by (auto simp: maskCaps_def capInMask_bit)

lemma maskCaps_capMask: "maskCaps (capMask caps) = {cap \<in> set caps. 0 \<le> cap \<and> cap < 64}"
  by (auto simp: maskCaps_def capInMask_bit capMask_def capMaskLoop_bit)

lemma dropLoop_returns:
  assumes "\<And>c. dropFails env c = None"
  shows "\<exists>t'. dropLoop env msk cap t = (Inr (), t')"
  using assms
proof (induction env msk cap arbitrary: t rule: dropLoop.induct)
  case (1 env msk cap)
  have "\<exists>t'. dropLoop env msk (cap + 1) s = (Inr (), t')" if "cap \<le> kernelLastCap (lastCapFile env)" for s
  proof (cases "capInMask msk cap")
    case True
    with that 1 show ?thesis by auto
  next
    case False
    with that 1(2) [of undefined] 1 show ?thesis by auto
  qed
  with 1(4) show ?case by (simp add: dropLoop.simps [of env msk cap])
qed

lemma oldKernel_restrict: "\<exists>t'. restrictCurrentThreadCaps oldKernel msk t = (Inr (), t')"
proof -
  obtain t1 where "dropLoop oldKernel msk 0 t = (Inr (), t1)"
    using dropLoop_returns [of oldKernel msk 0 t] by (auto simp: oldKernel_def)
  moreover have "ambientFails oldKernel = None" "capsetFails oldKernel = None" by (simp_all add: oldKernel_def)
  ultimately show ?thesis by (simp add: restrictCurrentThreadCaps_def Let_def)
qed

lemma oldKernel_drops:
  "\<exists>t'. restrictCurrentThreadCaps oldKernel (capMask [12, 10]) rootCaps = (Inr (), t') \<and>
     effective t' = {10, 12} \<and> bounding t' = {10, 12} \<and> ambient t' = {}"
proof -
  obtain t' where r: "restrictCurrentThreadCaps oldKernel (capMask [12, 10]) rootCaps = (Inr (), t')"
    using oldKernel_restrict by blast
  have "maskCaps (capMask [12, 10]) = {10, 12}" by (auto simp: maskCaps_capMask)
  moreover have "bounding rootCaps \<subseteq> {0..kernelLastCap (lastCapFile oldKernel)}"
    unfolding oldKernel_last by (simp add: rootCaps_def)
  moreover have "dropFails oldKernel cap = None" "ambientFails oldKernel = None" for cap
    by (simp_all add: oldKernel_def)
  moreover have "bounding rootCaps \<inter> {10, 12} = {10, 12}" by (auto simp: rootCaps_def)
  ultimately show ?thesis
    using restrictCurrentThreadCaps_drops [OF r] r by simp
qed

end
