(* ===== verification/Kernel.thy ===== *)
theory Kernel
  imports Threads Caps "HOL-Library.Multiset"
begin

text \<open>
  The operating system as the set-up code sees it: the calls it makes (\<open>kcall\<close>: system calls,
  netlink and nftables requests, processes, the objects of third-party packages), which of them
  fail, what the program holds and must release, and the namespaces a thread is in. A run leaves
  the list of the calls that succeeded, each with the namespaces it was made in; what such a list
  means (a mount table, a rule set) is defined where it is needed. Which calls fail, and how, is
  arbitrary: every theorem holds for every sequence of outcomes.
\<close>

section \<open>Calls\<close>

datatype mflag = MS_RDONLY | MS_REMOUNT | MS_BIND | MS_REC | MS_PRIVATE

text \<open>A route by its device, its destination (none: the default route) and its gateway.\<close>

datatype route = Route (rdev: string) (rdst: "string option") (rgw: "string option")

text \<open>The nftables objects \<open>egress.go\<close> uses, as the netlink batch carries them.\<close>

datatype nftfam = FamIPv4 | FamIPv6 | FamINet
datatype nfthook = HookForward | HookPostrouting
datatype nftkind = KindFilter | KindNAT
datatype nftmeta = IIFNAME | OIFNAME
datatype nftexpr = NMeta nftmeta nat | NCmpEq nat bytes | NCmpNeq nat bytes | NDrop | NAccept | NMasq
datatype nftcmd =
    AddTable nftfam string
  | FlushTable nftfam string
  | AddChain nftfam string string nftkind nfthook
  | AddRule nftfam string string "nftexpr list"

text \<open>What a child process is started with.\<close>

record procattr =
  argv :: "string list"
  penv :: "string list"
  pdeathsig :: bool
  setpgid :: bool
  foreground :: bool
  ambientCaps :: "int list"

datatype (plugins only: code) kcall =
    UnshareNet | UnshareMnt | UnshareFs | SetnsMnt nat | SetnsNet nat | OpenNs nat
  | MkdirTemp string | Mkdir string nat | MkdirAll string nat | WriteFile string string nat
  | StatFile string | Lstat string | CreateFile string | Symlink string string
  | Mknod string nat nat nat | Chmod string nat | Chdir string | RemoveFile string
  | Mount string string string "mflag list" string | PivotRoot string string | Umount string
  | OpenFile string | TunSetIff nat bytes uint16 | SetNonblock nat | RandRead nat
  | LinkByName string | LinkDel string | VethAdd string int string | LinkSetNsFd string nat
  | LinkSetUp string | LinkSetMTU string int | NlParseAddr string | AddrAdd string string
  | AddrReplace string string | RouteReplace route | RouteGet string | LinkByIndex nat
  | NftNew | NftFlush "nftcmd list"
  | NewNetTun "string list" "string list" int | IpcSet nat string | DevUp nat
  | FdbasedNew nat int | CreateNIC nat | SetSack nat
  | OpenPipe | StartProc procattr thread_caps | RunProc "string list" "string list" | Sleep int

section \<open>The state\<close>

text \<open>What the program can hold. A pipe end that a log reader owns is \<open>LogEnd\<close>.\<close>

datatype res =
    Fd nat | TempDir string | Anchor nat | WGDevice nat
  | Child nat | LogEnd nat nat

text \<open>
  \<open>outcomes\<close>: the outcomes of the calls to come (none left: success). \<open>curNet\<close>, \<open>curMnt\<close> and \<open>curTid\<close>:
  the namespaces and the identity of the running thread. \<open>nsOf\<close>: the namespace a descriptor is
  for. \<open>capsOf\<close>: the capabilities of the threads. \<open>isDirHost\<close>, \<open>capsHost\<close>, \<open>tmpRoot\<close>: facts about the
  host (which paths are directories, how its capability calls behave, \<open>os.TempDir()\<close>). \<open>tuns\<close>: the
  userspace network stacks (of wireguard-go and of gVisor) that are open.
\<close>

record kern =
  outcomes :: "goerr option list"
  fresh :: nat
  held :: "res multiset"
  tuns :: "nat set"
  curNet :: nat
  curMnt :: nat
  curTid :: nat
  nsOf :: "nat \<Rightarrow> nat"
  capsOf :: "nat \<Rightarrow> thread_caps"
  did :: "(nat \<times> nat \<times> kcall) list"
  isDirHost :: "string \<Rightarrow> bool"
  capsHost :: caps_env
  tmpRoot :: string

section \<open>Sequencing\<close>

text \<open>
  A run returns a result or an error, or panics; a panic is not handled by anything, so no
  clean-up runs after it.
\<close>

type_synonym 'a act = "kern \<Rightarrow> 'a outcome \<times> kern"

definition retK :: "'a \<Rightarrow> 'a act" where "retK x = (\<lambda>s. (Ok x, s))"
definition failK :: "goerr \<Rightarrow> 'a act" where "failK e = (\<lambda>s. (Err e, s))"
definition panicK :: "string \<Rightarrow> 'a act" where "panicK m = (\<lambda>s. (Crashed m, s))"
definition modK :: "(kern \<Rightarrow> kern) \<Rightarrow> unit act" where "modK f = (\<lambda>s. (Ok (), f s))"

definition thenK :: "'a act \<Rightarrow> ('a \<Rightarrow> 'b act) \<Rightarrow> 'b act" where
  "thenK m f = (\<lambda>s. case m s of
     (Returned (Inr x), s') \<Rightarrow> f x s'
   | (Returned (Inl e), s') \<Rightarrow> (Err e, s')
   | (Crashed p, s') \<Rightarrow> (Crashed p, s'))"

text \<open>\<open>if err := m; err != nil { cleanup; return g err }\<close>.\<close>

definition onErrK :: "'a act \<Rightarrow> (kern \<Rightarrow> kern) \<Rightarrow> (goerr \<Rightarrow> goerr) \<Rightarrow> 'a act" where
  "onErrK m h g = (\<lambda>s. case m s of
     (Returned (Inl e), s') \<Rightarrow> (Err (g e), h s')
   | (r, s') \<Rightarrow> (r, s'))"

text \<open>\<open>return fmt.Errorf(f, as..., err)\<close>.\<close>

abbreviation wrapK :: "string \<Rightarrow> garg list \<Rightarrow> 'a act \<Rightarrow> 'a act" where
  "wrapK f as m \<equiv> onErrK m id (Wrapf f as)"

text \<open>A call whose error the code looks at.\<close>

definition tryK :: "'a act \<Rightarrow> (goerr + 'a) act" where
  "tryK m = (\<lambda>s. case m s of (Returned r, s') \<Rightarrow> (Ok r, s') | (Crashed p, s') \<Rightarrow> (Crashed p, s'))"

primrec forK :: "('a \<Rightarrow> unit act) \<Rightarrow> 'a list \<Rightarrow> unit act" where
  "forK f [] = retK ()"
| "forK f (x # xs) = thenK (f x) (\<lambda>_. forK f xs)"

definition liftK :: "goerr + 'a \<Rightarrow> 'a act" where
  "liftK r = (\<lambda>s. (Returned r, s))"

section \<open>Making calls\<close>

definition logCall :: "kcall \<Rightarrow> kern \<Rightarrow> kern" where
  "logCall c s = s\<lparr>did := did s @ [(curNet s, curMnt s, c)]\<rparr>"

definition kdo :: "kcall \<Rightarrow> unit act" where
  "kdo c = (\<lambda>s. case outcomes s of
     [] \<Rightarrow> (Ok (), logCall c s)
   | None # r \<Rightarrow> (Ok (), logCall c (s\<lparr>outcomes := r\<rparr>))
   | Some e # r \<Rightarrow> (Err e, s\<lparr>outcomes := r\<rparr>))"

definition freshId :: "nat act" where
  "freshId = (\<lambda>s. (Ok (fresh s), s\<lparr>fresh := Suc (fresh s)\<rparr>))"

definition hold :: "res \<Rightarrow> kern \<Rightarrow> kern" where
  "hold r s = s\<lparr>held := add_mset r (held s)\<rparr>"

text \<open>
  Closing, killing and removing: the code ignores the error of these calls, and the model lets
  them succeed.
\<close>

definition release :: "res \<Rightarrow> kern \<Rightarrow> kern" where
  "release r s = s\<lparr>held := held s - {#r#}\<rparr>"

text \<open>A call that returns something new to hold.\<close>

definition kopen :: "kcall \<Rightarrow> (nat \<Rightarrow> res) \<Rightarrow> nat act" where
  "kopen c mk = thenK (kdo c) (\<lambda>_. thenK freshId (\<lambda>i. thenK (modK (hold (mk i))) (\<lambda>_. retK i)))"

text \<open>A function run on a thread of its own: the caller stays in its namespaces.\<close>

definition onThread :: "'a act \<Rightarrow> 'a act" where
  "onThread m = (\<lambda>s. case m s of
     (r, s') \<Rightarrow> (r, s'\<lparr>curNet := curNet s, curMnt := curMnt s, curTid := curTid s\<rparr>))"

text \<open>
  A goroutine locked to an operating system thread of its own, which starts with the namespaces
  and the capabilities of the process.
\<close>

definition spawn :: "'a act \<Rightarrow> 'a act" where
  "spawn m = onThread (thenK freshId (\<lambda>t.
     thenK (modK (\<lambda>s. s\<lparr>curTid := t, capsOf := (capsOf s)(t := capsOf s (curTid s))\<rparr>)) (\<lambda>_. m)))"

section \<open>Evaluation\<close>

named_theorems act_simps \<open>evaluation of the sequencing combinators\<close>
named_theorems unch_rules \<open>parts of the state an operation does not change\<close>

lemma retK_apply [simp, act_simps]: "retK x s = (Ok x, s)"
  by (simp add: retK_def)

lemma failK_apply [simp, act_simps]: "failK e s = (Err e, s)"
  by (simp add: failK_def)

lemma panicK_apply [simp, act_simps]: "panicK p s = (Crashed p, s)"
  by (simp add: panicK_def)

lemma modK_apply [simp, act_simps]: "modK f s = (Ok (), f s)"
  by (simp add: modK_def)

lemma liftK_apply [simp, act_simps]: "liftK r s = (Returned r, s)"
  by (simp add: liftK_def)

lemma thenK_simps [simp, act_simps]:
  "m s = (Ok x, s') \<Longrightarrow> thenK m f s = f x s'"
  "m s = (Err e, s') \<Longrightarrow> thenK m f s = (Err e, s')"
  "m s = (Crashed p, s') \<Longrightarrow> thenK m f s = (Crashed p, s')"
  by (simp_all add: thenK_def)

lemma onErrK_simps [simp, act_simps]:
  "m s = (Ok x, s') \<Longrightarrow> onErrK m h g s = (Ok x, s')"
  "m s = (Err e, s') \<Longrightarrow> onErrK m h g s = (Err (g e), h s')"
  "m s = (Crashed p, s') \<Longrightarrow> onErrK m h g s = (Crashed p, s')"
  by (simp_all add: onErrK_def)

lemma outcome_cases:
  obtains (Ok) x where "r = Ok x" | (Err) e where "r = Err e" | (Crashed) p where "r = Crashed p"
proof (cases r)
  case (Returned y)
  then show ?thesis using that by (cases y) auto
qed (use that in auto)

lemma act_cases:
  obtains (Ok) x s' where "m s = (Ok x, s')" | (Err) e s' where "m s = (Err e, s')"
    | (Crashed) p s' where "m s = (Crashed p, s')"
proof (cases "m s")
  case (Pair r s')
  then show ?thesis using that by (cases r rule: outcome_cases) auto
qed

lemma thenK_OkE:
  assumes "thenK m f s = (Ok y, t)"
  obtains x s' where "m s = (Ok x, s')" "f x s' = (Ok y, t)"
  using assms that by (cases m s rule: act_cases) auto

lemma thenK_ErrE:
  assumes "thenK m f s = (Err e, t)"
  obtains "m s = (Err e, t)" | x s' where "m s = (Ok x, s')" "f x s' = (Err e, t)"
  using assms that by (cases m s rule: act_cases) auto

lemma onErrK_OkE:
  assumes "onErrK m h g s = (Ok y, t)"
  obtains "m s = (Ok y, t)"
  using assms that by (cases m s rule: act_cases) auto

lemma onErrK_ErrE:
  assumes "onErrK m h g s = (Err e, t)"
  obtains e' t' where "m s = (Err e', t')" "e = g e'" "t = h t'"
  using assms that by (cases m s rule: act_cases) auto

lemma thenK_retK [simp]: "thenK (retK x) f = f x"
  by (rule ext) simp

lemma thenK_assoc: "thenK (thenK m f) g = thenK m (\<lambda>x. thenK (f x) g)"
proof (rule ext)
  fix s show "thenK (thenK m f) g s = thenK m (\<lambda>x. thenK (f x) g) s"
    by (cases m s rule: act_cases) (simp_all add: thenK_def)
qed

section \<open>What an operation does not change\<close>

definition unch :: "(kern \<Rightarrow> 'v) \<Rightarrow> 'a act \<Rightarrow> bool" where
  "unch f m \<longleftrightarrow> (\<forall>s. f (snd (m s)) = f s)"

lemma unchI: "(\<And>s. f (snd (m s)) = f s) \<Longrightarrow> unch f m"
  by (simp add: unch_def)

lemma unchD: "unch f m \<Longrightarrow> m s = (r, s') \<Longrightarrow> f s' = f s"
  by (metis snd_conv unch_def)

lemma unch_basic [unch_rules]: "unch f (retK x)" "unch f (failK e)" "unch f (panicK p)" "unch f (liftK r)"
  by (simp_all add: unch_def)

lemma unch_modK [unch_rules]: "(\<And>s. f (h s) = f s) \<Longrightarrow> unch f (modK h)"
  by (simp add: unch_def)

lemma unch_thenK [unch_rules]:
  assumes "unch f m" "\<And>x. unch f (k x)"
  shows "unch f (thenK m k)"
proof (rule unchI)
  fix s
  have "f (snd (k x s')) = f s'" for x s' using assms(2) by (simp add: unch_def)
  with unchD [OF assms(1), of s] show "f (snd (thenK m k s)) = f s"
    by (cases m s rule: act_cases) simp_all
qed

lemma unch_onErrK [unch_rules]:
  assumes "unch f m" "\<And>s. f (h s) = f s"
  shows "unch f (onErrK m h g)"
proof (rule unchI)
  fix s show "f (snd (onErrK m h g s)) = f s"
    using assms by (cases m s rule: act_cases) (auto dest: unchD)
qed

lemma unch_tryK [unch_rules]: "unch f m \<Longrightarrow> unch f (tryK m)"
  by (auto simp: unch_def tryK_def split: prod.split outcome.split) (metis snd_conv)+

lemma unch_forK [unch_rules]: "(\<And>x. unch f (k x)) \<Longrightarrow> unch f (forK k xs)"
  by (induction xs) (auto intro: unch_rules)

lemma unch_if [unch_rules]: "unch f m \<Longrightarrow> unch f k \<Longrightarrow> unch f (if b then m else k)"
  by simp

lemma unch_sum [unch_rules]:
  "(\<And>e. unch f (m e)) \<Longrightarrow> (\<And>x. unch f (k x)) \<Longrightarrow> unch f (case r of Inl e \<Rightarrow> m e | Inr x \<Rightarrow> k x)"
  by (simp split: sum.split)

lemma unch_option [unch_rules]:
  "unch f m \<Longrightarrow> (\<And>x. unch f (k x)) \<Longrightarrow> unch f (case r of None \<Rightarrow> m | Some x \<Rightarrow> k x)"
  by (simp split: option.split)

lemma unch_if_state [unch_rules]: "unch f m \<Longrightarrow> unch f k \<Longrightarrow> unch f (\<lambda>s. (if b s then m else k) s)"
  by (simp add: unch_def)

lemma unch_prod [unch_rules]: "(\<And>x y. unch f (k x y)) \<Longrightarrow> unch f (case p of (x, y) \<Rightarrow> k x y)"
  by (simp split: prod.split)

lemma unch_kdo:
  assumes "\<And>s r. f (s\<lparr>outcomes := r\<rparr>) = f s" "\<And>s r. f (s\<lparr>did := r\<rparr>) = f s"
  shows "unch f (kdo c)"
  by (rule unchI) (auto simp: kdo_def logCall_def assms split: list.split option.split)

text \<open>Where the thread is, and what is held.\<close>

definition place :: "kern \<Rightarrow> nat \<times> nat \<times> nat" where
  "place s = (curNet s, curMnt s, curTid s)"

lemma unch_kdo_simps [unch_rules]:
  "unch held (kdo c)" "unch place (kdo c)" "unch tuns (kdo c)" "unch capsOf (kdo c)" "unch nsOf (kdo c)"
  by (rule unch_kdo; simp add: place_def)+

lemma unch_freshId [unch_rules]: "unch held freshId" "unch place freshId" "unch tuns freshId" "unch did freshId"
    "unch capsOf freshId" "unch nsOf freshId"
  by (simp_all add: unch_def freshId_def place_def)

lemma unch_onThread [unch_rules]:
  "unch held m \<Longrightarrow> unch held (onThread m)" "unch tuns m \<Longrightarrow> unch tuns (onThread m)" "unch place (onThread m)"
  by (auto simp: unch_def onThread_def place_def split: prod.split) (metis snd_conv)+

lemma release_simps [simp]: "place (release r s) = place s" "tuns (release r s) = tuns s" "did (release r s) = did s"
    "held (release r s) = held s - {#r#}" "nsOf (release r s) = nsOf s"
  by (simp_all add: release_def place_def)

lemma hold_simps [simp]: "place (hold r s) = place s" "tuns (hold r s) = tuns s" "did (hold r s) = did s"
    "held (hold r s) = add_mset r (held s)" "nsOf (hold r s) = nsOf s"
  by (simp_all add: hold_def place_def)

section \<open>What an operation holds\<close>

text \<open>
  \<open>owns A m B\<close>: started while holding \<open>A\<close>, \<open>m\<close> returns holding \<open>B\<close> of its result instead, and when it
  fails it has released \<open>A\<close> and everything it took on the way. \<open>frees h A\<close>: the clean-up \<open>h\<close> releases
  exactly \<open>A\<close>.
\<close>

definition owns :: "res multiset \<Rightarrow> 'a act \<Rightarrow> ('a \<Rightarrow> res multiset) \<Rightarrow> bool" where
  "owns A m B \<longleftrightarrow> (\<forall>s. A \<subseteq># held s \<longrightarrow>
     (case m s of
        (Returned (Inr x), s') \<Rightarrow> held s' = B x + (held s - A)
      | (Returned (Inl e), s') \<Rightarrow> held s' = held s - A
      | (Crashed p, s') \<Rightarrow> True))"

definition frees :: "(kern \<Rightarrow> kern) \<Rightarrow> res multiset \<Rightarrow> bool" where
  "frees h A \<longleftrightarrow> (\<forall>s. A \<subseteq># held s \<longrightarrow> held (h s) = held s - A)"

named_theorems owns_rules \<open>composition of operations that hold resources\<close>

lemma owns_Ok: "owns A m B \<Longrightarrow> m s = (Ok x, s') \<Longrightarrow> A \<subseteq># held s \<Longrightarrow> held s' = B x + (held s - A)"
  by (auto simp: owns_def)

lemma owns_Err: "owns A m B \<Longrightarrow> m s = (Err e, s') \<Longrightarrow> A \<subseteq># held s \<Longrightarrow> held s' = held s - A"
  by (auto simp: owns_def)

lemma ownsI:
  assumes "\<And>s x s'. m s = (Ok x, s') \<Longrightarrow> A \<subseteq># held s \<Longrightarrow> held s' = B x + (held s - A)"
    and "\<And>s e s'. m s = (Err e, s') \<Longrightarrow> A \<subseteq># held s \<Longrightarrow> held s' = held s - A"
  shows "owns A m B"
  unfolding owns_def using assms by (auto split: prod.split outcome.split sum.split)

lemma frees_id [owns_rules]: "frees id {#}" "frees (\<lambda>s. s) {#}"
  by (simp_all add: frees_def)

lemma frees_release [owns_rules]: "frees (release r) {#r#}"
  by (simp add: frees_def)

lemma frees_comp:
  assumes "frees h A" "frees k B"
  shows "frees (k \<circ> h) (A + B)"
proof -
  have "held (k (h s)) = held s - (A + B)" if s: "A + B \<subseteq># held s" for s
  proof -
    have "A \<subseteq># held s" using s mset_subset_eq_add_left subset_mset.order_trans by blast
    then have h: "held (h s) = held s - A" using assms(1) by (simp add: frees_def)
    have "B \<subseteq># held s - A"
      using s \<open>A \<subseteq># held s\<close> by (simp add: subset_mset.le_diff_conv2 union_commute)
    then show ?thesis using assms(2) h by (simp add: frees_def)
  qed
  then show ?thesis by (simp add: frees_def)
qed

lemma owns_thenK [owns_rules]:
  assumes "owns A m B" "\<And>x s s'. m s = (Ok x, s') \<Longrightarrow> owns (B x) (f x) C"
  shows "owns A (thenK m f) C"
proof (rule ownsI)
  fix s y t assume "thenK m f s = (Ok y, t)" and A: "A \<subseteq># held s"
  then obtain x s' where 1: "m s = (Ok x, s')" "f x s' = (Ok y, t)" by (blast elim: thenK_OkE)
  have "held s' = B x + (held s - A)" using owns_Ok [OF assms(1) 1(1) A] .
  with owns_Ok [OF assms(2) [OF 1(1)] 1(2)] show "held t = C y + (held s - A)" by simp
next
  fix s e t assume "thenK m f s = (Err e, t)" and A: "A \<subseteq># held s"
  then consider "m s = (Err e, t)" | x s' where "m s = (Ok x, s')" "f x s' = (Err e, t)" by (blast elim: thenK_ErrE)
  then show "held t = held s - A"
  proof cases
    case 1
    then show ?thesis using owns_Err [OF assms(1) _ A] by blast
  next
    case 2
    have "held s' = B x + (held s - A)" using owns_Ok [OF assms(1) 2(1) A] .
    with owns_Err [OF assms(2) [OF 2(1)] 2(2)] show ?thesis by simp
  qed
qed

lemma frees_comp_eq: "frees h A \<Longrightarrow> frees k B \<Longrightarrow> C = A + B \<Longrightarrow> frees (k \<circ> h) C"
  using frees_comp by blast

lemma owns_state:
  assumes "\<And>r. owns A (m r) B"
  shows "owns A (\<lambda>s. m (g s) s) B"
  using assms by (fastforce simp: owns_def)

lemma owns_prod:
  assumes "\<And>x y. p = (x, y) \<Longrightarrow> owns (B x y) (f x y) C"
  shows "owns (case p of (x, y) \<Rightarrow> B x y) (case p of (x, y) \<Rightarrow> f x y) C"
  using assms by (cases p) simp

lemma owns_retK [owns_rules]: "A = B x \<Longrightarrow> owns A (retK x) B"
  by (rule ownsI) auto

lemma owns_failK: "owns {#} (failK e) B"
  by (rule ownsI) auto

lemma owns_panicK: "owns A (panicK p) B"
  by (rule ownsI) auto

text \<open>An operation that may fail, with a clean-up that gives up what is held.\<close>

lemma owns_onErrK [owns_rules]:
  assumes "owns {#} m B" "frees h A" "\<And>x. C x = B x + A"
  shows "owns A (onErrK m h g) C"
proof (rule ownsI)
  fix s y t assume "onErrK m h g s = (Ok y, t)" and A: "A \<subseteq># held s"
  then have "m s = (Ok y, t)" by (blast elim: onErrK_OkE)
  with owns_Ok [OF assms(1)] have "held t = B y + held s" by fastforce
  then show "held t = C y + (held s - A)" using A assms(3) by (simp add: union_assoc)
next
  fix s e t assume "onErrK m h g s = (Err e, t)" and A: "A \<subseteq># held s"
  then obtain e' t' where "m s = (Err e', t')" "t = h t'" by (blast elim: onErrK_ErrE)
  with owns_Err [OF assms(1)] have "held t' = held s" "t = h t'" by fastforce+
  then show "held t = held s - A" using assms(2) A by (simp add: frees_def)
qed

text \<open>An operation that keeps what is held on success, and on error too.\<close>

lemma owns_quiet [owns_rules]: "unch held m \<Longrightarrow> owns {#} m (\<lambda>_. {#})"
  by (rule ownsI) (auto dest: unchD)

lemma owns_kopen [owns_rules]: "owns {#} (kopen c mk) (\<lambda>i. {#mk i#})"
  unfolding kopen_def
proof (intro owns_thenK)
  show "owns {#} (kdo c) (\<lambda>_. {#})" "owns {#} freshId (\<lambda>_. {#})" by (intro owns_quiet unch_rules)+
  show "owns {#} (modK (hold (mk i))) (\<lambda>_. {#mk i#})" for i by (rule ownsI) auto
  show "owns {#mk i#} (retK i) (\<lambda>i. {#mk i#})" for i by (rule owns_retK) simp
qed

lemma owns_onThread [owns_rules]: "owns A m B \<Longrightarrow> owns A (onThread m) B"
proof (rule ownsI)
  assume o: "owns A m B"
  fix s x s' assume "onThread m s = (Ok x, s')" and A: "A \<subseteq># held s"
  then obtain t where "m s = (Ok x, t)" "held s' = held t" by (auto simp: onThread_def split: prod.splits)
  with owns_Ok [OF o _ A] show "held s' = B x + (held s - A)" by simp
next
  assume o: "owns A m B"
  fix s e s' assume "onThread m s = (Err e, s')" and A: "A \<subseteq># held s"
  then obtain t where "m s = (Err e, t)" "held s' = held t" by (auto simp: onThread_def split: prod.splits)
  with owns_Err [OF o _ A] show "held s' = held s - A" by simp
qed

text \<open>
  The contract of a part of the program that is started and stopped: a failed start holds
  nothing, a successful one holds what its result says, and stopping it gives all of that back.
\<close>

locale managed =
  fixes start :: "'a act" and stop :: "'a \<Rightarrow> kern \<Rightarrow> kern" and uses :: "'a \<Rightarrow> res multiset"
  assumes start_owns: "owns {#} start uses"
    and stop_frees: "frees (stop x) (uses x)"
begin

lemma start_in: "frees h A \<Longrightarrow> owns A (onErrK start h g) (\<lambda>x. uses x + A)"
  by (rule owns_onErrK [OF start_owns]) simp_all

lemma stop_also: "frees h A \<Longrightarrow> frees (h \<circ> stop x) (uses x + A)"
  by (rule frees_comp [OF stop_frees])

lemma start_stop: "start s = (Ok x, s') \<Longrightarrow> held (stop x s') = held s"
  using owns_Ok [OF start_owns, of s x s'] stop_frees [of x] by (simp add: frees_def)

end

section \<open>The calls an operation makes\<close>

text \<open>
  \<open>emits m P\<close>: when \<open>m\<close> returns a result, the calls it made, in the namespaces it was called in and
  in order, satisfy \<open>P\<close>.
\<close>

definition at :: "kern \<Rightarrow> kcall list \<Rightarrow> (nat \<times> nat \<times> kcall) list" where
  "at s cs = map (\<lambda>c. (curNet s, curMnt s, c)) cs"

definition emits :: "'a act \<Rightarrow> ('a \<Rightarrow> kcall list \<Rightarrow> bool) \<Rightarrow> bool" where
  "emits m P \<longleftrightarrow> (\<forall>s x s'. m s = (Ok x, s') \<longrightarrow> place s' = place s \<and> (\<exists>cs. P x cs \<and> did s' = did s @ at s cs))"

abbreviation makes :: "'a act \<Rightarrow> kcall list \<Rightarrow> bool" where
  "makes m cs \<equiv> emits m (\<lambda>_ cs'. cs' = cs)"

lemma at_append [simp]: "at s (a @ b) = at s a @ at s b" "at s [] = []"
  by (simp_all add: at_def)

lemma at_place: "place s' = place s \<Longrightarrow> at s' cs = at s cs"
  by (simp add: at_def place_def)

lemma emitsD:
  assumes "emits m P" "m s = (Ok x, s')"
  obtains cs where "P x cs" "did s' = did s @ at s cs" "place s' = place s"
  using assms unfolding emits_def by blast

lemma emitsI:
  assumes "\<And>s x s'. m s = (Ok x, s') \<Longrightarrow> place s' = place s \<and> (\<exists>cs. P x cs \<and> did s' = did s @ at s cs)"
  shows "emits m P"
  using assms by (simp add: emits_def)

lemma emits_mono: "emits m P \<Longrightarrow> (\<And>x cs. P x cs \<Longrightarrow> Q x cs) \<Longrightarrow> emits m Q"
  by (fastforce simp: emits_def)

lemma emits_thenK:
  assumes "emits m P" "\<And>x. emits (f x) (Q x)"
  shows "emits (thenK m f) (\<lambda>y cs. \<exists>x a b. P x a \<and> Q x y b \<and> cs = a @ b)"
proof (rule emitsI)
  fix s y t assume "thenK m f s = (Ok y, t)"
  then obtain x s' where 1: "m s = (Ok x, s')" "f x s' = (Ok y, t)" by (blast elim: thenK_OkE)
  obtain a where a: "P x a" "did s' = did s @ at s a" "place s' = place s" using emitsD [OF assms(1) 1(1)] .
  obtain b where b: "Q x y b" "did t = did s' @ at s' b" "place t = place s'" using emitsD [OF assms(2) 1(2)] .
  have "did t = did s @ at s (a @ b)" using a b at_place [OF a(3)] by simp
  with a b show "place t = place s \<and> (\<exists>cs. (\<exists>x a b. P x a \<and> Q x y b \<and> cs = a @ b) \<and> did t = did s @ at s cs)"
    by metis
qed

lemma makes_thenK:
  assumes "makes m a" "\<And>x. emits (f x) (\<lambda>y cs. Q y (a @ cs))"
  shows "emits (thenK m f) Q"
  by (rule emits_mono [OF emits_thenK [OF assms]]) auto

lemma emits_kdo: "makes (kdo c) [c]"
  by (rule emitsI) (auto simp: kdo_def logCall_def at_def place_def split: list.splits option.splits)

lemma emits_retK: "P x [] \<Longrightarrow> emits (retK x) P"
  by (rule emitsI) (auto simp: at_def)

lemma emits_never: "emits (failK e) P" "emits (panicK p) P"
  by (simp_all add: emits_def)

lemma emits_liftK: "(\<And>x. r = Inr x \<Longrightarrow> P x []) \<Longrightarrow> emits (liftK r) P"
  by (rule emitsI) (auto simp: at_def)

lemma emits_onErrK: "emits m P \<Longrightarrow> emits (onErrK m h g) P"
  by (auto simp: emits_def elim!: onErrK_OkE)

lemma emits_if: "(b \<Longrightarrow> emits m P) \<Longrightarrow> (\<not> b \<Longrightarrow> emits k P) \<Longrightarrow> emits (if b then m else k) P"
  by simp

lemma makes_step:
  assumes "emits (f ()) (\<lambda>y cs. Q y (c # cs))"
  shows "emits (thenK (onErrK (kdo c) h g) f) Q" "emits (thenK (kdo c) f) Q"
  using assms by (auto intro!: makes_thenK [where a = "[c]"] emits_onErrK emits_kdo)

lemma makes_forK:
  assumes "\<And>x. makes (f x) (cs x)"
  shows "makes (forK f xs) (concat (map cs xs))"
proof (induction xs)
  case (Cons x xs)
  show ?case using Cons assms by (auto intro: makes_thenK [where a = "cs x"])
qed (simp add: emits_retK del: retK_apply)

section \<open>Threads\<close>

lemma unch_spawn [unch_rules]:
  "unch held m \<Longrightarrow> unch held (spawn m)" "unch tuns m \<Longrightarrow> unch tuns (spawn m)" "unch place (spawn m)"
  unfolding spawn_def by (intro unch_rules; simp)+

lemma owns_spawn [owns_rules]:
  assumes "owns A m B"
  shows "owns A (spawn m) B"
  unfolding spawn_def
proof (intro owns_onThread owns_thenK)
  show "owns A freshId (\<lambda>_. A)" by (rule ownsI) (auto simp: freshId_def)
  show "owns A (modK (\<lambda>s. s\<lparr>curTid := t, capsOf := (capsOf s)(t := capsOf s (curTid s))\<rparr>)) (\<lambda>_. A)" for t
    by (rule ownsI) auto
  show "owns A m B" by (rule assms)
qed

section \<open>Operations that cannot panic\<close>

definition safe :: "'a act \<Rightarrow> bool" where
  "safe m \<longleftrightarrow> (\<forall>s p s'. m s \<noteq> (Crashed p, s'))"

named_theorems safe_rules \<open>operations that cannot panic\<close>

lemma safe_basic [safe_rules]: "safe (retK x)" "safe (failK e)" "safe (modK f)" "safe (liftK r)" "safe freshId"
  by (simp_all add: safe_def freshId_def)

lemma safe_kdo [safe_rules]: "safe (kdo c)"
  by (auto simp: safe_def kdo_def split: list.split option.split)

lemma safe_thenK [safe_rules]: "safe m \<Longrightarrow> (\<And>x. safe (f x)) \<Longrightarrow> safe (thenK m f)"
  unfolding safe_def
proof (intro allI notI)
  fix s p s' assume "\<forall>s p s'. m s \<noteq> (Crashed p, s')" "\<And>x. \<forall>s p s'. f x s \<noteq> (Crashed p, s')" "thenK m f s = (Crashed p, s')"
  then show False by (cases m s rule: act_cases) auto
qed

lemma safe_onErrK [safe_rules]: "safe m \<Longrightarrow> safe (onErrK m h g)"
  unfolding safe_def
proof (intro allI notI)
  fix s p s' assume "\<forall>s p s'. m s \<noteq> (Crashed p, s')" "onErrK m h g s = (Crashed p, s')"
  then show False by (cases m s rule: act_cases) auto
qed

lemma safe_tryK [safe_rules]: "safe m \<Longrightarrow> safe (tryK m)"
  by (auto simp: safe_def tryK_def split: prod.splits outcome.splits)

lemma safe_forK [safe_rules]: "(\<And>x. safe (f x)) \<Longrightarrow> safe (forK f xs)"
  by (induction xs) (auto intro: safe_rules simp del: retK_apply)

lemma safe_onThread [safe_rules]: "safe m \<Longrightarrow> safe (onThread m)"
  by (auto simp: safe_def onThread_def split: prod.splits)

lemma safe_spawn [safe_rules]: "safe m \<Longrightarrow> safe (spawn m)"
  unfolding spawn_def by (intro safe_rules)

lemma safe_kopen [safe_rules]: "safe (kopen c mk)"
  unfolding kopen_def by (intro safe_rules)

lemma safe_cases [safe_rules]:
  "safe m \<Longrightarrow> safe k \<Longrightarrow> safe (if b then m else k)"
  "(\<And>e. safe (f e)) \<Longrightarrow> (\<And>x. safe (g x)) \<Longrightarrow> safe (case r of Inl e \<Rightarrow> f e | Inr x \<Rightarrow> g x)"
  "safe m \<Longrightarrow> (\<And>x. safe (g x)) \<Longrightarrow> safe (case q of None \<Rightarrow> m | Some x \<Rightarrow> g x)"
  "(\<And>x y. safe (h x y)) \<Longrightarrow> safe (case p of (x, y) \<Rightarrow> h x y)"
  by (simp_all split: sum.split option.split prod.split)

lemma safe_if_state [safe_rules]: "safe m \<Longrightarrow> safe k \<Longrightarrow> safe (\<lambda>s. (if b s then m else k) s)"
  by (simp add: safe_def)

lemma safe_state: "(\<And>r. safe (m r)) \<Longrightarrow> safe (\<lambda>s. m (g s) s)"
  by (simp add: safe_def)

section \<open>Operations that succeed when every call does\<close>

definition runs :: "'a act \<Rightarrow> bool" where
  "runs m \<longleftrightarrow> (\<forall>s. outcomes s = [] \<longrightarrow> (\<exists>x s'. m s = (Ok x, s') \<and> outcomes s' = []))"

named_theorems runs_rules \<open>operations that succeed when every call does\<close>

lemma runsE:
  assumes "runs m" "outcomes s = []"
  obtains x s' where "m s = (Ok x, s')" "outcomes s' = []"
  using assms by (auto simp: runs_def)

lemma runs_basic [runs_rules]: "runs (retK x)" "runs (kdo c)" "runs freshId"
  by (simp_all add: runs_def kdo_def logCall_def freshId_def)

lemma runs_modK [runs_rules]: "(\<And>s. outcomes (f s) = outcomes s) \<Longrightarrow> runs (modK f)"
  by (simp add: runs_def)

lemma runs_thenK [runs_rules]: "runs m \<Longrightarrow> (\<And>x. runs (f x)) \<Longrightarrow> runs (thenK m f)"
  unfolding runs_def by (metis thenK_simps(1))

lemma runs_onErrK [runs_rules]: "runs m \<Longrightarrow> runs (onErrK m h g)"
  unfolding runs_def by (metis onErrK_simps(1))

lemma runs_tryK [runs_rules]: "runs m \<Longrightarrow> runs (tryK m)"
  by (fastforce simp: runs_def tryK_def)

lemma runs_forK [runs_rules]: "(\<And>x. runs (f x)) \<Longrightarrow> runs (forK f xs)"
  by (induction xs) (auto intro: runs_rules simp del: retK_apply)

lemma runs_onThread [runs_rules]: "runs m \<Longrightarrow> runs (onThread m)"
  by (fastforce simp: runs_def onThread_def)

lemma runs_spawn [runs_rules]: "runs m \<Longrightarrow> runs (spawn m)"
  unfolding spawn_def by (intro runs_rules) simp_all

lemma runs_kopen [runs_rules]: "runs (kopen c mk)"
  unfolding kopen_def by (intro runs_rules) (simp add: hold_def)

lemma runs_cases [runs_rules]:
  "runs m \<Longrightarrow> runs k \<Longrightarrow> runs (if b then m else k)"
  "(\<And>e. runs (f e)) \<Longrightarrow> (\<And>x. runs (g x)) \<Longrightarrow> runs (case r of Inl e \<Rightarrow> f e | Inr x \<Rightarrow> g x)"
  "(\<And>x y. runs (h x y)) \<Longrightarrow> runs (case p of (x, y) \<Rightarrow> h x y)"
  by (simp_all split: sum.split prod.split)

lemma runs_state: "(\<And>r. runs (m r)) \<Longrightarrow> runs (\<lambda>s. m (g s) s)"
  by (simp add: runs_def)

text \<open>A call whose error is looked at: only its success matters.\<close>

lemma runs_then_tryK: "runs m \<Longrightarrow> (\<And>x. runs (f (Inr x))) \<Longrightarrow> runs (thenK (tryK m) f)"
  unfolding runs_def by (fastforce simp: tryK_def)

end
