(* ===== verification/Bind.thy ===== *)
theory Bind
  imports Threads
begin

text \<open>
  The interface \<open>conn.Bind\<close> of wireguard-go as \<open>TCPBind\<close> and \<open>Socks5Bind\<close> implement it: what
  the WireGuard device relies on when it opens, closes and reopens a bind
  (\<open>Device.BindUpdate\<close>) while it sends and receives. The lemmas of the device's side are
  proved once here and hold for both binds through their interpretations.
\<close>

text \<open>The calls the device makes.\<close>

datatype bind_call = COpen | CClose | CSend "bytes list" | CRecv nat

definition runCall ::
    "('s, unit) prog \<Rightarrow> ('s, unit) prog \<Rightarrow> (bytes list \<Rightarrow> ('s, unit) prog) \<Rightarrow> (nat \<Rightarrow> ('s, 'r) prog) \<Rightarrow>
     bind_call \<Rightarrow> 's \<Rightarrow> 's" where
  "runCall openP closeP sendP recvP c s = (case c of
       COpen \<Rightarrow> snd (runP openP s)
     | CClose \<Rightarrow> snd (runP closeP s)
     | CSend bufs \<Rightarrow> snd (runP (sendP bufs) s)
     | CRecv n \<Rightarrow> snd (runP (recvP n) s))"

locale wg_bind =
  fixes openB :: "('s, unit) prog"
    and closeB :: "('s, unit) prog"
    and sendB :: "bytes list \<Rightarrow> ('s, unit) prog"
    and recvB :: "nat \<Rightarrow> ('s, 'r) prog"
    and up :: "'s \<Rightarrow> bool"
    and inv :: "'s \<Rightarrow> bool"
  assumes open_twice: "inv s \<Longrightarrow> up s \<Longrightarrow> runP openB s = (Err ErrBindAlreadyOpen, s)"
    and open_up: "inv s \<Longrightarrow> \<not> up s \<Longrightarrow> runP openB s = (r, s') \<Longrightarrow> inv s' \<and> (up s' \<longleftrightarrow> r = Ok ())"
    and close_down: "inv s \<Longrightarrow> runP closeB s = (r, s') \<Longrightarrow> r = Ok () \<and> inv s' \<and> \<not> up s'"
    and close_again: "inv s \<Longrightarrow> \<not> up s \<Longrightarrow> runP closeB s = (Ok (), s)"
    and send_keeps: "inv s \<Longrightarrow> runP (sendB bufs) s = (r, s') \<Longrightarrow> inv s' \<and> up s' = up s"
    and recv_keeps: "inv s \<Longrightarrow> runP (recvB n) s = (r', s') \<Longrightarrow> inv s' \<and> up s' = up s"
    and send_down: "inv s \<Longrightarrow> \<not> up s \<Longrightarrow> runP (sendB bufs) s = (r, s') \<Longrightarrow>
        s' = s \<and> (bufs \<noteq> [] \<and> length (hd bufs) \<le> 65535 \<longrightarrow> r = Err ErrClosed)"
    and recv_down: "inv s \<Longrightarrow> \<not> up s \<Longrightarrow> runP (recvB n) s = (Err ErrClosed, s)"
begin

abbreviation call :: "bind_call \<Rightarrow> 's \<Rightarrow> 's" where
  "call \<equiv> runCall openB closeB sendB recvB"

lemma call_inv: "inv s \<Longrightarrow> inv (call c s)"
proof (cases c)
  case COpen
  assume "inv s"
  with COpen show ?thesis
    using open_twice [of s] open_up [OF \<open>inv s\<close> _ prod.collapse [symmetric]]
    by (cases "up s") (simp_all add: runCall_def)
next
  case CClose
  assume "inv s"
  with CClose show ?thesis
    using close_down [OF _ prod.collapse [symmetric]] by (simp add: runCall_def)
next
  case (CSend bufs)
  assume "inv s"
  with CSend show ?thesis
    using send_keeps [OF _ prod.collapse [symmetric]] by (simp add: runCall_def)
next
  case (CRecv n)
  assume "inv s"
  with CRecv show ?thesis
    using recv_keeps [OF _ prod.collapse [symmetric]] by (simp add: runCall_def)
qed

lemma calls_inv: "inv s \<Longrightarrow> inv (fold call cs s)"
  by (induction cs arbitrary: s) (auto simp: call_inv)

text \<open>A bind that is down stays as it is, whatever is called, until it is opened again.\<close>

lemma down_call: "inv s \<Longrightarrow> \<not> up s \<Longrightarrow> c \<noteq> COpen \<Longrightarrow> call c s = s"
  using close_again [of s] recv_down [of s] send_down [OF _ _ prod.collapse [symmetric]]
  by (cases c) (simp_all add: runCall_def)

lemma down_stays: "inv s \<Longrightarrow> \<not> up s \<Longrightarrow> COpen \<notin> set cs \<Longrightarrow> fold call cs s = s"
  by (induction cs) (auto simp: down_call)

text \<open>
  \<open>BindUpdate\<close>: close, then whatever other routines still call, then open. The open is not
  refused as a second one, and what was called in between has left no trace.
\<close>

lemma reopen:
  assumes "inv s" "COpen \<notin> set cs" "runP openB (fold call (CClose # cs) s) = (r, s')"
  shows "runP openB (call CClose s) = (r, s')" "r \<noteq> Err ErrBindAlreadyOpen \<or> \<not> up s'" "inv s'"
    "up s' \<longleftrightarrow> r = Ok ()"
proof -
  obtain x t where c: "runP closeB s = (x, t)" by fastforce
  then have t: "call CClose s = t" "inv t" "\<not> up t" using close_down [OF assms(1)] by (auto simp: runCall_def)
  then have "fold call (CClose # cs) s = t" using down_stays [OF t(2,3) assms(2)] by simp
  with assms(3) t have o: "runP openB t = (r, s')" by simp
  then show "runP openB (call CClose s) = (r, s')" using t by simp
  from open_up [OF t(2,3) o] show "inv s'" "up s' \<longleftrightarrow> r = Ok ()"
    "r \<noteq> Err ErrBindAlreadyOpen \<or> \<not> up s'" by auto
qed

end

end
