(* ===== verification/GoNet.thy ===== *)
theory GoNet
  imports GoText
begin

text \<open>
  The parts of Go's packages \<open>net\<close> and \<open>net/netip\<close> the program calls:
  \<open>SplitHostPort\<close> and \<open>JoinHostPort\<close>, IP addresses as \<open>net.IP\<close> (4 or 16 bytes) and as
  \<open>netip.Addr\<close>, their text form (\<open>String\<close>, with the longest run of zero groups
  compressed) and the parsers \<open>netip.ParseAddr\<close>, \<open>net.ParseIP\<close> and \<open>netip.ParsePrefix\<close>.
  The main lemmas: a host and a port survive joining and splitting, and an address
  survives printing and parsing.
\<close>

section \<open>Host and port\<close>

definition has_byte :: "char \<Rightarrow> string \<Rightarrow> bool" where
  "has_byte c s \<longleftrightarrow> c \<in> set s"

text \<open>\<open>bytealg.IndexByteString\<close> and \<open>LastIndexByteString\<close>.\<close>

definition index_byte :: "char \<Rightarrow> string \<Rightarrow> nat option" where
  "index_byte c s = (if has_byte c s then Some (length (takeWhile (\<lambda>x. x \<noteq> c) s)) else None)"

definition last_index_byte :: "char \<Rightarrow> string \<Rightarrow> nat option" where
  "last_index_byte c s =
     map_option (\<lambda>k. length s - 1 - k) (index_byte c (rev s))"

definition splitHostPort :: "string \<Rightarrow> goerr + (string \<times> string)" where
  "splitHostPort hostport =
     (case last_index_byte CHR '':'' hostport of
        None \<Rightarrow> Inl (AddrErr ''missing port in address'' hostport)
      | Some i \<Rightarrow>
          let finish = (\<lambda>host j k.
                if has_byte CHR ''['' (drop j hostport)
                then Inl (AddrErr ''unexpected '[' in address'' hostport)
                else if has_byte CHR '']'' (drop k hostport)
                then Inl (AddrErr ''unexpected ']' in address'' hostport)
                else Inr (host, drop (Suc i) hostport))
          in if hd hostport = CHR ''['' then
               (case index_byte CHR '']'' hostport of
                  None \<Rightarrow> Inl (AddrErr ''missing ']' in address'' hostport)
                | Some e \<Rightarrow>
                    if Suc e = length hostport
                    then Inl (AddrErr ''missing port in address'' hostport)
                    else if Suc e = i then finish (take (e - 1) (tl hostport)) 1 (Suc e)
                    else if hostport ! Suc e = CHR '':''
                    then Inl (AddrErr ''too many colons in address'' hostport)
                    else Inl (AddrErr ''missing port in address'' hostport))
             else if has_byte CHR '':'' (take i hostport)
             then Inl (AddrErr ''too many colons in address'' hostport)
             else finish (take i hostport) 0 0)"

definition joinHostPort :: "string \<Rightarrow> string \<Rightarrow> string" where
  "joinHostPort host port =
     (if has_byte CHR '':'' host then ''['' @ host @ '']:'' @ port else host @ '':'' @ port)"

section \<open>Addresses\<close>

text \<open>A \<open>net.IP\<close> is a byte slice, of length 4 or 16, or nil.\<close>

type_synonym ip = bytes

text \<open>
  \<open>netip.Addr\<close>: the zero value, an IPv4 address, or an IPv6 address with its zone (empty
  for none).
\<close>

datatype addr = NoAddr | A4 bytes | A6 bytes string

type_synonym addrport = "addr \<times> uint16"

definition v4mapped :: "bytes \<Rightarrow> bytes" where
  "v4mapped b = replicate 10 0 @ [0xFF, 0xFF] @ b"

definition is4in6 :: "bytes \<Rightarrow> bool" where
  "is4in6 b \<longleftrightarrow> length b = 16 \<and> take 12 b = replicate 10 0 @ [0xFF, 0xFF]"

definition ip_to4 :: "ip \<Rightarrow> bytes option" where
  "ip_to4 b = (if length b = 4 then Some b else if is4in6 b then Some (drop 12 b) else None)"

definition ip_to16 :: "ip \<Rightarrow> bytes" where
  "ip_to16 b = (if length b = 4 then v4mapped b else if length b = 16 then b else [])"

fun addr_as16 :: "addr \<Rightarrow> bytes" where
  "addr_as16 (A4 b) = v4mapped b"
| "addr_as16 (A6 b z) = b"
| "addr_as16 NoAddr = replicate 16 0"

fun addr_is4 :: "addr \<Rightarrow> bool" where
  "addr_is4 (A4 b) = True"
| "addr_is4 a = False"

fun addr_zone :: "addr \<Rightarrow> string" where
  "addr_zone (A6 b z) = z"
| "addr_zone a = []"

fun addr_valid :: "addr \<Rightarrow> bool" where
  "addr_valid NoAddr = False"
| "addr_valid a = True"

fun wf_addr :: "addr \<Rightarrow> bool" where
  "wf_addr NoAddr = True"
| "wf_addr (A4 b) = (length b = 4)"
| "wf_addr (A6 b z) = (length b = 16)"

subsection \<open>Printing\<close>

definition ipv4_string :: "bytes \<Rightarrow> string" where
  "ipv4_string b = join_str ''.'' (map (\<lambda>x. formatUint (unat x)) b)"

definition hex_digit :: "nat \<Rightarrow> char" where
  "hex_digit d = (if d < 10 then chr (48 + d) else chr (87 + d))"

fun hex_string :: "nat \<Rightarrow> string" where
  "hex_string n =
     (if n < 16 then [hex_digit n] else hex_string (n div 16) @ [hex_digit (n mod 16)])"

declare hex_string.simps [simp del]

fun groups :: "bytes \<Rightarrow> nat list" where
  "groups (a # b # r) = (unat a * 256 + unat b) # groups r"
| "groups r = []"

fun ungroup :: "nat list \<Rightarrow> bytes" where
  "ungroup [] = []"
| "ungroup (g # gs) = word_of_nat (g div 256) # word_of_nat (g mod 256) # ungroup gs"

text \<open>\<open>appendTo6\<close>: the longest (first of equal) run of at least two zero groups.\<close>

fun zero_run :: "nat list \<Rightarrow> nat \<Rightarrow> nat \<times> nat \<Rightarrow> nat \<times> nat" where
  "zero_run [] i best = best"
| "zero_run (g # gs) i (zs, ze) =
     (let l = length (takeWhile (\<lambda>x. x = 0) (g # gs))
      in zero_run gs (Suc i) (if l \<ge> 2 \<and> l > ze - zs then (i, i + l) else (zs, ze)))"

definition groups_string :: "nat list \<Rightarrow> string" where
  "groups_string gs =
     (let (zs, ze) = zero_run gs 0 (255, 255)
      in if zs = 255 then join_str '':'' (map hex_string gs)
         else join_str '':'' (map hex_string (take zs gs)) @ ''::'' @
              join_str '':'' (map hex_string (drop ze gs)))"

definition ipv6_string :: "bytes \<Rightarrow> string" where
  "ipv6_string b = groups_string (groups b)"

fun addr_string :: "addr \<Rightarrow> string" where
  "addr_string NoAddr = ''invalid IP''"
| "addr_string (A4 b) = ipv4_string b"
| "addr_string (A6 b z) =
     (if is4in6 b then ''::ffff:'' @ ipv4_string (drop 12 b) else ipv6_string b) @
     (if z = [] then [] else ''%'' @ z)"

text \<open>\<open>net.IP.String\<close> (the program only prints addresses of 4 or 16 bytes).\<close>

definition ip_string :: "ip \<Rightarrow> string" where
  "ip_string b =
     (if b = [] then ''<nil>''
      else case ip_to4 b of
        Some p4 \<Rightarrow> ipv4_string p4
      | None \<Rightarrow> if length b = 16 then addr_string (A6 b [])
                else ''?'' @ concat (map (\<lambda>x. [hex_digit (unat x div 16), hex_digit (unat x mod 16)]) b))"

subsection \<open>Parsing\<close>

text \<open>\<open>parseIPv4Fields\<close>: \<open>fs\<close> the fields read, \<open>val\<close> and \<open>dig\<close> the current one.\<close>

fun ipv4_fields :: "string \<Rightarrow> nat list \<Rightarrow> nat \<Rightarrow> nat \<Rightarrow> string \<Rightarrow> goerr + nat list" where
  "ipv4_fields s0 fs val dig [] =
     (if length fs < 3 then Inl (ParseAddrErr ''IPv4 address too short'' s0) else Inr (fs @ [val]))"
| "ipv4_fields s0 fs val dig (c # cs) =
     (if is_digit c then
        if dig = 1 \<and> val = 0
        then Inl (ParseAddrErr ''IPv4 field has octet with leading zero'' s0)
        else let v = val * 10 + digit_val c
             in if v > 255 then Inl (ParseAddrErr ''IPv4 field has value >255'' s0)
                else ipv4_fields s0 fs v (Suc dig) cs
      else if c = CHR ''.'' then
        if dig = 0 \<or> cs = []
        then Inl (ParseAddrErr ''IPv4 field must have at least one digit'' s0)
        else if length fs = 3 then Inl (ParseAddrErr ''IPv4 address too long'' s0)
        else ipv4_fields s0 (fs @ [val]) 0 0 cs
      else Inl (ParseAddrErr ''unexpected character'' s0))"

definition parseIPv4 :: "string \<Rightarrow> goerr + addr" where
  "parseIPv4 s =
     (case ipv4_fields s [] 0 0 s of Inl e \<Rightarrow> Inl e | Inr fs \<Rightarrow> Inr (A4 (map word_of_nat fs)))"

definition is_hex :: "char \<Rightarrow> bool" where
  "is_hex c \<longleftrightarrow> is_digit c \<or> (97 \<le> ord c \<and> ord c \<le> 102) \<or> (65 \<le> ord c \<and> ord c \<le> 70)"

definition hex_val :: "char \<Rightarrow> nat" where
  "hex_val c = (if is_digit c then ord c - 48 else if 97 \<le> ord c then ord c - 87 else ord c - 55)"

definition hex_acc :: "string \<Rightarrow> nat" where
  "hex_acc ds = foldl (\<lambda>a c. a * 16 + hex_val c) 0 ds"

text \<open>
  The loop of \<open>parseIPv6\<close>: \<open>n\<close> groups are still free, \<open>gs\<close> are the groups read, \<open>ell\<close> the
  position of the ellipsis. It returns these and the unread rest.
\<close>

fun ipv6_loop :: "string \<Rightarrow> nat \<Rightarrow> nat list \<Rightarrow> nat option \<Rightarrow> string \<Rightarrow>
    goerr + (nat list \<times> nat option \<times> string)" where
  "ipv6_loop s0 0 gs ell s = Inr (gs, ell, s)"
| "ipv6_loop s0 (Suc n) gs ell s =
     (let ds = takeWhile is_hex s; rest = dropWhile is_hex s
      in if length ds > 4
         then Inl (ParseAddrErr ''each group must have 4 or less digits'' s0)
         else if ds = []
         then Inl (ParseAddrErr ''each colon-separated field must have at least one digit'' s0)
         else if rest \<noteq> [] \<and> hd rest = CHR ''.'' then
           if (ell = None \<and> length gs \<noteq> 6) \<or> length gs > 6
           then Inl (ParseAddrErr ''embedded IPv4 address'' s0)
           else (case ipv4_fields s0 [] 0 0 s of
                   Inl e \<Rightarrow> Inl e
                 | Inr fs \<Rightarrow> Inr (gs @ [fs ! 0 * 256 + fs ! 1, fs ! 2 * 256 + fs ! 3], ell, []))
         else let gs' = gs @ [hex_acc ds]
              in if rest = [] then Inr (gs', ell, [])
                 else if hd rest \<noteq> CHR '':''
                 then Inl (ParseAddrErr ''unexpected character, want colon'' s0)
                 else if length rest = 1
                 then Inl (ParseAddrErr ''colon must be followed by more characters'' s0)
                 else let s' = tl rest
                      in if hd s' = CHR '':'' then
                           if ell \<noteq> None
                           then Inl (ParseAddrErr ''multiple :: in address'' s0)
                           else if tl s' = [] then Inr (gs', Some (length gs'), [])
                           else ipv6_loop s0 n gs' (Some (length gs')) (tl s')
                         else ipv6_loop s0 n gs' ell s')"

definition ipv6_finish :: "string \<Rightarrow> nat list \<times> nat option \<times> string \<Rightarrow> goerr + nat list" where
  "ipv6_finish s0 r =
     (case r of (gs, ell, s) \<Rightarrow>
        if s \<noteq> [] then Inl (ParseAddrErr ''trailing garbage after address'' s0)
        else if length gs < 8 then
          (case ell of
             None \<Rightarrow> Inl (ParseAddrErr ''address string too short'' s0)
           | Some e \<Rightarrow> Inr (take e gs @ replicate (8 - length gs) 0 @ drop e gs))
        else if ell \<noteq> None
        then Inl (ParseAddrErr ''the :: must expand to at least one field of zeros'' s0)
        else Inr gs)"

definition parseIPv6 :: "string \<Rightarrow> goerr + addr" where
  "parseIPv6 s0 =
     (let s = takeWhile (\<lambda>c. c \<noteq> CHR ''%'') s0; zone = tl (dropWhile (\<lambda>c. c \<noteq> CHR ''%'') s0)
      in if has_byte CHR ''%'' s0 \<and> zone = []
         then Inl (ParseAddrErr ''zone must be a non-empty string'' s0)
         else let lead = is_prefix ''::'' s; s' = (if lead then drop 2 s else s)
              in if lead \<and> s' = [] then Inr (A6 (replicate 16 0) zone)
                 else case ipv6_loop s0 8 [] (if lead then Some 0 else None) s' of
                   Inl e \<Rightarrow> Inl e
                 | Inr r \<Rightarrow> (case ipv6_finish s0 r of
                       Inl e \<Rightarrow> Inl e
                     | Inr gs \<Rightarrow> Inr (A6 (ungroup gs) zone)))"

definition parseAddr :: "string \<Rightarrow> goerr + addr" where
  "parseAddr s =
     (case dropWhile (\<lambda>c. c \<noteq> CHR ''.'' \<and> c \<noteq> CHR '':'' \<and> c \<noteq> CHR ''%'') s of
        [] \<Rightarrow> Inl (ParseAddrErr ''unable to parse IP'' s)
      | c # _ \<Rightarrow> if c = CHR ''.'' then parseIPv4 s
                 else if c = CHR '':'' then parseIPv6 s
                 else Inl (ParseAddrErr ''missing IPv6 address'' s))"

text \<open>\<open>net.ParseIP\<close>: \<open>None\<close> is Go's nil.\<close>

definition parseIP :: "string \<Rightarrow> ip option" where
  "parseIP s =
     (case parseAddr s of Inl e \<Rightarrow> None | Inr a \<Rightarrow> if addr_zone a \<noteq> [] then None else Some (addr_as16 a))"

type_synonym prefix = "addr \<times> nat"

definition parsePrefix :: "string \<Rightarrow> goerr + prefix" where
  "parsePrefix s =
     (case last_index_byte CHR ''/'' s of
        None \<Rightarrow> Inl (ParseAddrErr ''no slash'' s)
      | Some i \<Rightarrow>
          (case parseAddr (take i s) of
             Inl e \<Rightarrow> Inl (Wrapf ''netip.ParsePrefix'' [AStr s] e)
           | Inr a \<Rightarrow>
               if addr_zone a \<noteq> []
               then Inl (ParseAddrErr ''IPv6 zones cannot be present in a prefix'' s)
               else let bitsStr = drop (Suc i) s
                    in if length bitsStr > 1 \<and> \<not> (49 \<le> ord (hd bitsStr) \<and> ord (hd bitsStr) \<le> 57)
                       then Inl (ParseAddrErr ''bad bits after slash'' s)
                       else (case atoi bitsStr of
                               Inl e \<Rightarrow> Inl (ParseAddrErr ''bad bits after slash'' s)
                             | Inr bits \<Rightarrow>
                                 if bits < 0 \<or> bits > (if addr_is4 a then 32 else 128)
                                 then Inl (ParseAddrErr ''prefix length out of range'' s)
                                 else Inr (a, nat bits))))"

definition prefix_string :: "prefix \<Rightarrow> string" where
  "prefix_string p = addr_string (fst p) @ ''/'' @ formatUint (snd p)"


section \<open>Lemmas\<close>

subsection \<open>Host and port\<close>

lemma index_byte_append: "c \<notin> set a \<Longrightarrow> index_byte c (a @ c # b) = Some (length a)"
  by (simp add: index_byte_def has_byte_def takeWhile_append)

lemma last_index_byte_append: "c \<notin> set b \<Longrightarrow> last_index_byte c (a @ c # b) = Some (length a)"
  using index_byte_append [of c "rev b" "rev a"] by (simp add: last_index_byte_def)

lemma split_join_plain:
  assumes "CHR '':'' \<notin> set h" "CHR ''['' \<notin> set h" "CHR '']'' \<notin> set h"
    and "CHR '':'' \<notin> set p" "CHR ''['' \<notin> set p" "CHR '']'' \<notin> set p"
  shows "splitHostPort (h @ '':'' @ p) = Inr (h, p)"
proof -
  have "last_index_byte CHR '':'' (h @ '':'' @ p) = Some (length h)"
    using assms(4) by (simp add: last_index_byte_append)
  moreover have "hd (h @ '':'' @ p) \<noteq> CHR ''[''"
    using assms(2) by (cases h) auto
  ultimately show ?thesis
    using assms by (simp add: splitHostPort_def has_byte_def)
qed

lemma split_join_bracket:
  assumes "CHR ''['' \<notin> set h" "CHR '']'' \<notin> set h"
    and "CHR '':'' \<notin> set p" "CHR ''['' \<notin> set p" "CHR '']'' \<notin> set p"
  shows "splitHostPort (''['' @ h @ '']:'' @ p) = Inr (h, p)"
proof -
  have e: "''['' @ h @ '']:'' @ p = (''['' @ h @ '']'') @ CHR '':'' # p" by simp
  have "last_index_byte CHR '':'' (''['' @ h @ '']:'' @ p) = Some (length h + 2)"
    unfolding e by (subst last_index_byte_append [OF assms(3)]) simp
  moreover have "index_byte CHR '']'' (''['' @ h @ '']:'' @ p) = Some (Suc (length h))"
    using index_byte_append [of "CHR '']''" "''['' @ h" "'':'' @ p"] assms(2) by simp
  ultimately show ?thesis
    using assms by (simp add: splitHostPort_def has_byte_def)
qed

lemma splitHostPort_joinHostPort:
  assumes "CHR ''['' \<notin> set h" "CHR '']'' \<notin> set h"
    and "CHR '':'' \<notin> set p" "CHR ''['' \<notin> set p" "CHR '']'' \<notin> set p"
  shows "splitHostPort (joinHostPort h p) = Inr (h, p)"
  using assms split_join_bracket split_join_plain
  by (simp add: joinHostPort_def has_byte_def)

text \<open>A host that was split off holds no bracket, so it can be joined again.\<close>

lemma splitHostPort_no_bracket:
  assumes "splitHostPort s = Inr (h, p)"
  shows "CHR ''['' \<notin> set h" "CHR '']'' \<notin> set h"
proof -
  have "CHR ''['' \<notin> set h \<and> CHR '']'' \<notin> set h"
  proof (cases "hd s = CHR ''[''")
    case False
    with assms show ?thesis
      by (auto simp: splitHostPort_def Let_def has_byte_def split: option.splits if_splits dest: in_set_takeD)
  next
    case True
    then obtain e where e: "index_byte CHR '']'' s = Some e" "h = take (e - 1) (tl s)"
      and b: "CHR ''['' \<notin> set (drop 1 s)"
      using assms by (auto simp: splitHostPort_def Let_def has_byte_def split: option.splits if_splits)
    from e(1) True obtain t where s: "s = CHR ''['' # t" by (cases s) (auto simp: index_byte_def has_byte_def)
    with e have "h = takeWhile (\<lambda>x. x \<noteq> CHR '']'') t"
      by (auto simp: index_byte_def takeWhile_eq_take [symmetric] split: if_splits)
    with b s show ?thesis by (auto dest: set_takeWhileD)
  qed
  then show "CHR ''['' \<notin> set h" "CHR '']'' \<notin> set h" by simp_all
qed

lemma formatUint_no_delim [simp]:
  "CHR '':'' \<notin> set (formatUint n)" "CHR ''['' \<notin> set (formatUint n)"
  "CHR '']'' \<notin> set (formatUint n)" "CHR ''.'' \<notin> set (formatUint n)"
  "CHR ''%'' \<notin> set (formatUint n)"
  by (simp_all add: formatUint_not_member is_digit_def)

lemma splitHostPort_join_format:
  assumes "CHR ''['' \<notin> set h" "CHR '']'' \<notin> set h"
  shows "splitHostPort (joinHostPort h (formatUint n)) = Inr (h, formatUint n)"
  by (rule splitHostPort_joinHostPort) (use assms in simp_all)

subsection \<open>Lengths and classes of addresses\<close>

lemma length_v4mapped [simp]: "length (v4mapped b) = 12 + length b"
  by (simp add: v4mapped_def)

lemma is4in6_v4mapped: "is4in6 (v4mapped b) \<longleftrightarrow> length b = 4"
  by (auto simp: is4in6_def v4mapped_def)

lemma is4in6_iff: "is4in6 b \<longleftrightarrow> (\<exists>q. length q = 4 \<and> b = v4mapped q)"
proof
  assume "is4in6 b"
  then have l: "length (drop 12 b) = 4" and t: "take 12 b = replicate 10 0 @ [0xFF, 0xFF]"
    by (simp_all add: is4in6_def)
  have "b = take 12 b @ drop 12 b" by simp
  also have "\<dots> = v4mapped (drop 12 b)" by (simp only: t v4mapped_def append_assoc)
  finally have "b = v4mapped (drop 12 b)" .
  with l show "\<exists>q. length q = 4 \<and> b = v4mapped q" by blast
qed (auto simp: is4in6_v4mapped)

lemma drop_v4mapped [simp]: "drop 12 (v4mapped b) = b"
  by (simp add: v4mapped_def)

lemma ip_to4_v4mapped [simp]: "length b = 4 \<Longrightarrow> ip_to4 (v4mapped b) = Some b"
  by (simp add: ip_to4_def is4in6_v4mapped)

lemma ip_to4_length: "ip_to4 b = Some q \<Longrightarrow> length q = 4"
  by (auto simp: ip_to4_def is4in6_def split: if_splits)

subsection \<open>IPv4 text\<close>

lemma ipv4_field_formatUint:
  "v \<le> 255 \<Longrightarrow>
   ipv4_fields s0 fs 0 0 (formatUint v @ r) =
     ipv4_fields s0 fs v (length (formatUint v)) r"
proof (induction v arbitrary: r rule: formatUint.induct)
  case (1 v)
  show ?case
  proof (cases "v < 10")
    case True
    then show ?thesis
      by (simp add: formatUint.simps [of v] is_digit_def digit_chr_def digit_val_def)
  next
    case False
    let ?q = "v div 10"
    have q: "0 < ?q" "?q \<le> 255" using False "1.prems" by auto
    have "ipv4_fields s0 fs 0 0 (formatUint v @ r) =
        ipv4_fields s0 fs ?q (length (formatUint ?q)) (digit_chr (v mod 10) # r)"
      using "1.IH" [OF False q(2)] False by (simp add: formatUint.simps [of v])
    also have "\<dots> = ipv4_fields s0 fs v (Suc (length (formatUint ?q))) r"
      using q(1) "1.prems" by simp
    finally show ?thesis using False by (simp add: formatUint.simps [of v])
  qed
qed

lemma length_formatUint_pos [simp]: "0 < length (formatUint v)"
  by simp

lemma ipv4_fields_string:
  assumes "a \<le> 255" "b \<le> 255" "c \<le> 255" "d \<le> 255"
  shows "ipv4_fields s0 [] 0 0
    (formatUint a @ ''.'' @ formatUint b @ ''.'' @ formatUint c @ ''.'' @ formatUint d) =
    Inr [a, b, c, d]"
  using assms ipv4_field_formatUint [OF assms(4), of s0 "[a, b, c]" "[]"]
  by (simp add: ipv4_field_formatUint is_digit_def)

lemma byte_less_256: "unat (x :: byte) < 256"
  using unsigned_less [of x] by simp

lemma byte_le_255: "unat (x :: byte) \<le> 255"
  using byte_less_256 [of x] by linarith

lemma list4: "length b = 4 \<Longrightarrow> b = [b ! 0, b ! 1, b ! 2, b ! 3]"
  by (auto simp: length_Suc_conv numeral_eq_Suc)

lemma ipv4_fields_ipv4_string:
  assumes "length b = 4"
  shows "ipv4_fields s0 [] 0 0 (ipv4_string b) = Inr (map unat b)"
  by (subst (2) list4 [OF assms], subst list4 [OF assms])
     (simp add: ipv4_string_def ipv4_fields_string [simplified] byte_le_255)

lemma set_join_str: "set (join_str sep xs) \<subseteq> set sep \<union> (\<Union>x\<in>set xs. set x)"
  by (induction sep xs rule: join_str.induct) auto

lemma set_ipv4_string: "c \<in> set (ipv4_string b) \<Longrightarrow> is_digit c \<or> c = CHR ''.''"
  using set_join_str [of "''.''" "map (\<lambda>x. formatUint (unat x)) b"] formatUint_digits
  by (fastforce simp: ipv4_string_def list_all_iff)

lemma ipv4_string_Cons:
  assumes "length b = 4"
  shows "ipv4_string b = formatUint (unat (b ! 0)) @ CHR ''.'' #
    join_str ''.'' (map (\<lambda>x. formatUint (unat x)) (tl b))"
  by (subst list4 [OF assms], subst (2) list4 [OF assms]) (simp add: ipv4_string_def)

lemma parseAddr_ipv4_string:
  assumes "length b = 4"
  shows "parseAddr (ipv4_string b) = Inr (A4 b)"
proof -
  note s = ipv4_string_Cons [OF assms]
  have "\<forall>c\<in>set (formatUint (unat (b ! 0))). c \<noteq> CHR ''.'' \<and> c \<noteq> CHR '':'' \<and> c \<noteq> CHR ''%''"
    by (metis formatUint_no_delim(1,4,5))
  then have "dropWhile (\<lambda>c. c \<noteq> CHR ''.'' \<and> c \<noteq> CHR '':'' \<and> c \<noteq> CHR ''%'') (ipv4_string b) =
      CHR ''.'' # join_str ''.'' (map (\<lambda>x. formatUint (unat x)) (tl b))"
    unfolding s by (subst dropWhile_append2) auto
  then show ?thesis
    by (simp add: parseAddr_def parseIPv4_def ipv4_fields_ipv4_string [OF assms] comp_def)
qed


subsection \<open>IPv6 text\<close>

lemma hex_digit_hex [simp]: "d < 16 \<Longrightarrow> is_hex (hex_digit d) \<and> hex_val (hex_digit d) = d"
  by (auto simp: is_hex_def hex_val_def hex_digit_def is_digit_def)

lemma hex_string_neq_Nil [simp]: "hex_string n \<noteq> []"
  by (subst hex_string.simps) simp

lemma hex_string_all: "list_all is_hex (hex_string n)"
proof (induction n rule: hex_string.induct)
  case (1 n)
  then show ?case by (subst hex_string.simps) simp
qed

lemma hex_acc_hex_string [simp]: "hex_acc (hex_string n) = n"
proof (induction n rule: hex_string.induct)
  case (1 n)
  then show ?case by (subst hex_string.simps) (auto simp: hex_acc_def)
qed

lemma length_hex_string: "n < 16 ^ Suc k \<Longrightarrow> length (hex_string n) \<le> Suc k"
proof (induction k arbitrary: n)
  case 0
  then show ?case by (subst hex_string.simps) simp
next
  case (Suc k)
  show ?case
  proof (cases "n < 16")
    case True
    then show ?thesis by (subst hex_string.simps) simp
  next
    case False
    have "n div 16 < 16 ^ Suc k" using Suc.prems by (simp add: less_mult_imp_div_less)
    then have "length (hex_string (n div 16)) \<le> Suc k" by (rule Suc.IH)
    with False show ?thesis by (subst hex_string.simps) simp
  qed
qed

lemma length_hex_string4: "n < 65536 \<Longrightarrow> length (hex_string n) \<le> 4"
  using length_hex_string [of n 3] by simp

lemma not_hex [simp]: "\<not> is_hex CHR '':''" "\<not> is_hex CHR ''.''" "\<not> is_hex CHR ''%''"
  "\<not> is_hex CHR ''[''" "\<not> is_hex CHR '']''"
  by (simp_all add: is_hex_def is_digit_def)

lemma while_hex_string:
  assumes "r = [] \<or> \<not> is_hex (hd r)"
  shows "takeWhile is_hex (hex_string n @ r) = hex_string n"
    and "dropWhile is_hex (hex_string n @ r) = r"
proof -
  have a: "\<forall>c\<in>set (hex_string n). is_hex c"
    using hex_string_all [of n] by (simp add: list_all_iff)
  show "takeWhile is_hex (hex_string n @ r) = hex_string n"
    using a assms by (subst takeWhile_append2) (auto simp: takeWhile_eq_Nil_iff)
  show "dropWhile is_hex (hex_string n @ r) = r"
    using a assms by (subst dropWhile_append2) (auto simp: dropWhile_eq_self_iff)
qed

lemma hd_hex_string: "is_hex (hd (hex_string n @ r))"
  using hex_string_all [of n] by (cases "hex_string n") (simp_all add: list_all_iff)

text \<open>One group read by the loop: the last one, one before a colon, one before the ellipsis.\<close>

lemma ipv6_loop_last:
  assumes "g < 65536"
  shows "ipv6_loop s0 (Suc n) gs ell (hex_string g) = Inr (gs @ [g], ell, [])"
proof -
  have "takeWhile is_hex (hex_string g) = hex_string g" "dropWhile is_hex (hex_string g) = []"
    using while_hex_string [of "[]" g] by simp_all
  note w = this
  show ?thesis using length_hex_string4 [OF assms] by (simp add: w not_less)
qed

lemma ipv6_loop_colon:
  assumes "g < 65536" "s' \<noteq> []" "hd s' \<noteq> CHR '':''"
  shows "ipv6_loop s0 (Suc n) gs ell (hex_string g @ CHR '':'' # s') =
           ipv6_loop s0 n (gs @ [g]) ell s'"
  using assms while_hex_string [of "CHR '':'' # s'" g] length_hex_string4 [of g]
  by (simp add: not_less)

lemma ipv6_loop_ellipsis:
  assumes "g < 65536"
  shows "ipv6_loop s0 (Suc n) gs None (hex_string g @ CHR '':'' # CHR '':'' # t) =
           (if t = [] then Inr (gs @ [g], Some (Suc (length gs)), [])
            else ipv6_loop s0 n (gs @ [g]) (Some (Suc (length gs))) t)"
  using assms while_hex_string [of "CHR '':'' # CHR '':'' # t" g] length_hex_string4 [of g]
  by (simp add: not_less)

lemma join_hex_neq_Nil: "xs \<noteq> [] \<Longrightarrow> join_str sep (map hex_string xs) \<noteq> []"
  by (induction sep "map hex_string xs" rule: join_str.induct) auto

lemma hd_join_hex: "xs \<noteq> [] \<Longrightarrow> is_hex (hd (join_str sep (map hex_string xs) @ r))"
proof (induction sep "map hex_string xs" rule: join_str.induct)
  case (2 sep x)
  then show ?case using hd_hex_string by (metis join_str.simps(2) map_eq_Cons_conv)
next
  case (3 sep x y zs)
  then show ?case using hd_hex_string
    by (metis append.assoc join_str.simps(3) map_eq_Cons_conv)
qed simp

lemma ipv6_loop_join:
  "xs \<noteq> [] \<Longrightarrow> list_all (\<lambda>g. g < 65536) xs \<Longrightarrow> length xs \<le> n \<Longrightarrow>
   ipv6_loop s0 n gs ell (join_str '':'' (map hex_string xs)) = Inr (gs @ xs, ell, [])"
proof (induction xs arbitrary: n gs)
  case (Cons x xs)
  then obtain m where n: "n = Suc m" by (cases n) auto
  show ?case
  proof (cases xs)
    case Nil
    with Cons.prems n show ?thesis by (simp add: ipv6_loop_last del: ipv6_loop.simps)
  next
    case (Cons y ys)
    let ?s = "join_str '':'' (map hex_string xs)"
    have "?s \<noteq> []" "hd ?s \<noteq> CHR '':''"
      using Cons join_hex_neq_Nil [of xs] hd_join_hex [of xs "'':''" "[]"] by auto
    then have "ipv6_loop s0 (Suc m) gs ell (hex_string x @ CHR '':'' # ?s) =
        ipv6_loop s0 m (gs @ [x]) ell ?s"
      using Cons.prems by (intro ipv6_loop_colon) simp_all
    also have "\<dots> = Inr ((gs @ [x]) @ xs, ell, [])"
      using Cons.prems Cons n by (intro Cons.IH) simp_all
    finally show ?thesis using Cons n by simp
  qed
qed simp

lemma ipv6_loop_join_ellipsis:
  "xs \<noteq> [] \<Longrightarrow> list_all (\<lambda>g. g < 65536) xs \<Longrightarrow> length xs \<le> n \<Longrightarrow>
   ipv6_loop s0 n gs None (join_str '':'' (map hex_string xs) @ ''::'' @ t) =
     (if t = [] then Inr (gs @ xs, Some (length gs + length xs), [])
      else ipv6_loop s0 (n - length xs) (gs @ xs) (Some (length gs + length xs)) t)"
proof (induction xs arbitrary: n gs)
  case (Cons x xs)
  then obtain m where n: "n = Suc m" by (cases n) auto
  show ?case
  proof (cases xs)
    case Nil
    with Cons.prems n show ?thesis by (simp add: ipv6_loop_ellipsis del: ipv6_loop.simps)
  next
    case (Cons y ys)
    let ?s = "join_str '':'' (map hex_string xs) @ ''::'' @ t"
    have "?s \<noteq> []" "hd ?s \<noteq> CHR '':''"
      using Cons hd_join_hex [of xs "'':''" "''::'' @ t"] by auto
    then have "ipv6_loop s0 (Suc m) gs None (hex_string x @ CHR '':'' # ?s) =
        ipv6_loop s0 m (gs @ [x]) None ?s"
      using Cons.prems by (intro ipv6_loop_colon) simp_all
    also have "\<dots> = (if t = [] then Inr ((gs @ [x]) @ xs, Some (length (gs @ [x]) + length xs), [])
        else ipv6_loop s0 (m - length xs) ((gs @ [x]) @ xs) (Some (length (gs @ [x]) + length xs)) t)"
      using Cons.prems Cons n by (intro Cons.IH) simp_all
    finally show ?thesis using Cons n by simp
  qed
qed simp

lemma takeWhile_zero: "takeWhile (\<lambda>x. x = 0) gs = replicate (length (takeWhile (\<lambda>x. x = 0) gs)) (0::nat)"
  by (induction gs) auto

lemma zero_run_cases:
  "zero_run gs i (zs, ze) = (a, b) \<Longrightarrow>
     (a, b) = (zs, ze) \<or>
     (i \<le> a \<and> a + 2 \<le> b \<and> b \<le> i + length gs \<and> take (b - a) (drop (a - i) gs) = replicate (b - a) 0)"
proof (induction gs arbitrary: i zs ze)
  case (Cons g gs)
  define l where "l = length (takeWhile (\<lambda>x. x = 0) (g # gs))"
  have l: "l \<le> length (g # gs)" unfolding l_def by (rule length_takeWhile_le)
  have z: "take l (g # gs) = replicate l 0"
    unfolding l_def
    using takeWhile_zero [of "g # gs"] takeWhile_eq_take [of "\<lambda>x. x = 0" "g # gs"] by metis
  have "zero_run gs (Suc i) (if l \<ge> 2 \<and> l > ze - zs then (i, i + l) else (zs, ze)) = (a, b)"
    using Cons.prems unfolding l_def by (simp only: zero_run.simps Let_def)
  then obtain zs' ze' where r: "zero_run gs (Suc i) (zs', ze') = (a, b)"
    and c: "(zs', ze') = (zs, ze) \<or> (l \<ge> 2 \<and> (zs', ze') = (i, i + l))"
    by (auto split: if_splits)
  from Cons.IH [OF r] show ?case
  proof
    assume "(a, b) = (zs', ze')"
    with c l z show ?case by auto
  next
    assume h: "Suc i \<le> a \<and> a + 2 \<le> b \<and> b \<le> Suc i + length gs \<and>
      take (b - a) (drop (a - Suc i) gs) = replicate (b - a) 0"
    then have "drop (a - i) (g # gs) = drop (a - Suc i) gs"
      by (simp add: Suc_diff_le drop_Cons')
    with h show ?case by auto
  qed
qed simp


lemma length_groups [simp]: "length (groups b) = length b div 2"
  by (induction b rule: groups.induct) auto

lemma groups_bound: "list_all (\<lambda>g. g < 65536) (groups b)"
proof (induction b rule: groups.induct)
  case (1 a b r)
  then show ?case using byte_less_256 [of a] byte_less_256 [of b] by simp
qed simp_all

lemma ungroup_groups: "even (length b) \<Longrightarrow> ungroup (groups b) = b"
proof (induction b rule: groups.induct)
  case (1 a b r)
  have "(unat a * 256 + unat b) div 256 = unat a" "(unat a * 256 + unat b) mod 256 = unat b"
    using byte_less_256 [of b] by simp_all
  with 1 show ?case by simp
qed auto

lemma ungroup_append [simp]: "ungroup (a @ b) = ungroup a @ ungroup b"
  by (induction a) auto

lemma ungroup_zeros: "ungroup (replicate n 0) = replicate (2 * n) 0"
  by (induction n) auto

lemma set_join_hex: "c \<in> set (join_str '':'' (map hex_string xs)) \<Longrightarrow> is_hex c \<or> c = CHR '':''"
  using set_join_str [of "'':''" "map hex_string xs"] hex_string_all
  by (fastforce simp: list_all_iff)

lemma set_groups_string: "c \<in> set (groups_string gs) \<Longrightarrow> is_hex c \<or> c = CHR '':''"
  by (auto simp: groups_string_def split: prod.splits if_splits dest: set_join_hex)

text \<open>The loop and its epilogue, on the text after any leading ellipsis.\<close>

definition ipv6_body :: "string \<Rightarrow> string \<Rightarrow> goerr + nat list" where
  "ipv6_body s0 s =
     (if s = ''::'' then Inr (replicate 8 0)
      else case ipv6_loop s0 8 [] (if is_prefix ''::'' s then Some 0 else None)
                  (if is_prefix ''::'' s then drop 2 s else s) of
        Inl e \<Rightarrow> Inl e | Inr r \<Rightarrow> ipv6_finish s0 r)"

lemma parseIPv6_body:
  assumes "CHR ''%'' \<notin> set s" "ipv6_body (s @ zs) s = Inr gs"
    and "zs = [] \<and> z = [] \<or> (zs = CHR ''%'' # z \<and> z \<noteq> [])"
  shows "parseIPv6 (s @ zs) = Inr (A6 (ungroup gs) z)"
proof -
  have a: "\<And>c. c \<in> set s \<Longrightarrow> c \<noteq> CHR ''%''" using assms(1) by metis
  have t: "takeWhile (\<lambda>c. c \<noteq> CHR ''%'') (s @ zs) = s"
    by (subst takeWhile_append2) (use a assms(3) in auto)
  have d: "tl (dropWhile (\<lambda>c. c \<noteq> CHR ''%'') (s @ zs)) = z"
    by (subst dropWhile_append2) (use a assms(3) in auto)
  have z: "\<not> (has_byte CHR ''%'' (s @ zs) \<and> z = [])"
    using assms(1,3) by (auto simp: has_byte_def)
  have e: "(is_prefix ''::'' s \<and> drop 2 s = []) \<longleftrightarrow> s = ''::''"
    by (auto simp: is_prefix_iff)
  show ?thesis
  proof (cases "s = ''::''")
    case True
    with assms(2) have "gs = replicate 8 0" by (simp add: ipv6_body_def)
    with True t d z show ?thesis
      unfolding parseIPv6_def Let_def
      by (simp add: ungroup_zeros is_prefix_def del: ipv6_loop.simps)
  next
    case False
    with assms(2) obtain r where
      r: "ipv6_loop (s @ zs) 8 [] (if is_prefix ''::'' s then Some 0 else None)
            (if is_prefix ''::'' s then drop 2 s else s) = Inr r"
      "ipv6_finish (s @ zs) r = Inr gs"
      by (auto simp: ipv6_body_def split: sum.splits)
    from False e have "\<not> (is_prefix ''::'' s \<and> (if is_prefix ''::'' s then drop 2 s else s) = [])"
      by auto
    with z r show ?thesis
      unfolding parseIPv6_def Let_def t d
      by (cases "is_prefix ''::'' s") (simp_all add: t d del: ipv6_loop.simps)
  qed
qed

lemma ipv6_body_groups_string:
  assumes "length gs = 8" "list_all (\<lambda>g. g < 65536) gs"
  shows "ipv6_body s0 (groups_string gs) = Inr gs"
proof -
  obtain a b where ab: "zero_run gs 0 (255, 255) = (a, b)" by fastforce
  let ?J = "\<lambda>xs. join_str '':'' (map hex_string xs)"
  have hexhd: "xs \<noteq> [] \<Longrightarrow> \<not> is_prefix ''::'' (?J xs @ r) \<and> ?J xs @ r \<noteq> ''::''" for xs r
    using hd_join_hex [of xs "'':''" r] by (auto simp: is_prefix_iff)
  from zero_run_cases [OF ab] show ?thesis
  proof
    assume "(a, b) = (255, 255)"
    with ab have s: "groups_string gs = ?J gs" by (simp add: groups_string_def)
    have "ipv6_loop s0 8 [] None (?J gs) = Inr ([] @ gs, None, [])"
      using assms by (intro ipv6_loop_join) auto
    moreover have "gs \<noteq> []" using assms by auto
    ultimately show ?thesis
      using assms hexhd [of gs "[]"] unfolding s ipv6_body_def
      by (simp add: ipv6_finish_def del: ipv6_loop.simps)
  next
    assume "0 \<le> a \<and> a + 2 \<le> b \<and> b \<le> 0 + length gs \<and>
      take (b - a) (drop (a - 0) gs) = replicate (b - a) 0"
    then have r: "a + 2 \<le> b" "b \<le> 8" "take (b - a) (drop a gs) = replicate (b - a) 0"
      using assms(1) by auto
    have s: "groups_string gs = ?J (take a gs) @ ''::'' @ ?J (drop b gs)"
      using ab r by (simp add: groups_string_def)
    have "drop a gs = take (b - a) (drop a gs) @ drop b gs"
      using r(1) append_take_drop_id [of "b - a" "drop a gs"] by simp
    then have split: "gs = take a gs @ replicate (b - a) 0 @ drop b gs"
      using r(3) append_take_drop_id [of a gs] by metis
    have fin: "ipv6_finish s0 (take a gs @ drop b gs, Some a, []) = Inr gs"
      using r assms(1) split by (simp add: ipv6_finish_def)
    have all: "list_all (\<lambda>g. g < 65536) (take a gs)" "list_all (\<lambda>g. g < 65536) (drop b gs)"
      using assms(2) by (auto simp: list_all_iff dest: in_set_takeD in_set_dropD)
    have tail: "ipv6_loop s0 (8 - a) (take a gs) (Some a) (?J (drop b gs)) =
        Inr (take a gs @ drop b gs, Some a, [])" if "drop b gs \<noteq> []"
      using that all r assms(1) by (intro ipv6_loop_join) auto
    show ?thesis
    proof (cases "a = 0")
      case True
      show ?thesis
      proof (cases "drop b gs = []")
        case True
        with \<open>a = 0\<close> split r assms(1) have "gs = replicate 8 0"
          by (metis append_Nil append_Nil2 length_replicate take0)
        with True \<open>a = 0\<close> show ?thesis unfolding s by (simp add: ipv6_body_def)
      next
        case False
        then have "?J (drop b gs) \<noteq> []" by (rule join_hex_neq_Nil)
        with tail [OF False] fin \<open>a = 0\<close> show ?thesis
          unfolding s ipv6_body_def by (simp add: is_prefix_def del: ipv6_loop.simps)
      qed
    next
      case False
      then have ne: "take a gs \<noteq> []" using assms(1) by auto
      have la: "length (take a gs) = a" using r assms(1) by simp
      have "ipv6_loop s0 8 [] None (?J (take a gs) @ ''::'' @ ?J (drop b gs)) =
          Inr (take a gs @ drop b gs, Some a, [])"
      proof (cases "drop b gs = []")
        case True
        then show ?thesis
          using ipv6_loop_join_ellipsis [OF ne all(1), of 8 s0 "[]" "[]"] la r
          by (simp del: ipv6_loop.simps)
      next
        case False
        then have "?J (drop b gs) \<noteq> []" by (rule join_hex_neq_Nil)
        with tail [OF False] show ?thesis
          using ipv6_loop_join_ellipsis [OF ne all(1), of 8 s0 "[]" "?J (drop b gs)"] la r
          by (simp del: ipv6_loop.simps)
      qed
      then show ?thesis
        using hexhd [OF ne, of "''::'' @ ?J (drop b gs)"] fin
        unfolding s ipv6_body_def by (simp del: ipv6_loop.simps)
    qed
  qed
qed


lemma parseAddr_colon:
  assumes "s = a @ CHR '':'' # r" "\<And>c. c \<in> set a \<Longrightarrow> is_hex c"
  shows "parseAddr s = parseIPv6 s"
proof -
  have "c \<noteq> CHR ''.'' \<and> c \<noteq> CHR '':'' \<and> c \<noteq> CHR ''%''" if "c \<in> set a" for c
    using assms(2) [OF that] not_hex by metis
  then have "dropWhile (\<lambda>c. c \<noteq> CHR ''.'' \<and> c \<noteq> CHR '':'' \<and> c \<noteq> CHR ''%'') s = CHR '':'' # r"
    unfolding assms(1) by (subst dropWhile_append2) auto
  then show ?thesis by (simp add: parseAddr_def)
qed

lemma groups_string_colon:
  assumes "length gs = 8"
  shows "\<exists>a r. groups_string gs @ z = a @ CHR '':'' # r \<and> (\<forall>c\<in>set a. is_hex c)"
proof -
  have c: "CHR '':'' \<in> set (groups_string gs)"
  proof -
    obtain g0 g1 gs' where "gs = g0 # g1 # gs'"
      using assms by (auto simp: length_Suc_conv numeral_eq_Suc)
    then have j: "CHR '':'' \<in> set (join_str '':'' (map hex_string gs))" by simp
    obtain zs ze where "zero_run gs 0 (255, 255) = (zs, ze)" by fastforce
    with j show ?thesis by (simp add: groups_string_def)
  qed
  then obtain a r where ar: "groups_string gs = a @ CHR '':'' # r" "CHR '':'' \<notin> set a"
    by (meson split_list_first)
  have "is_hex c" if "c \<in> set a" for c
    using set_groups_string [of c gs] ar that by auto
  with ar(1) show ?thesis by auto
qed

definition zone_suffix :: "string \<Rightarrow> string" where
  "zone_suffix z = (if z = [] then [] else ''%'' @ z)"

lemma parseAddr_ipv6_string:
  assumes "length b = 16"
  shows "parseAddr (ipv6_string b @ zone_suffix z) = Inr (A6 b z)"
proof -
  have g: "length (groups b) = 8" using assms by simp
  have "CHR ''%'' \<notin> set (ipv6_string b)"
    using set_groups_string [of "CHR ''%''" "groups b"] not_hex(3) by (auto simp: ipv6_string_def)
  then have "parseIPv6 (ipv6_string b @ zone_suffix z) = Inr (A6 (ungroup (groups b)) z)"
    by (rule parseIPv6_body)
      (use g in \<open>simp_all add: ipv6_string_def ipv6_body_groups_string groups_bound zone_suffix_def\<close>)
  moreover have "parseAddr (ipv6_string b @ zone_suffix z) = parseIPv6 (ipv6_string b @ zone_suffix z)"
    using groups_string_colon [OF g, of "zone_suffix z"] parseAddr_colon by (metis ipv6_string_def)
  ultimately show ?thesis using assms by (simp add: ungroup_groups)
qed

text \<open>An IPv4-mapped address is printed with its last two groups as a dotted quad.\<close>

lemma ipv6_loop_dotted:
  assumes "length b = 4" "length gs \<le> 6" "ell = Some e"
  shows "ipv6_loop s0 (Suc n) gs ell (ipv4_string b) =
    Inr (gs @ [unat (b ! 0) * 256 + unat (b ! 1), unat (b ! 2) * 256 + unat (b ! 3)], ell, [])"
proof -
  let ?d = "formatUint (unat (b ! 0))"
  obtain r where s: "ipv4_string b = ?d @ CHR ''.'' # r"
    using ipv4_string_Cons [OF assms(1)] by blast
  have dig: "\<forall>c\<in>set ?d. is_hex c"
    using formatUint_digits [of "unat (b ! 0)"] by (auto simp: list_all_iff is_hex_def)
  have w: "takeWhile is_hex (ipv4_string b) = ?d" "dropWhile is_hex (ipv4_string b) = CHR ''.'' # r"
    unfolding s using dig by (simp_all add: takeWhile_append2 dropWhile_append2)
  have "?d = hex_string 0 \<or> length ?d \<le> 4"
    by (subst (2) formatUint.simps, subst formatUint.simps, subst formatUint.simps)
      (use byte_less_256 [of "b ! 0"] in auto)
  moreover have "length (hex_string 0) \<le> 4" by (simp add: hex_string.simps)
  ultimately have "length ?d \<le> 4" by metis
  then show ?thesis
    using assms by (simp add: w ipv4_fields_ipv4_string Let_def)
qed

lemma parseAddr_v4mapped_string:
  assumes "length q = 4"
  shows "parseAddr (''::ffff:'' @ ipv4_string q @ zone_suffix z) = Inr (A6 (v4mapped q) z)"
proof -
  let ?s = "''::ffff:'' @ ipv4_string q"
  let ?gs = "[unat (q ! 0) * 256 + unat (q ! 1), unat (q ! 2) * 256 + unat (q ! 3)]"
  have "hex_digit 15 = CHR ''f''" by code_simp
  then have h: "hex_string 65535 = ''ffff''"
    by (simp add: hex_string.simps [of 65535] hex_string.simps [of 4095] hex_string.simps [of 255]
        hex_string.simps [of 15])
  have ne: "ipv4_string q \<noteq> []" "hd (ipv4_string q) \<noteq> CHR '':''"
  proof -
    note c = ipv4_string_Cons [OF assms]
    show "ipv4_string q \<noteq> []" unfolding c by simp
    have "hd (formatUint (unat (q ! 0))) \<noteq> CHR '':''"
      by (metis formatUint_neq_Nil formatUint_no_delim(1) hd_in_set)
    then show "hd (ipv4_string q) \<noteq> CHR '':''" unfolding c by simp
  qed
  have "ipv6_loop s0 (Suc (Suc n)) [] (Some 0) (hex_string 65535 @ CHR '':'' # ipv4_string q) =
      Inr (65535 # ?gs, Some 0, [])" for s0 n
    by (subst ipv6_loop_colon)
      (use ne assms in \<open>simp_all add: ipv6_loop_dotted del: ipv6_loop.simps\<close>)
  from this [where n = 6] have "ipv6_loop s0 8 [] (Some 0) (''ffff:'' @ ipv4_string q) =
      Inr (65535 # ?gs, Some 0, [])" for s0
    by (simp add: h del: ipv6_loop.simps)
  then have "ipv6_body s0 ?s = Inr (replicate 5 0 @ 65535 # ?gs)" for s0
    by (simp add: ipv6_body_def is_prefix_def ipv6_finish_def del: ipv6_loop.simps)
  moreover have "CHR ''%'' \<notin> set ?s"
    using set_ipv4_string [of "CHR ''%''" q] by (auto simp: is_digit_def)
  ultimately have "parseIPv6 (?s @ zone_suffix z) = Inr (A6 (ungroup (replicate 5 0 @ 65535 # ?gs)) z)"
    by (intro parseIPv6_body) (auto simp: zone_suffix_def)
  moreover have "ungroup (replicate 5 0 @ 65535 # ?gs) = v4mapped q"
  proof -
    have "ungroup ?gs = q"
      using ungroup_groups [of q] assms list4 [OF assms] by (metis groups.simps(1,2) even_numeral)
    then show ?thesis by (simp add: ungroup_zeros v4mapped_def)
  qed
  moreover have "parseAddr (?s @ zone_suffix z) = parseIPv6 (?s @ zone_suffix z)"
    by (rule parseAddr_colon [of _ "[]"]) auto
  ultimately show ?thesis by simp
qed

text \<open>Every valid address survives printing and parsing, as \<open>netip.Addr\<close> and as \<open>net.IP\<close>.\<close>

lemma parseAddr_addr_string:
  assumes "wf_addr a" "addr_valid a"
  shows "parseAddr (addr_string a) = Inr a"
proof (cases a)
  case NoAddr
  with assms show ?thesis by simp
next
  case (A4 b)
  with assms show ?thesis by (simp add: parseAddr_ipv4_string)
next
  case (A6 b z)
  show ?thesis
  proof (cases "is4in6 b")
    case True
    then obtain q where "length q = 4" "b = v4mapped q" by (auto simp: is4in6_iff)
    with True A6 show ?thesis
      using parseAddr_v4mapped_string [of q z] by (simp add: zone_suffix_def)
  next
    case False
    with A6 assms show ?thesis
      using parseAddr_ipv6_string [of b z] by (simp add: zone_suffix_def)
  qed
qed

lemma parseIP_ip_string:
  assumes "length b = 4 \<or> length b = 16"
  shows "parseIP (ip_string b) = Some (ip_to16 b)"
proof (cases "ip_to4 b")
  case None
  with assms have l: "length b = 16" "\<not> is4in6 b" by (auto simp: ip_to4_def split: if_splits)
  then have "parseAddr (ip_string b) = Inr (A6 b [])"
    using None parseAddr_ipv6_string [of b "[]"] by (auto simp: ip_string_def zone_suffix_def)
  with l show ?thesis by (simp add: parseIP_def ip_to16_def)
next
  case (Some q)
  then have q: "length q = 4" by (rule ip_to4_length)
  have "b \<noteq> []" using assms by auto
  with Some have "parseAddr (ip_string b) = Inr (A4 q)"
    using parseAddr_ipv4_string [OF q] by (simp add: ip_string_def)
  moreover have "v4mapped q = ip_to16 b"
    using Some by (auto simp: ip_to4_def ip_to16_def is4in6_iff split: if_splits)
  ultimately show ?thesis by (simp add: parseIP_def)
qed

text \<open>The text of an address never contains the brackets of a host-port pair.\<close>

lemma ip_string_no_bracket:
  assumes "length b = 4 \<or> length b = 16"
  shows "CHR ''['' \<notin> set (ip_string b)" "CHR '']'' \<notin> set (ip_string b)"
proof -
  have "c \<notin> set (ip_string b)" if "\<not> is_hex c" "c \<noteq> CHR ''.''" "c \<noteq> CHR '':''" for c
  proof (cases "ip_to4 b")
    case None
    with assms have "ip_string b = ipv6_string b"
      by (auto simp: ip_string_def ip_to4_def split: if_splits)
    with that show ?thesis using set_groups_string [of c "groups b"] by (auto simp: ipv6_string_def)
  next
    case (Some q)
    have "b \<noteq> []" using assms by auto
    with Some have "ip_string b = ipv4_string q" by (simp add: ip_string_def)
    with that show ?thesis using set_ipv4_string [of c q] by (auto simp: is_hex_def)
  qed
  then show "CHR ''['' \<notin> set (ip_string b)" "CHR '']'' \<notin> set (ip_string b)"
    by (simp_all add: is_hex_def is_digit_def)
qed


subsection \<open>Parsed addresses are well formed\<close>

lemma ipv4_fields_length:
  "length fs \<le> 3 \<Longrightarrow> ipv4_fields s0 fs v d cs = Inr r \<Longrightarrow> length r = 4"
  by (induction s0 fs v d cs rule: ipv4_fields.induct) (auto simp: Let_def split: if_splits)

lemma ipv6_loop_length:
  "n + length gs \<le> 8 \<Longrightarrow> ipv6_loop s0 n gs ell s = Inr (gs', ell', s') \<Longrightarrow> length gs' \<le> 8"
proof (induction n arbitrary: gs ell s)
  case (Suc n)
  have IH: "n + length gs + 1 \<le> 8 \<Longrightarrow> ipv6_loop s0 n (gs @ [x]) e t = Inr (gs', ell', s') \<Longrightarrow>
      length gs' \<le> 8" for x e t
    using Suc.IH [of "gs @ [x]" e t] by simp
  show ?case
    using Suc.prems(2)
    by (simp only: ipv6_loop.simps Let_def split: if_split_asm sum.split_asm)
      (use Suc.prems(1) IH in auto)
qed simp

lemma ipv6_finish_length:
  "length (fst r) \<le> 8 \<Longrightarrow> ipv6_finish s0 r = Inr gs \<Longrightarrow> length gs = 8"
  by (auto simp: ipv6_finish_def split: prod.splits if_splits option.splits)

lemma length_ungroup [simp]: "length (ungroup gs) = 2 * length gs"
  by (induction gs) auto

lemma parseIPv6_wf: "parseIPv6 s = Inr a \<Longrightarrow> wf_addr a \<and> addr_valid a"
proof -
  assume p: "parseIPv6 s = Inr a"
  show ?thesis
  proof (cases "\<exists>z. a = A6 (replicate 16 0) z")
    case True
    then show ?thesis by auto
  next
    case False
    with p obtain ell s' r gs z where
      l: "ipv6_loop s 8 [] ell s' = Inr r" and f: "ipv6_finish s r = Inr gs" and a: "a = A6 (ungroup gs) z"
      unfolding parseIPv6_def Let_def
      by (auto simp del: ipv6_loop.simps split: if_splits sum.splits)
    have "length (fst r) \<le> 8"
      using l ipv6_loop_length [of 8 "[]" s ell s' "fst r" "fst (snd r)" "snd (snd r)"] by simp
    then have "length gs = 8" using f by (rule ipv6_finish_length)
    with a show ?thesis by simp
  qed
qed

lemma parseAddr_wf: "parseAddr s = Inr a \<Longrightarrow> wf_addr a \<and> addr_valid a"
  using ipv4_fields_length [of "[]" s 0 0 s]
  by (auto simp: parseAddr_def parseIPv4_def dest: parseIPv6_wf
      split: list.splits if_splits sum.splits)

lemma parseIP_length: "parseIP s = Some ip \<Longrightarrow> length ip = 16"
proof -
  assume p: "parseIP s = Some ip"
  then obtain a where a: "parseAddr s = Inr a" "ip = addr_as16 a"
    by (auto simp: parseIP_def split: sum.splits if_splits)
  with parseAddr_wf [OF a(1)] show ?thesis by (cases a) auto
qed

end
