(* ===== verification/Conn.thy ===== *)
theory Conn
  imports GoNet
begin

text \<open>
  Network connections as the program sees them: a heap of \<open>net.Conn\<close> values addressed by
  number, the operations \<open>Write\<close>, \<open>io.ReadFull\<close>, \<open>Read\<close> of a datagram, \<open>SetDeadline\<close> and
  \<open>Close\<close>, and the \<open>Dialer\<close> interface of \<open>socks5.go\<close> with the contract its clients rely on.

  What the peer and the kernel will do is part of the state: a connection carries the bytes
  that will arrive and the error after them, and how many writes will succeed; the network
  carries the outcomes of the dials to come. A theorem for all such states is a theorem
  for every behaviour of the environment.
\<close>

section \<open>Connections\<close>

datatype deadline = NoDeadline | AtTime int | InSeconds nat

record conn =
  rx :: bytes \<comment> \<open>stream bytes still to arrive\<close>
  rxErr :: goerr \<comment> \<open>what \<open>Read\<close> returns once they are consumed\<close>
  dgrams :: "bytes list" \<comment> \<open>datagrams still to arrive, on a UDP connection\<close>
  tx :: "bytes list" \<comment> \<open>what was written, one entry per \<open>Write\<close>\<close>
  wrLeft :: nat \<comment> \<open>writes that will succeed before \<open>wrErr\<close>\<close>
  wrErr :: goerr
  wrCap :: "nat option" \<comment> \<open>bytes accepted by one write, if limited\<close>
  finSent :: bool \<comment> \<open>\<open>CloseWrite\<close> was called\<close>
  isClosed :: bool
  dline :: deadline

record net =
  heap :: "conn list"
  script :: "(goerr + conn) list" \<comment> \<open>outcomes of the dials to come\<close>
  dialed :: "(string \<times> string) list" \<comment> \<open>network and address of the dials made\<close>

definition upd :: "nat \<Rightarrow> (conn \<Rightarrow> conn) \<Rightarrow> net \<Rightarrow> net" where
  "upd i f s = s\<lparr>heap := (heap s)[i := f (heap s ! i)]\<rparr>"

definition c_close :: "nat \<Rightarrow> net \<Rightarrow> net" where
  "c_close i = upd i (\<lambda>c. c\<lparr>isClosed := True\<rparr>)"

definition c_setDeadline :: "nat \<Rightarrow> deadline \<Rightarrow> net \<Rightarrow> net" where
  "c_setDeadline i d = upd i (\<lambda>c. c\<lparr>dline := d\<rparr>)"

text \<open>\<open>Write\<close> returns the number of bytes written.\<close>

definition c_write :: "nat \<Rightarrow> bytes \<Rightarrow> (net, nat) sem" where
  "c_write i b = (\<lambda>s. let c = heap s ! i in
     if isClosed c then (Inl ErrClosed, s)
     else if wrLeft c = 0 then (Inl (wrErr c), s)
     else let n = (case wrCap c of None \<Rightarrow> length b | Some k \<Rightarrow> min k (length b))
          in (Inr n, upd i (\<lambda>c. c\<lparr>tx := tx c @ [take n b], wrLeft := wrLeft c - 1\<rparr>) s))"

text \<open>
  \<open>io.ReadFull(c, buf)\<close> with \<open>len(buf) = n\<close>: an early end is \<open>EOF\<close> only when nothing was
  read, else \<open>ErrUnexpectedEOF\<close>; the bytes that did arrive are consumed.
\<close>

definition readFull_err :: "conn \<Rightarrow> goerr" where
  "readFull_err c = (if rx c \<noteq> [] \<and> rxErr c = EOF then ErrUnexpectedEOF else rxErr c)"

definition c_readFull :: "nat \<Rightarrow> nat \<Rightarrow> (net, bytes) sem" where
  "c_readFull i n = (\<lambda>s. let c = heap s ! i in
     if n = 0 then (Inr [], s)
     else if isClosed c then (Inl ErrClosed, s)
     else if n \<le> length (rx c)
     then (Inr (take n (rx c)), upd i (\<lambda>c. c\<lparr>rx := drop n (rx c)\<rparr>) s)
     else (Inl (readFull_err c), upd i (\<lambda>c. c\<lparr>rx := []\<rparr>) s))"

text \<open>\<open>Read\<close> on a UDP connection: one datagram, cut to the size of the buffer.\<close>

definition c_readDgram :: "nat \<Rightarrow> nat \<Rightarrow> (net, bytes) sem" where
  "c_readDgram i cap = (\<lambda>s. let c = heap s ! i in
     if isClosed c then (Inl ErrClosed, s)
     else case dgrams c of
       [] \<Rightarrow> (Inl (rxErr c), s)
     | d # ds \<Rightarrow> (Inr (take cap d), upd i (\<lambda>c. c\<lparr>dgrams := ds\<rparr>) s))"

definition c_closeWrite :: "nat \<Rightarrow> net \<Rightarrow> net" where
  "c_closeWrite i = upd i (\<lambda>c. c\<lparr>finSent := True\<rparr>)"

text \<open>
  \<open>io.Copy(dst, src)\<close>: what arrives on \<open>src\<close> until it ends is written to \<open>dst\<close>, in pieces the
  kernel chooses (\<open>chunks\<close>), until a write fails.
\<close>

fun copyChunks :: "nat \<Rightarrow> bytes list \<Rightarrow> net \<Rightarrow> net" where
  "copyChunks dst [] s = s"
| "copyChunks dst (b # bs) s = (case c_write dst b s of (Inl e, s') \<Rightarrow> s' | (Inr n, s') \<Rightarrow> copyChunks dst bs s')"

definition c_copy :: "(bytes \<Rightarrow> bytes list) \<Rightarrow> nat \<Rightarrow> nat \<Rightarrow> net \<Rightarrow> net" where
  "c_copy chunks dst src s =
     (if isClosed (heap s ! src) then s
      else copyChunks dst (chunks (rx (heap s ! src))) (upd src (\<lambda>c. c\<lparr>rx := []\<rparr>) s))"

section \<open>Dialing\<close>

text \<open>\<open>net.Dialer.DialContext\<close>: the next scripted outcome; a connection starts open.\<close>

definition netDial :: "string \<Rightarrow> string \<Rightarrow> (net, nat) sem" where
  "netDial network address = (\<lambda>s.
     let s = s\<lparr>dialed := dialed s @ [(network, address)]\<rparr>
     in case script s of
          [] \<Rightarrow> (Inl (ExtErr ''network unreachable''), s)
        | Inl e # r \<Rightarrow> (Inl e, s\<lparr>script := r\<rparr>)
        | Inr c # r \<Rightarrow>
            (Inr (length (heap s)),
             s\<lparr>script := r, heap := heap s @ [c\<lparr>isClosed := False, dline := NoDeadline\<rparr>]\<rparr>))"

section \<open>What an operation may touch\<close>

text \<open>
  \<open>only i s s'\<close>: between \<open>s\<close> and \<open>s'\<close> at most connection \<open>i\<close> changed.
\<close>

definition only :: "nat \<Rightarrow> net \<Rightarrow> net \<Rightarrow> bool" where
  "only i s s' \<longleftrightarrow> length (heap s') = length (heap s) \<and> script s' = script s \<and> dialed s' = dialed s \<and>
     (\<forall>j. j \<noteq> i \<longrightarrow> heap s' ! j = heap s ! j)"

text \<open>
  \<open>fresh_only s s'\<close>: the connections that existed before are untouched and there may be
  new ones.
\<close>

definition fresh_only :: "net \<Rightarrow> net \<Rightarrow> bool" where
  "fresh_only s s' \<longleftrightarrow> length (heap s) \<le> length (heap s') \<and>
     (\<forall>j < length (heap s). heap s' ! j = heap s ! j)"

text \<open>\<open>new_closed s s' keep\<close>: every connection made since \<open>s\<close> is closed, but for those in \<open>keep\<close>.\<close>

definition new_closed :: "net \<Rightarrow> net \<Rightarrow> nat set \<Rightarrow> bool" where
  "new_closed s s' keep \<longleftrightarrow>
     (\<forall>j. length (heap s) \<le> j \<and> j < length (heap s') \<and> j \<notin> keep \<longrightarrow> isClosed (heap s' ! j))"

definition live :: "net \<Rightarrow> nat \<Rightarrow> bool" where
  "live s i \<longleftrightarrow> i < length (heap s) \<and> \<not> isClosed (heap s ! i) \<and> dline (heap s ! i) = NoDeadline"

lemma reflp_only [simp]: "reflp (only i)"
  by (simp add: only_def reflp_def)

lemma transp_only [simp]: "transp (only i)"
  by (auto simp: only_def transp_def)

lemma only_refl [simp]: "only i s s"
  by (simp add: only_def)

lemma only_trans: "only i s t \<Longrightarrow> only i t u \<Longrightarrow> only i s u"
  using transp_only by (rule transpD)

lemma upd_only [simp]: "only i s (upd i f s)"
  by (simp add: only_def upd_def)

lemma heap_upd [simp]: "i < length (heap s) \<Longrightarrow> heap (upd i f s) ! i = f (heap s ! i)"
  by (simp add: upd_def)

lemma length_heap_upd [simp]: "length (heap (upd i f s)) = length (heap s)"
  by (simp add: upd_def)

lemma heap_upd_other [simp]: "i \<noteq> j \<Longrightarrow> heap (upd i f s) ! j = heap s ! j"
  by (simp add: upd_def)

lemma script_upd [simp]: "script (upd i f s) = script s" "dialed (upd i f s) = dialed s"
  by (simp_all add: upd_def)

lemma keeps_only_close: "only i s (c_close i s)"
  by (simp add: c_close_def)

lemma keeps_only_deadline: "only i s (c_setDeadline i d s)"
  by (simp add: c_setDeadline_def)

lemma keeps_only_write: "keeps (only i) (c_write i b)"
  by (rule keepsI) (simp add: c_write_def Let_def)

lemma keeps_only_readFull: "keeps (only i) (c_readFull i n)"
  by (rule keepsI) (simp add: c_readFull_def Let_def)

lemma keeps_only_readDgram: "keeps (only i) (c_readDgram i n)"
  by (rule keepsI) (simp add: c_readDgram_def Let_def split: list.split)

lemmas keeps_only = keeps_only_write keeps_only_readFull keeps_only_readDgram
  keeps_ret keeps_throw keeps_liftE keeps_andThen

lemma fresh_only_refl [simp]: "fresh_only s s"
  by (simp add: fresh_only_def)

lemma fresh_only_trans: "fresh_only s t \<Longrightarrow> fresh_only t u \<Longrightarrow> fresh_only s u"
  unfolding fresh_only_def by (metis order.strict_trans2 order_trans)

lemma fresh_only_only: "fresh_only s t \<Longrightarrow> only i t u \<Longrightarrow> length (heap s) \<le> i \<Longrightarrow> fresh_only s u"
  unfolding fresh_only_def only_def by auto

lemma new_closed_only:
  "new_closed s t {i} \<Longrightarrow> only i t u \<Longrightarrow> new_closed s u {i}"
  unfolding new_closed_def only_def by auto

lemma new_closed_close:
  "new_closed s t {i} \<Longrightarrow> i < length (heap t) \<Longrightarrow> new_closed s (c_close i t) {}"
  by (auto simp: new_closed_def c_close_def upd_def nth_list_update)

lemma isClosed_close [simp]: "i < length (heap s) \<Longrightarrow> isClosed (heap (c_close i s) ! i)"
  by (simp add: c_close_def)

lemma isClosed_close_iff:
  "j < length (heap s) \<Longrightarrow> isClosed (heap (c_close i s) ! j) \<longleftrightarrow> j = i \<or> isClosed (heap s ! j)"
  by (cases "i = j") (auto simp: c_close_def)

lemma length_close [simp]: "length (heap (c_close i s)) = length (heap s)"
  by (simp add: c_close_def)

lemma new_closed_trans:
  "new_closed n0 n {} \<Longrightarrow> fresh_only n n' \<Longrightarrow> new_closed n n' K \<Longrightarrow> new_closed n0 n' K"
  unfolding new_closed_def fresh_only_def by (metis empty_iff leI)

section \<open>The Dialer contract\<close>

text \<open>
  What \<open>Socks5Client\<close> and \<open>TCPBind\<close> rely on from a \<open>Dialer\<close>: connections that existed are
  left alone; a success is a new connection, open and without a deadline, and it is the
  only new one left open; after an error every connection opened on the way is closed.
\<close>

locale dialer =
  fixes dial :: "string \<Rightarrow> string \<Rightarrow> (net, nat) sem"
  assumes dial_frame: "dial nw a s = (r, s') \<Longrightarrow> fresh_only s s'"
    and dial_live: "dial nw a s = (Inr i, s') \<Longrightarrow> length (heap s) \<le> i \<and> live s' i"
    and dial_closed: "dial nw a s = (Inr i, s') \<Longrightarrow> new_closed s s' {i}"
    and dial_err_closed: "dial nw a s = (Inl e, s') \<Longrightarrow> new_closed s s' {}"
begin

lemma dial_valid: "dial nw a s = (Inr i, s') \<Longrightarrow> i < length (heap s')"
  by (drule dial_live) (simp add: live_def)

text \<open>A client that only uses the connection it dialed keeps the frame.\<close>

lemma dial_then_only:
  assumes "dial nw a s = (Inr i, t)" "only i t u"
  shows "fresh_only s u" "new_closed s u {i}" "i < length (heap u)" "length (heap s) \<le> i"
proof -
  have f: "fresh_only s t" and i: "length (heap s) \<le> i" "live t i" and n: "new_closed s t {i}"
    using assms(1) dial_frame dial_live dial_closed by blast+
  show "fresh_only s u" by (rule fresh_only_only [OF f assms(2) i(1)])
  show "new_closed s u {i}" by (rule new_closed_only [OF n assms(2)])
  show "i < length (heap u)" using i(2) assms(2) by (simp add: live_def only_def)
  show "length (heap s) \<le> i" by (fact i(1))
qed

end

interpretation direct: dialer netDial
proof unfold_locales
  fix nw a s r s'
  assume "netDial nw a s = (r, s')"
  then show "fresh_only s s'"
    by (auto simp: netDial_def Let_def fresh_only_def nth_append split: list.splits sum.splits)
next
  fix nw a s i s'
  assume "netDial nw a s = (Inr i, s')"
  then show "length (heap s) \<le> i \<and> live s' i"
    by (auto simp: netDial_def Let_def live_def split: list.splits sum.splits)
next
  fix nw a s i s'
  assume "netDial nw a s = (Inr i, s')"
  then show "new_closed s s' {i}"
    by (auto simp: netDial_def Let_def new_closed_def split: list.splits sum.splits)
next
  fix nw a s e s'
  assume "netDial nw a s = (Inl e, s')"
  then show "new_closed s s' {}"
    by (auto simp: netDial_def Let_def new_closed_def split: list.splits sum.splits)
qed


section \<open>Reading a stream\<close>

definition readable :: "net \<Rightarrow> nat \<Rightarrow> bool" where
  "readable s i \<longleftrightarrow> i < length (heap s) \<and> \<not> isClosed (heap s ! i)"

definition setRx :: "nat \<Rightarrow> bytes \<Rightarrow> net \<Rightarrow> net" where
  "setRx i b = upd i (\<lambda>c. c\<lparr>rx := b\<rparr>)"

lemma readable_setRx [simp]: "readable (setRx i b s) i = readable s i"
  by (auto simp: readable_def setRx_def upd_def)

lemma rx_setRx [simp]: "readable s i \<Longrightarrow> rx (heap (setRx i b s) ! i) = b"
  by (simp add: readable_def setRx_def)

lemma setRx_setRx [simp]: "setRx i b (setRx i a s) = setRx i b s"
  by (cases "i < length (heap s)") (simp_all add: setRx_def upd_def list_update_beyond)

lemma setRx_id: "readable s i \<Longrightarrow> rx (heap s ! i) = b \<Longrightarrow> setRx i b s = s"
proof -
  assume "readable s i" "rx (heap s ! i) = b"
  then have "(heap s ! i)\<lparr>rx := b\<rparr> = heap s ! i" by simp
  then show ?thesis by (simp add: setRx_def upd_def)
qed

lemma only_setRx [simp]: "only i s (setRx i b s)"
  by (simp add: setRx_def)

lemma readFull_append:
  assumes "readable s i" "rx (heap s ! i) = a @ b" "length a = n"
  shows "c_readFull i n s = (Inr a, setRx i b s)"
proof (cases "n = 0")
  case True
  with assms show ?thesis by (simp add: c_readFull_def setRx_id)
next
  case False
  with assms have "upd i (\<lambda>c. c\<lparr>rx := drop n (rx c)\<rparr>) s = setRx i b s"
    by (simp add: upd_def setRx_def readable_def)
  with False assms show ?thesis by (simp add: c_readFull_def readable_def Let_def)
qed

lemma readFull_InrE:
  assumes "c_readFull i n s = (Inr a, s')" "readable s i"
  obtains b where "rx (heap s ! i) = a @ b" "length a = n" "s' = setRx i b s"
proof (cases "n \<le> length (rx (heap s ! i))")
  case True
  then have r: "rx (heap s ! i) = take n (rx (heap s ! i)) @ drop n (rx (heap s ! i))"
    "length (take n (rx (heap s ! i))) = n" by simp_all
  from readFull_append [OF assms(2) r] assms(1)
  have "a = take n (rx (heap s ! i))" "s' = setRx i (drop n (rx (heap s ! i))) s" by simp_all
  with r show ?thesis by (intro that [of "drop n (rx (heap s ! i))"]) simp_all
next
  case False
  with assms show ?thesis by (auto simp: c_readFull_def readable_def Let_def split: if_splits)
qed

text \<open>A read that finds too few bytes fails, and says so.\<close>

lemma readFull_short:
  assumes "readable s i" "length (rx (heap s ! i)) < n"
  shows "c_readFull i n s = (Inl (readFull_err (heap s ! i)), setRx i [] s)"
  using assms by (auto simp: c_readFull_def readable_def Let_def setRx_def)

text \<open>A write on an open connection that takes whole buffers.\<close>

definition writable :: "net \<Rightarrow> nat \<Rightarrow> nat \<Rightarrow> bool" where
  "writable s i k \<longleftrightarrow> readable s i \<and> k \<le> wrLeft (heap s ! i) \<and> wrCap (heap s ! i) = None"

definition putTx :: "nat \<Rightarrow> bytes \<Rightarrow> net \<Rightarrow> net" where
  "putTx i b = upd i (\<lambda>c. c\<lparr>tx := tx c @ [b], wrLeft := wrLeft c - 1\<rparr>)"

lemma write_putTx: "writable s i (Suc k) \<Longrightarrow> c_write i b s = (Inr (length b), putTx i b s)"
  by (auto simp: c_write_def writable_def readable_def putTx_def Let_def)

lemma writable_putTx: "writable s i (Suc k) \<Longrightarrow> writable (putTx i b s) i k"
  by (auto simp: writable_def readable_def putTx_def upd_def)

lemma writable_setRx [simp]: "writable (setRx i b s) i k = writable s i k"
  by (auto simp: writable_def readable_def setRx_def upd_def nth_list_update)

lemma writable_readable: "writable s i k \<Longrightarrow> readable s i"
  by (simp add: writable_def)

lemma readable_putTx [simp]: "readable (putTx i b s) i = readable s i"
  by (auto simp: readable_def putTx_def upd_def)

lemma rx_putTx [simp]: "readable s i \<Longrightarrow> rx (heap (putTx i b s) ! i) = rx (heap s ! i)"
  by (simp add: readable_def putTx_def)

lemma tx_putTx [simp]: "readable s i \<Longrightarrow> tx (heap (putTx i b s) ! i) = tx (heap s ! i) @ [b]"
  by (simp add: readable_def putTx_def)

lemma tx_setRx [simp]: "readable s i \<Longrightarrow> tx (heap (setRx i b s) ! i) = tx (heap s ! i)"
  by (simp add: readable_def setRx_def)

section \<open>Self-delimiting messages\<close>

text \<open>A call made \<open>n\<close> times, with what it returned each time.\<close>

primrec times :: "nat \<Rightarrow> ('s \<Rightarrow> 'o \<times> 's) \<Rightarrow> 's \<Rightarrow> 'o list \<times> 's" where
  "times 0 m s = ([], s)"
| "times (Suc n) m s = (let (r, s) = m s; (rs, s) = times n m s in (r # rs, s))"

text \<open>
  A reader of one kind of message on a stream: it returns the message at the head of the
  stream and leaves the stream at the byte after it. Messages sent one after the other are
  then received one after the other.
\<close>

locale stream_codec =
  fixes enc :: "'a \<Rightarrow> bytes"
    and good :: "'a \<Rightarrow> bool"
    and recv1 :: "'s \<Rightarrow> 'o \<times> 's"
    and got :: "'a \<Rightarrow> 'o"
    and ready :: "'s \<Rightarrow> bool"
    and pending :: "'s \<Rightarrow> bytes"
    and setPending :: "bytes \<Rightarrow> 's \<Rightarrow> 's"
  assumes recv_enc: "ready s \<Longrightarrow> good x \<Longrightarrow> pending s = enc x @ r \<Longrightarrow> recv1 s = (got x, setPending r s)"
    and ready_set: "ready s \<Longrightarrow> ready (setPending r s)"
    and pending_set: "ready s \<Longrightarrow> pending (setPending r s) = r"
    and set_set: "setPending r (setPending q s) = setPending r s"
    and set_id: "ready s \<Longrightarrow> setPending (pending s) s = s"
begin

lemma recvs_stream:
  assumes "ready s" "list_all good xs" "pending s = concat (map enc xs) @ r"
  shows "times (length xs) recv1 s = (map got xs, setPending r s)"
  using assms
proof (induction xs arbitrary: s)
  case Nil
  then show ?case using set_id [of s] by simp
next
  case (Cons x xs)
  let ?t = "setPending (concat (map enc xs) @ r) s"
  have "recv1 s = (got x, ?t)" using Cons.prems by (intro recv_enc) simp_all
  moreover have "times (length xs) recv1 ?t = (map got xs, setPending r ?t)"
    using Cons.prems by (intro Cons.IH) (simp_all add: ready_set pending_set)
  ultimately show ?case by (simp add: set_set)
qed

end

end
