(* ===== verification/Socks5.thy ===== *)
theory Socks5
  imports Conn
begin

text \<open>
  \<open>socks5.go\<close>: the SOCKS5 client. The wire format of greeting, request and reply, the
  client's \<open>DialContext\<close> (CONNECT) and \<open>UDPAssociate\<close>, and the UDP relay session with its
  request header (\<open>WriteTo\<close>, \<open>WriteToHost\<close>, \<open>ReadFrom\<close>). The lemmas give the wire grammar
  that the readers accept, exactly; the round trips; and that the client is itself a
  \<open>Dialer\<close>: it leaks no connection on any path.
\<close>

section \<open>Constants\<close>

definition socks5Version :: byte where "socks5Version = 0x05"
definition socks5MethodNoAuth :: byte where "socks5MethodNoAuth = 0x00"
definition socks5CmdConnect :: byte where "socks5CmdConnect = 0x01"
definition socks5CmdUDPAssociate :: byte where "socks5CmdUDPAssociate = 0x03"
definition socks5AddrIPv4 :: byte where "socks5AddrIPv4 = 0x01"
definition socks5AddrDomain :: byte where "socks5AddrDomain = 0x03"
definition socks5AddrIPv6 :: byte where "socks5AddrIPv6 = 0x04"
definition socks5RepSuccess :: byte where "socks5RepSuccess = 0x00"

lemmas socks5_consts = socks5Version_def socks5MethodNoAuth_def socks5CmdConnect_def
  socks5CmdUDPAssociate_def socks5AddrIPv4_def socks5AddrDomain_def socks5AddrIPv6_def
  socks5RepSuccess_def

section \<open>Greeting, request, reply\<close>

definition socks5Greet :: "nat \<Rightarrow> (net, unit) sem" where
  "socks5Greet c =
     andThen (c_write c [socks5Version, 1, socks5MethodNoAuth]) (\<lambda>_.
     andThen (c_readFull c 2) (\<lambda>resp.
     if resp ! 0 \<noteq> socks5Version
     then throw (Errorf ''socks5 greet: bad version %d'' [AInt (uint (resp ! 0))])
     else if resp ! 1 \<noteq> socks5MethodNoAuth
     then throw (Errorf ''socks5 greet: server requires auth method %d'' [AInt (uint (resp ! 1))])
     else ret ()))"

text \<open>The buffer \<open>socks5WriteRequest\<close> builds, from the command byte to the port.\<close>

definition request_bytes :: "byte \<Rightarrow> string \<Rightarrow> uint16 \<Rightarrow> goerr + bytes" where
  "request_bytes cmd host port =
     (let buf = [socks5Version, cmd, 0x00]
      in case parseIP host of
           Some ip \<Rightarrow>
             (case ip_to4 ip of
                Some v4 \<Rightarrow> Inr (buf @ [socks5AddrIPv4] @ v4 @ be16_put port)
              | None \<Rightarrow> Inr (buf @ [socks5AddrIPv6] @ ip_to16 ip @ be16_put port))
         | None \<Rightarrow>
             if length host > 255 then Inl (Errorf ''socks5: domain too long'' [])
             else Inr (buf @ [socks5AddrDomain, word_of_nat (length host)] @ str_bytes host @
                       be16_put port))"

definition socks5WriteRequest :: "nat \<Rightarrow> byte \<Rightarrow> string \<Rightarrow> uint16 \<Rightarrow> (net, unit) sem" where
  "socks5WriteRequest c cmd host port =
     andThen (liftE (request_bytes cmd host port)) (\<lambda>buf.
     andThen (c_write c buf) (\<lambda>_. ret ()))"

text \<open>
  The \<open>switch\<close> on the address type, shared by \<open>socks5ReadReply\<close> and the proxy's
  \<open>readSocks5Addr\<close>; they differ in the error for an unknown type.
\<close>

definition readAddr :: "nat \<Rightarrow> byte \<Rightarrow> goerr \<Rightarrow> (net, string) sem" where
  "readAddr c atyp unknown =
     (if atyp = socks5AddrIPv4 then andThen (c_readFull c 4) (\<lambda>b. ret (ip_string b))
      else if atyp = socks5AddrIPv6 then andThen (c_readFull c 16) (\<lambda>b. ret (ip_string b))
      else if atyp = socks5AddrDomain then
        andThen (c_readFull c 1) (\<lambda>l.
        andThen (c_readFull c (unat (l ! 0))) (\<lambda>dom. ret (bytes_str dom)))
      else throw unknown)"

definition socks5ReadReply :: "nat \<Rightarrow> (net, string \<times> uint16) sem" where
  "socks5ReadReply c =
     andThen (c_readFull c 4) (\<lambda>head.
     if head ! 0 \<noteq> socks5Version
     then throw (Errorf ''socks5 reply: bad version %d'' [AInt (uint (head ! 0))])
     else if head ! 1 \<noteq> socks5RepSuccess
     then throw (Errorf ''socks5 reply: error code %d'' [AInt (uint (head ! 1))])
     else
       andThen (readAddr c (head ! 3)
                  (Errorf ''socks5 reply: unknown atyp %d'' [AInt (uint (head ! 3))])) (\<lambda>addr.
       andThen (c_readFull c 2) (\<lambda>pb. ret (addr, be16_get pb))))"

section \<open>The client\<close>

text \<open>\<open>ctx.Deadline()\<close> if the context has one, else 30 seconds from now.\<close>

definition handshakeDeadline :: "int option \<Rightarrow> deadline" where
  "handshakeDeadline ctx = (case ctx of Some d \<Rightarrow> AtTime d | None \<Rightarrow> InSeconds 30)"

record socks5_client =
  serverAddr :: string
  base :: "string \<Rightarrow> string \<Rightarrow> (net, nat) sem"

definition dialContext ::
    "(string \<Rightarrow> string \<Rightarrow> (net, nat) sem) \<Rightarrow> string \<Rightarrow> int option \<Rightarrow> string \<Rightarrow> string \<Rightarrow> (net, nat) sem" where
  "dialContext dial server ctx network address =
     (if network \<notin> {''tcp'', ''tcp4'', ''tcp6''}
      then throw (Errorf ''socks5 dial: unsupported network %q'' [AStr network])
      else
        andThen (liftE (splitHostPort address)) (\<lambda>(host, portStr).
        andThen (liftE (parseUint16 portStr)) (\<lambda>port.
        andThen (onErr (dial ''tcp'' server) id (Wrapf ''dial socks5 %s: %w'' [AStr server])) (\<lambda>conn.
        andThen (modS (c_setDeadline conn (handshakeDeadline ctx))) (\<lambda>_.
        andThen (onErr (socks5Greet conn) (c_close conn) id) (\<lambda>_.
        andThen (onErr (socks5WriteRequest conn socks5CmdConnect host (word_of_nat port))
                   (c_close conn) id) (\<lambda>_.
        andThen (onErr (socks5ReadReply conn) (c_close conn) id) (\<lambda>_.
        andThen (modS (c_setDeadline conn NoDeadline)) (\<lambda>_.
        ret conn)))))))))"

text \<open>\<open>Socks5UDPSession\<close>: the control connection and the UDP connection to the relay.\<close>

record udp_session =
  ctrlC :: nat
  connC :: nat

definition relayHost :: "string \<Rightarrow> string \<Rightarrow> string" where
  "relayHost server addr =
     (if addr = '''' \<or> addr = ''0.0.0.0'' \<or> addr = ''::'' \<or> addr = ''::0''
      then (case splitHostPort server of Inl _ \<Rightarrow> '''' | Inr (host, _) \<Rightarrow> host)
      else addr)"

definition udpAssociate ::
    "(string \<Rightarrow> string \<Rightarrow> (net, nat) sem) \<Rightarrow> string \<Rightarrow> int option \<Rightarrow> (net, udp_session) sem" where
  "udpAssociate dial server ctx =
     andThen (onErr (dial ''tcp'' server) id (Wrapf ''dial socks5 %s: %w'' [AStr server])) (\<lambda>ctrl.
     andThen (modS (c_setDeadline ctrl (handshakeDeadline ctx))) (\<lambda>_.
     andThen (onErr (socks5Greet ctrl) (c_close ctrl) id) (\<lambda>_.
     andThen (onErr (socks5WriteRequest ctrl socks5CmdUDPAssociate ''0.0.0.0'' 0) (c_close ctrl) id) (\<lambda>_.
     andThen (onErr (socks5ReadReply ctrl) (c_close ctrl) id) (\<lambda>(addr, port).
     andThen (modS (c_setDeadline ctrl NoDeadline)) (\<lambda>_.
     let relay = joinHostPort (relayHost server addr) (formatUint (unat port)) in
     andThen (onErr (dial ''udp'' relay) (c_close ctrl)
                (Wrapf ''dial socks5 udp %s: %w'' [AStr relay])) (\<lambda>udp.
     ret \<lparr>ctrlC = ctrl, connC = udp\<rparr>)))))))"

definition session_close :: "udp_session \<Rightarrow> net \<Rightarrow> net" where
  "session_close u s = c_close (ctrlC u) (c_close (connC u) s)"

section \<open>The UDP relay session\<close>

definition udp_header :: "string \<Rightarrow> uint16 \<Rightarrow> goerr + bytes" where
  "udp_header host port =
     (let hdr = [0x00, 0x00, 0x00]
      in case parseAddr host of
           Inr ip \<Rightarrow>
             (case ip of
                A4 b \<Rightarrow> Inr (hdr @ [socks5AddrIPv4] @ b @ be16_put port)
              | _ \<Rightarrow> Inr (hdr @ [socks5AddrIPv6] @ addr_as16 ip @ be16_put port))
         | Inl _ \<Rightarrow>
             if length host > 255 then Inl (Errorf ''socks5: domain too long'' [])
             else Inr (hdr @ [socks5AddrDomain, word_of_nat (length host)] @ str_bytes host @
                       be16_put port))"

definition writeToHost :: "udp_session \<Rightarrow> bytes \<Rightarrow> string \<Rightarrow> uint16 \<Rightarrow> (net, nat) sem" where
  "writeToHost u p host port =
     andThen (liftE (udp_header host port)) (\<lambda>hdr.
     andThen (c_write (connC u) (hdr @ p)) (\<lambda>n.
     if n < length (hdr @ p) then throw ErrShortWrite else ret (length p)))"

definition writeTo :: "udp_session \<Rightarrow> bytes \<Rightarrow> addrport \<Rightarrow> (net, nat) sem" where
  "writeTo u p dst = writeToHost u p (addr_string (fst dst)) (snd dst)"

text \<open>
  The decoding in \<open>ReadFrom\<close>, on the \<open>n\<close> bytes read into the buffer. The offsets are the
  source's; every index is below \<open>n\<close> (shown below).
\<close>

definition udp_rest :: "addr \<Rightarrow> nat \<Rightarrow> bytes \<Rightarrow> goerr + (addrport \<times> bytes)" where
  "udp_rest a off tmp = Inr ((a, be16_get (take 2 (drop off tmp))), drop (off + 2) tmp)"

definition udp_parse :: "bytes \<Rightarrow> goerr + (addrport \<times> bytes)" where
  "udp_parse tmp =
     (let n = length tmp
      in if n < 4 then Inl (Errorf ''socks5 udp: short header'' [])
         else if tmp ! 2 \<noteq> 0 then Inl (Errorf ''socks5 udp: fragmented packet not supported'' [])
         else if tmp ! 3 = socks5AddrIPv4 then
           if n < 4 + 4 + 2 then Inl (Errorf ''socks5 udp: short ipv4'' [])
           else udp_rest (A4 (take 4 (drop 4 tmp))) (4 + 4) tmp
         else if tmp ! 3 = socks5AddrIPv6 then
           if n < 4 + 16 + 2 then Inl (Errorf ''socks5 udp: short ipv6'' [])
           else udp_rest (A6 (take 16 (drop 4 tmp)) []) (4 + 16) tmp
         else if tmp ! 3 = socks5AddrDomain then
           if n < 4 + 1 then Inl (Errorf ''socks5 udp: short atyp domain'' [])
           else let l = unat (tmp ! 4)
                in if n < 5 + l + 2 then Inl (Errorf ''socks5 udp: short domain'' [])
                   else let host = bytes_str (take l (drop 5 tmp))
                        in (case parseAddr host of
                              Inl e \<Rightarrow> Inl (Errorf ''socks5 udp: domain reply not parseable: %s'' [AStr host])
                            | Inr ip \<Rightarrow> udp_rest ip (5 + l) tmp)
         else Inl (Errorf ''socks5 udp: unknown atyp %d'' [AInt (uint (tmp ! 3))]))"

definition readBufSize :: nat where "readBufSize = 65535 + 22"

text \<open>\<open>ReadFrom(buf)\<close>: the payload copied into \<open>buf\<close>, its length, the remote endpoint.\<close>

definition readFrom :: "udp_session \<Rightarrow> nat \<Rightarrow> (net, nat \<times> addrport \<times> bytes) sem" where
  "readFrom u buflen =
     andThen (c_readDgram (connC u) readBufSize) (\<lambda>tmp.
     andThen (liftE (udp_parse tmp)) (\<lambda>(src, payload).
     if length payload > buflen then throw ErrShortBuffer
     else ret (length payload, src, payload)))"


section \<open>The wire grammar\<close>

text \<open>
  The abstract form of a SOCKS5 address (RFC 1928, section 5) and its encoding, against
  which the readers and writers are measured.
\<close>

datatype saddr = SIP4 bytes | SIP6 bytes | SDomain string

fun wf_saddr :: "saddr \<Rightarrow> bool" where
  "wf_saddr (SIP4 b) = (length b = 4)"
| "wf_saddr (SIP6 b) = (length b = 16)"
| "wf_saddr (SDomain d) = (length d \<le> 255)"

fun saddr_type :: "saddr \<Rightarrow> byte" where
  "saddr_type (SIP4 b) = socks5AddrIPv4"
| "saddr_type (SIP6 b) = socks5AddrIPv6"
| "saddr_type (SDomain d) = socks5AddrDomain"

fun saddr_body :: "saddr \<Rightarrow> bytes" where
  "saddr_body (SIP4 b) = b"
| "saddr_body (SIP6 b) = b"
| "saddr_body (SDomain d) = word_of_nat (length d) # str_bytes d"

fun saddr_string :: "saddr \<Rightarrow> string" where
  "saddr_string (SIP4 b) = ip_string b"
| "saddr_string (SIP6 b) = ip_string b"
| "saddr_string (SDomain d) = d"

text \<open>The address a client's host string stands for: a literal, or a name.\<close>

definition host_saddr :: "string \<Rightarrow> saddr" where
  "host_saddr host =
     (case parseIP host of
        Some ip \<Rightarrow> (case ip_to4 ip of Some v4 \<Rightarrow> SIP4 v4 | None \<Rightarrow> SIP6 ip)
      | None \<Rightarrow> SDomain host)"

lemma atyp_distinct [simp]:
  "socks5AddrIPv4 \<noteq> socks5AddrIPv6" "socks5AddrIPv6 \<noteq> socks5AddrIPv4"
  "socks5AddrIPv4 \<noteq> socks5AddrDomain" "socks5AddrDomain \<noteq> socks5AddrIPv4"
  "socks5AddrIPv6 \<noteq> socks5AddrDomain" "socks5AddrDomain \<noteq> socks5AddrIPv6"
  by (simp_all add: socks5_consts)

lemma unat_length_byte [simp]: "n \<le> 255 \<Longrightarrow> unat (word_of_nat n :: byte) = n"
  by (simp add: unat_of_nat)

lemma readAddr_saddr:
  assumes "readable s i" "wf_saddr x" "rx (heap s ! i) = saddr_body x @ r"
  shows "readAddr i (saddr_type x) e s = (Inr (saddr_string x), setRx i r s)"
proof (cases x)
  case (SIP4 b)
  with assms show ?thesis
    by (simp add: readAddr_def readFull_append [of s i b r])
next
  case (SIP6 b)
  with assms show ?thesis
    by (simp add: readAddr_def readFull_append [of s i b r])
next
  case (SDomain d)
  let ?l = "word_of_nat (length d) :: byte"
  have "c_readFull i 1 s = (Inr [?l], setRx i (str_bytes d @ r) s)"
    using assms SDomain by (intro readFull_append) simp_all
  moreover have "c_readFull i (length d) (setRx i (str_bytes d @ r) s) =
      (Inr (str_bytes d), setRx i r (setRx i (str_bytes d @ r) s))"
    using assms SDomain by (intro readFull_append) simp_all
  ultimately show ?thesis
    using assms SDomain by (simp add: readAddr_def)
qed

lemma readAddr_InrE:
  assumes "readAddr i t e s = (Inr h, s')" "readable s i"
  obtains x r where "wf_saddr x" "t = saddr_type x" "h = saddr_string x"
    "rx (heap s ! i) = saddr_body x @ r" "s' = setRx i r s"
proof -
  consider "t = socks5AddrIPv4" | "t = socks5AddrIPv6" | "t = socks5AddrDomain"
    using assms(1) by (auto simp: readAddr_def split: if_splits)
  then show ?thesis
  proof cases
    case 1
    with assms obtain b where b: "c_readFull i 4 s = (Inr b, s')" "h = ip_string b"
      by (auto simp: readAddr_def elim!: andThen_InrE)
    from readFull_InrE [OF b(1) assms(2)] obtain r where
      "rx (heap s ! i) = b @ r" "length b = 4" "s' = setRx i r s" by blast
    with b 1 show ?thesis by (intro that [of "SIP4 b" r]) simp_all
  next
    case 2
    with assms obtain b where b: "c_readFull i 16 s = (Inr b, s')" "h = ip_string b"
      by (auto simp: readAddr_def elim!: andThen_InrE)
    from readFull_InrE [OF b(1) assms(2)] obtain r where
      "rx (heap s ! i) = b @ r" "length b = 16" "s' = setRx i r s" by blast
    with b 2 show ?thesis by (intro that [of "SIP6 b" r]) simp_all
  next
    case 3
    with assms obtain l t d where b: "c_readFull i 1 s = (Inr l, t)"
      "c_readFull i (unat (l ! 0)) t = (Inr d, s')" "h = bytes_str d"
      by (auto simp: readAddr_def elim!: andThen_InrE)
    from readFull_InrE [OF b(1) assms(2)] obtain r1 where
      r1: "rx (heap s ! i) = l @ r1" "length l = 1" "t = setRx i r1 s" by blast
    moreover from r1 assms(2) have "readable t i" by simp
    from readFull_InrE [OF b(2) this] obtain r where
      r: "rx (heap t ! i) = d @ r" "length d = unat (l ! 0)" "s' = setRx i r t" by blast
    moreover obtain l0 where l: "l = [l0]" using r1(2) by (cases l) auto
    moreover have "length d \<le> 255" using r(2) byte_le_255 by simp
    moreover have "word_of_nat (length d) = l0" using r(2) l by simp
    ultimately show ?thesis
      using b assms(2) 3 by (intro that [of "SDomain h" r]) (auto simp: comp_def)
  qed
qed

text \<open>A request is the encoding of the address its host stands for.\<close>

lemma wf_host_saddr: "length h \<le> 255 \<Longrightarrow> wf_saddr (host_saddr h)"
  by (auto simp: host_saddr_def parseIP_length ip_to4_length split: option.split)

lemma host_saddr_wf_iff: "wf_saddr (host_saddr h) \<longleftrightarrow> parseIP h \<noteq> None \<or> length h \<le> 255"
  by (auto simp: host_saddr_def parseIP_length ip_to4_length split: option.split)

lemma request_bytes_saddr:
  "request_bytes cmd host port =
     (if wf_saddr (host_saddr host)
      then Inr ([socks5Version, cmd, 0x00] @ saddr_type (host_saddr host) # saddr_body (host_saddr host) @ be16_put port)
      else Inl (Errorf ''socks5: domain too long'' []))"
proof (cases "parseIP host")
  case None
  then show ?thesis by (simp add: request_bytes_def host_saddr_def)
next
  case (Some ip)
  then have "ip_to16 ip = ip" by (simp add: ip_to16_def parseIP_length)
  with Some show ?thesis
    by (auto simp: request_bytes_def host_saddr_def ip_to4_length parseIP_length split: option.split)
qed

text \<open>
  Printing the address the request carries gives back the host, up to the normal form of
  an address literal: the two denote the same address.
\<close>

lemma saddr_string_host: "parseIP host = None \<Longrightarrow> saddr_string (host_saddr host) = host"
  by (simp add: host_saddr_def)

lemma saddr_string_host_ip:
  assumes "parseIP host = Some ip"
  shows "parseIP (saddr_string (host_saddr host)) = Some ip"
proof (cases "ip_to4 ip")
  case None
  with assms show ?thesis
    using parseIP_ip_string [of ip] parseIP_length [OF assms]
    by (simp add: host_saddr_def ip_to16_def)
next
  case (Some v4)
  then have "v4mapped v4 = ip"
    using parseIP_length [OF assms] by (auto simp: ip_to4_def is4in6_iff split: if_splits)
  then show ?thesis
    using assms Some parseIP_ip_string [of v4] ip_to4_length [OF Some]
    by (simp add: host_saddr_def ip_to16_def)
qed

section \<open>The reply reader and the grammar\<close>

definition reply_bytes :: "byte \<Rightarrow> saddr \<Rightarrow> uint16 \<Rightarrow> bytes" where
  "reply_bytes rsv x port = [socks5Version, socks5RepSuccess, rsv, saddr_type x] @ saddr_body x @ be16_put port"

lemma socks5ReadReply_reply:
  assumes "readable s i" "wf_saddr x" "rx (heap s ! i) = reply_bytes rsv x port @ r"
  shows "socks5ReadReply i s = (Inr (saddr_string x, port), setRx i r s)"
proof -
  let ?h = "[socks5Version, socks5RepSuccess, rsv, saddr_type x]"
  have 1: "c_readFull i 4 s = (Inr ?h, setRx i (saddr_body x @ be16_put port @ r) s)"
    using assms by (intro readFull_append) (simp_all add: reply_bytes_def)
  have 2: "readAddr i (saddr_type x) e (setRx i (saddr_body x @ be16_put port @ r) s) =
      (Inr (saddr_string x), setRx i (be16_put port @ r) (setRx i (saddr_body x @ be16_put port @ r) s))" for e
    using assms by (intro readAddr_saddr) simp_all
  have 3: "c_readFull i 2 (setRx i (be16_put port @ r) s) =
      (Inr (be16_put port), setRx i r (setRx i (be16_put port @ r) s))"
    using assms by (intro readFull_append) simp_all
  from 1 2 3 show ?thesis by (simp add: socks5ReadReply_def)
qed

lemma list_split4: "length h = 4 \<Longrightarrow> h = [h ! 0, h ! 1, h ! 2, h ! 3]"
  by (auto simp: length_Suc_conv numeral_eq_Suc)

lemma socks5ReadReply_InrE:
  assumes "socks5ReadReply i s = (Inr (h, port), s')" "readable s i"
  obtains x rsv r where "wf_saddr x" "h = saddr_string x"
    "rx (heap s ! i) = reply_bytes rsv x port @ r" "s' = setRx i r s"
proof -
  from assms(1) obtain hd1 t1 e t2 pb where
    1: "c_readFull i 4 s = (Inr hd1, t1)" and v: "hd1 ! 0 = socks5Version" "hd1 ! 1 = socks5RepSuccess"
    and 2: "readAddr i (hd1 ! 3) e t1 = (Inr h, t2)"
    and 3: "c_readFull i 2 t2 = (Inr pb, s')" and p: "port = be16_get pb"
    unfolding socks5ReadReply_def by (auto elim!: andThen_InrE split: if_splits)
  from readFull_InrE [OF 1 assms(2)] obtain r1 where
    r1: "rx (heap s ! i) = hd1 @ r1" "length hd1 = 4" "t1 = setRx i r1 s" by blast
  then have t1: "readable t1 i" using assms(2) by simp
  from readAddr_InrE [OF 2 t1] obtain x r2 where
    r2: "wf_saddr x" "hd1 ! 3 = saddr_type x" "h = saddr_string x" "rx (heap t1 ! i) = saddr_body x @ r2"
      "t2 = setRx i r2 t1" by blast
  then have t2: "readable t2 i" using t1 by simp
  from readFull_InrE [OF 3 t2] obtain r3 where
    r3: "rx (heap t2 ! i) = pb @ r3" "length pb = 2" "s' = setRx i r3 t2" by blast
  have "hd1 = [socks5Version, socks5RepSuccess, hd1 ! 2, saddr_type x]"
    using list_split4 [OF r1(2)] v r2(2) by simp
  moreover have "be16_put port = pb" using r3(2) p by (simp add: be16_put_get)
  ultimately have "rx (heap s ! i) = reply_bytes (hd1 ! 2) x port @ r3"
    using r1 r2 r3 t1 t2 assms(2) unfolding reply_bytes_def by (metis append.assoc rx_setRx)
  moreover have "s' = setRx i r3 s" using r1 r2 r3 by simp
  ultimately show ?thesis using r2 by (intro that [of x "hd1 ! 2" r3])
qed

text \<open>Replies delimit themselves, so a reader that is at one reply is then at the next.\<close>

interpretation replies: stream_codec
  "\<lambda>(rsv, x, p). reply_bytes rsv x p" "\<lambda>(rsv, x, p). wf_saddr x" "socks5ReadReply c"
  "\<lambda>(rsv, x, p). Inr (saddr_string x, p)" "\<lambda>s. readable s c" "\<lambda>s. rx (heap s ! c)" "setRx c" for c
  by unfold_locales (auto simp: socks5ReadReply_reply setRx_id)

section \<open>The client is a dialer\<close>

lemma keeps_only_greet: "keeps (only i) (socks5Greet i)"
  unfolding socks5Greet_def by (intro keeps_only transp_only) (auto intro!: keeps_only)

lemma keeps_only_request: "keeps (only i) (socks5WriteRequest i cmd h p)"
  unfolding socks5WriteRequest_def by (intro keeps_only transp_only reflp_only)

lemma keeps_only_readAddr: "keeps (only i) (readAddr i t e)"
  unfolding readAddr_def by (auto intro!: keeps_only)

lemma keeps_only_reply: "keeps (only i) (socks5ReadReply i)"
  unfolding socks5ReadReply_def by (auto intro!: keeps_only keeps_only_readAddr)

lemmas socks5_keeps = keeps_only_greet keeps_only_request keeps_only_reply

text \<open>
  The handshake on a dialed connection, as one step: whatever it does it does to that
  connection; it ends with the connection as it is (success) or closed (failure).
\<close>

definition handshake :: "nat \<Rightarrow> int option \<Rightarrow> byte \<Rightarrow> string \<Rightarrow> uint16 \<Rightarrow> (net, string \<times> uint16) sem" where
  "handshake c ctx cmd host port =
     andThen (modS (c_setDeadline c (handshakeDeadline ctx))) (\<lambda>_.
     andThen (onErr (socks5Greet c) (c_close c) id) (\<lambda>_.
     andThen (onErr (socks5WriteRequest c cmd host port) (c_close c) id) (\<lambda>_.
     andThen (onErr (socks5ReadReply c) (c_close c) id) (\<lambda>r.
     andThen (modS (c_setDeadline c NoDeadline)) (\<lambda>_. ret r)))))"

lemma dialContext_handshake:
  "dialContext dial server ctx network address =
     (if network \<notin> {''tcp'', ''tcp4'', ''tcp6''}
      then throw (Errorf ''socks5 dial: unsupported network %q'' [AStr network])
      else
        andThen (liftE (splitHostPort address)) (\<lambda>(host, portStr).
        andThen (liftE (parseUint16 portStr)) (\<lambda>port.
        andThen (onErr (dial ''tcp'' server) id (Wrapf ''dial socks5 %s: %w'' [AStr server])) (\<lambda>conn.
        andThen (handshake conn ctx socks5CmdConnect host (word_of_nat port)) (\<lambda>_. ret conn)))))"
  unfolding dialContext_def handshake_def andThen_assoc andThen_ret by (rule refl)

lemma keeps_only_handshake: "keeps (only c) (handshake c ctx cmd host port)"
  unfolding handshake_def
  by (intro keeps_andThen keeps_onErr keeps_modS socks5_keeps keeps_ret transp_only reflp_only
      keeps_only_close keeps_only_deadline)

lemma onErr_close_err:
  assumes "onErr m (c_close c) g s = (Inl e, t)" "keeps (only c) m" "c < length (heap s)"
  shows "isClosed (heap t ! c)"
proof -
  obtain e' u where u: "m s = (Inl e', u)" "t = c_close c u"
    using assms(1) by (blast elim: onErr_InlE)
  then have "length (heap u) = length (heap s)" using keepsD [OF assms(2)] by (simp add: only_def)
  with u assms(3) show ?thesis by simp
qed

lemma onErr_close_length:
  assumes "onErr m (c_close c) g s = (r, t)" "keeps (only c) m"
  shows "length (heap t) = length (heap s)"
  using keepsD [OF keeps_onErr [OF transp_only assms(2) keeps_only_close] assms(1)]
  by (simp add: only_def)

definition err_closes :: "nat \<Rightarrow> (net, 'a) sem \<Rightarrow> bool" where
  "err_closes c m \<longleftrightarrow> (\<forall>s e t. c < length (heap s) \<longrightarrow> m s = (Inl e, t) \<longrightarrow> isClosed (heap t ! c))"

lemma err_closes_andThen:
  assumes "err_closes c m" "keeps (only c) m" "\<And>x. err_closes c (f x)"
  shows "err_closes c (andThen m f)"
  unfolding err_closes_def
proof (intro allI impI)
  fix s e t
  assume s: "c < length (heap s)" and "andThen m f s = (Inl e, t)"
  then consider "m s = (Inl e, t)" | x s' where "m s = (Inr x, s')" "f x s' = (Inl e, t)"
    by (auto elim: andThen_InlE)
  then show "isClosed (heap t ! c)"
  proof cases
    case 1
    with assms(1) s show ?thesis by (auto simp: err_closes_def)
  next
    case 2
    with keepsD [OF assms(2) 2(1)] s have "c < length (heap s')" by (simp add: only_def)
    with 2 assms(3) show ?thesis by (auto simp: err_closes_def)
  qed
qed

lemma err_closes_onErr: "keeps (only c) m \<Longrightarrow> err_closes c (onErr m (c_close c) g)"
  by (auto simp: err_closes_def intro: onErr_close_err)

lemma err_closes_ok: "err_closes c (modS f)" "err_closes c (ret x)"
  by (simp_all add: err_closes_def)

lemma handshake_err_closes: "err_closes c (handshake c ctx cmd host port)"
  unfolding handshake_def
  by (intro err_closes_andThen err_closes_onErr err_closes_ok socks5_keeps keeps_onErr keeps_modS
      keeps_only_close keeps_only_deadline transp_only)

text \<open>The reads and writes of the handshake leave the connection open, so success does too.\<close>

definition same_open :: "nat \<Rightarrow> net \<Rightarrow> net \<Rightarrow> bool" where
  "same_open c s t \<longleftrightarrow> (c < length (heap s) \<longrightarrow> c < length (heap t) \<and> isClosed (heap t ! c) = isClosed (heap s ! c))"

lemma reflp_same_open: "reflp (same_open c)"
  by (simp add: same_open_def reflp_def)

lemma transp_same_open: "transp (same_open c)"
  by (auto simp: same_open_def transp_def)

lemma same_open_write: "keeps (same_open c) (c_write c b)"
  by (rule keepsI) (simp add: same_open_def c_write_def Let_def)

lemma same_open_readFull: "keeps (same_open c) (c_readFull c n)"
  by (rule keepsI) (simp add: same_open_def c_readFull_def Let_def)

lemmas same_open_rules = same_open_write same_open_readFull keeps_andThen [OF transp_same_open]
  keeps_ret [OF reflp_same_open] keeps_throw [OF reflp_same_open] keeps_liftE [OF reflp_same_open]

lemma same_open_greet: "keeps (same_open c) (socks5Greet c)"
  unfolding socks5Greet_def by (auto intro!: same_open_rules)

lemma same_open_request: "keeps (same_open c) (socks5WriteRequest c cmd h p)"
  unfolding socks5WriteRequest_def by (auto intro!: same_open_rules)

lemma same_open_readAddr: "keeps (same_open c) (readAddr c t e)"
  unfolding readAddr_def by (auto intro!: same_open_rules)

lemma same_open_reply: "keeps (same_open c) (socks5ReadReply c)"
  unfolding socks5ReadReply_def by (auto intro!: same_open_rules same_open_readAddr)

lemma handshake_ok_live:
  assumes "handshake c ctx cmd host port s = (Inr r, t)" "c < length (heap s)" "\<not> isClosed (heap s ! c)"
  shows "live t c"
proof -
  from assms(1) obtain u1 u2 u3 where
    1: "socks5Greet c (c_setDeadline c (handshakeDeadline ctx) s) = (Inr (), u1)" and
    2: "socks5WriteRequest c cmd host port u1 = (Inr (), u2)" and
    3: "socks5ReadReply c u2 = (Inr r, u3)" and t: "t = c_setDeadline c NoDeadline u3"
    unfolding handshake_def by (auto elim!: andThen_InrE onErr_InrE)
  have "same_open c s (c_setDeadline c (handshakeDeadline ctx) s)"
    by (simp add: same_open_def c_setDeadline_def)
  then have "same_open c s u3"
    using keepsD [OF same_open_greet 1] keepsD [OF same_open_request 2] keepsD [OF same_open_reply 3]
    by (meson transp_same_open transpD)
  with assms t show ?thesis by (auto simp: same_open_def live_def c_setDeadline_def)
qed

text \<open>
  \<open>NewTCPBindWithDialer(endpoint, newOuterSocks5Client(server))\<close> hands a \<open>Socks5Client\<close>
  to code that expects a \<open>Dialer\<close>: given a base dialer that keeps the contract, the
  client keeps it too.
\<close>

locale socks_dialer = dialer +
  fixes server :: string and ctx :: "int option"
begin

lemma connect_cases:
  assumes "dialContext dial server ctx nw a s = (r, s')"
  obtains (refused) e where "r = Inl e" "s' = s"
  | (undialed) e e' where "r = Inl e" "dial ''tcp'' server s = (Inl e', s')"
  | (failed) c t host port e where "dial ''tcp'' server s = (Inr c, t)"
      "handshake c ctx socks5CmdConnect host port t = (Inl e, s')" "r = Inl e"
  | (connected) c t host port x where "dial ''tcp'' server s = (Inr c, t)"
      "handshake c ctx socks5CmdConnect host port t = (Inr x, s')" "r = Inr c"
proof (cases "\<exists>e. r = Inl e \<and> s' = s")
  case True
  then show ?thesis using refused by blast
next
  case False
  have "nw \<in> {''tcp'', ''tcp4'', ''tcp6''}"
  proof (rule ccontr)
    assume "nw \<notin> {''tcp'', ''tcp4'', ''tcp6''}"
    then have "dialContext dial server ctx nw a s = (Inl (Errorf ''socks5 dial: unsupported network %q'' [AStr nw]), s)"
      by (simp add: dialContext_def)
    with assms False show False by auto
  qed
  with assms obtain host portStr where a: "splitHostPort a = Inr (host, portStr)"
    using False by (cases "splitHostPort a") (auto simp: dialContext_handshake)
  with assms \<open>nw \<in> _\<close> obtain port where p: "parseUint16 portStr = Inr port"
    using False by (cases "parseUint16 portStr") (auto simp: dialContext_handshake, metis+)
  have r: "(andThen (onErr (dial ''tcp'' server) id (Wrapf ''dial socks5 %s: %w'' [AStr server])) (\<lambda>conn.
      andThen (handshake conn ctx socks5CmdConnect host (word_of_nat port)) (\<lambda>_. ret conn))) s = (r, s')"
    using assms a p \<open>nw \<in> _\<close> by (auto simp: dialContext_handshake)
  show ?thesis
  proof (cases "dial ''tcp'' server s")
    case (Pair d t)
    show ?thesis
    proof (cases d)
      case (Inl e)
      with Pair r show ?thesis by (auto intro: undialed)
    next
      case (Inr c)
      obtain y u where h: "handshake c ctx socks5CmdConnect host (word_of_nat port) t = (y, u)" by fastforce
      show ?thesis
      proof (cases y)
        case (Inl e)
        with Pair Inr h r show ?thesis by (intro failed) auto
      next
        case Inr': (Inr x)
        with Pair Inr h r show ?thesis by (intro connected) auto
      qed
    qed
  qed
qed

lemma connect_frame:
  assumes "dialContext dial server ctx nw a s = (r, s')"
  shows "fresh_only s s'"
  using assms
proof (cases rule: connect_cases)
  case (undialed e e')
  then show ?thesis by (blast intro: dial_frame)
next
  case (failed c t host port e)
  show ?thesis
    using dial_then_only(1) [OF failed(1) keepsD [OF keeps_only_handshake failed(2)]] .
next
  case (connected c t host port x)
  show ?thesis
    using dial_then_only(1) [OF connected(1) keepsD [OF keeps_only_handshake connected(2)]] .
qed simp

lemma connect_live:
  assumes "dialContext dial server ctx nw a s = (Inr i, s')"
  shows "length (heap s) \<le> i \<and> live s' i"
  using assms
proof (cases rule: connect_cases)
  case (connected c t host port x)
  then show ?thesis
    using dial_live [OF connected(1)] handshake_ok_live [OF connected(2)] by (auto simp: live_def)
qed simp_all

lemma connect_closed:
  assumes "dialContext dial server ctx nw a s = (Inr i, s')"
  shows "new_closed s s' {i}"
  using assms
proof (cases rule: connect_cases)
  case (connected c t host port x)
  then show ?thesis
    using dial_then_only(2) [OF connected(1) keepsD [OF keeps_only_handshake connected(2)]] by simp
qed simp_all

lemma connect_err_closed:
  assumes "dialContext dial server ctx nw a s = (Inl e, s')"
  shows "new_closed s s' {}"
  using assms
proof (cases rule: connect_cases)
  case refused
  then show ?thesis by (auto simp: new_closed_def)
next
  case (undialed e e')
  then show ?thesis by (blast intro: dial_err_closed)
next
  case (failed c t host port e)
  note d = dial_then_only [OF failed(1) keepsD [OF keeps_only_handshake failed(2)]]
  have "isClosed (heap s' ! c)"
    using handshake_err_closes failed(2) dial_valid [OF failed(1)] by (auto simp: err_closes_def)
  with d(2) show ?thesis by (auto simp: new_closed_def)
qed simp

end

sublocale socks_dialer \<subseteq> socks: dialer "dialContext dial server ctx"
  by unfold_locales (fact connect_frame connect_live connect_closed connect_err_closed)+

interpretation outer: socks_dialer netDial server ctx for server ctx
  by unfold_locales

section \<open>Greeting and request on a well-behaved connection\<close>

lemma greet_ok:
  assumes "writable s c (Suc k)" "rx (heap s ! c) = [socks5Version, socks5MethodNoAuth] @ r"
  shows "socks5Greet c s = (Inr (), setRx c r (putTx c [socks5Version, 1, socks5MethodNoAuth] s))"
proof -
  let ?s = "putTx c [socks5Version, 1, socks5MethodNoAuth] s"
  note w = write_putTx [OF assms(1)]
  have "c_readFull c 2 ?s = (Inr [socks5Version, socks5MethodNoAuth], setRx c r ?s)"
    using assms writable_readable [OF assms(1)] by (intro readFull_append) simp_all
  with w show ?thesis by (simp add: socks5Greet_def)
qed

lemma request_ok:
  assumes "writable s c (Suc k)" "request_bytes cmd host port = Inr b"
  shows "socks5WriteRequest c cmd host port s = (Inr (), putTx c b s)"
  using write_putTx [OF assms(1)] assms(2) by (simp add: socks5WriteRequest_def)

lemma writable_deadline [simp]: "writable (c_setDeadline c d s) c k = writable s c k"
  by (auto simp: writable_def readable_def c_setDeadline_def upd_def nth_list_update)

lemma rx_deadline [simp]: "rx (heap (c_setDeadline c d s) ! c) = rx (heap s ! c)"
  "tx (heap (c_setDeadline c d s) ! c) = tx (heap s ! c)"
  by (cases "c < length (heap s)"; simp add: c_setDeadline_def upd_def list_update_beyond)+

lemma handshake_ok:
  assumes w: "writable s c 2" and rx: "rx (heap s ! c) = [socks5Version, socks5MethodNoAuth] @ reply_bytes rsv x p @ r"
    and x: "wf_saddr x" and b: "request_bytes cmd host port = Inr b"
  shows "\<exists>t. handshake c ctx cmd host port s = (Inr (saddr_string x, p), t) \<and> only c s t \<and>
      rx (heap t ! c) = r \<and> tx (heap t ! c) = tx (heap s ! c) @ [[socks5Version, 1, socks5MethodNoAuth], b] \<and>
      (\<forall>k. writable s c (2 + k) \<longrightarrow> writable t c k)"
proof -
  let ?g = "[socks5Version, 1, socks5MethodNoAuth]" and ?r = "reply_bytes rsv x p @ r"
  let ?s1 = "c_setDeadline c (handshakeDeadline ctx) s"
  let ?s2 = "setRx c ?r (putTx c ?g ?s1)"
  let ?s3 = "putTx c b ?s2"
  let ?t = "c_setDeadline c NoDeadline (setRx c r ?s3)"
  have w1: "writable ?s1 c (Suc (Suc 0))" using w by (simp add: numeral_2_eq_2)
  have r1: "readable ?s1 c" using w1 by (rule writable_readable)
  have 1: "socks5Greet c ?s1 = (Inr (), ?s2)" using rx by (intro greet_ok [OF w1]) simp
  have w2: "writable ?s2 c (Suc 0)" using writable_putTx [OF w1] by simp
  have 2: "socks5WriteRequest c cmd host port ?s2 = (Inr (), ?s3)" by (rule request_ok [OF w2 b])
  have 3: "socks5ReadReply c ?s3 = (Inr (saddr_string x, p), setRx c r ?s3)"
    using r1 x by (intro socks5ReadReply_reply) simp_all
  have h: "handshake c ctx cmd host port s = (Inr (saddr_string x, p), ?t)"
    using 1 2 3 by (simp add: handshake_def)
  moreover have "only c s ?t" using keepsD [OF keeps_only_handshake h] .
  moreover have "rx (heap ?t ! c) = r" "tx (heap ?t ! c) = tx (heap s ! c) @ [?g, b]"
    using r1 by simp_all
  moreover have "writable ?t c k" if "writable s c (2 + k)" for k
  proof -
    have "writable ?s1 c (Suc (Suc k))" using that by (simp add: numeral_2_eq_2)
    then have "writable ?s2 c (Suc k)" using writable_putTx [of ?s1 c "Suc k"] by simp
    then show ?thesis using writable_putTx [of ?s2 c k b] by simp
  qed
  ultimately show ?thesis by blast
qed

section \<open>UDP datagrams\<close>

text \<open>A header is the encoding of an address, as in a request, behind three zero bytes.\<close>

fun addr_saddr :: "addr \<Rightarrow> saddr" where
  "addr_saddr (A4 b) = SIP4 b"
| "addr_saddr (A6 b z) = SIP6 b"
| "addr_saddr NoAddr = SIP6 (replicate 16 0)"

definition noZone :: "addr \<Rightarrow> addr" where
  "noZone a = (case a of A6 b z \<Rightarrow> A6 b [] | _ \<Rightarrow> a)"

lemma udp_header_ip:
  assumes "parseAddr host = Inr ip"
  shows "udp_header host port = Inr ([0, 0, 0] @ saddr_type (addr_saddr ip) # saddr_body (addr_saddr ip) @ be16_put port)"
  using assms parseAddr_wf [OF assms]
  by (cases ip) (auto simp: udp_header_def)

fun saddr_addr :: "saddr \<Rightarrow> goerr + addr" where
  "saddr_addr (SIP4 b) = Inr (A4 b)"
| "saddr_addr (SIP6 b) = Inr (A6 b [])"
| "saddr_addr (SDomain d) = parseAddr d"

definition udp_bytes :: "byte \<Rightarrow> byte \<Rightarrow> saddr \<Rightarrow> uint16 \<Rightarrow> bytes \<Rightarrow> bytes" where
  "udp_bytes u v x port p = [u, v, 0] @ saddr_type x # saddr_body x @ be16_put port @ p"

lemma drop_head5: "drop (5 + n) (a # b # c # d # e # l) = drop n l"
  "drop (7 + n) (a # b # c # d # e # l) = drop (Suc (Suc n)) l"
  by (simp_all add: numeral_eq_Suc)

text \<open>The decoder on a datagram with its four-byte head taken apart.\<close>

lemma udp_parse_Cons:
  "udp_parse (u # v # w # t # r) =
     (if w \<noteq> 0 then Inl (Errorf ''socks5 udp: fragmented packet not supported'' [])
      else if t = socks5AddrIPv4 then
        if length r < 6 then Inl (Errorf ''socks5 udp: short ipv4'' [])
        else Inr ((A4 (take 4 r), be16_get (take 2 (drop 4 r))), drop 6 r)
      else if t = socks5AddrIPv6 then
        if length r < 18 then Inl (Errorf ''socks5 udp: short ipv6'' [])
        else Inr ((A6 (take 16 r) [], be16_get (take 2 (drop 16 r))), drop 18 r)
      else if t = socks5AddrDomain then
        if r = [] then Inl (Errorf ''socks5 udp: short atyp domain'' [])
        else if length (tl r) < unat (hd r) + 2 then Inl (Errorf ''socks5 udp: short domain'' [])
        else (case parseAddr (bytes_str (take (unat (hd r)) (tl r))) of
                Inl e \<Rightarrow> Inl (Errorf ''socks5 udp: domain reply not parseable: %s''
                               [AStr (bytes_str (take (unat (hd r)) (tl r)))])
              | Inr ip \<Rightarrow> Inr ((ip, be16_get (take 2 (drop (unat (hd r)) (tl r)))), drop (unat (hd r) + 2) (tl r)))
      else Inl (Errorf ''socks5 udp: unknown atyp %d'' [AInt (uint t)]))"
  by (cases r) (auto simp: udp_parse_def udp_rest_def Let_def drop_head5 split: sum.splits)

lemma take2_drop: "n + 2 \<le> length r \<Longrightarrow> r = take n r @ be16_put (be16_get (take 2 (drop n r))) @ drop (n + 2) r"
proof -
  assume n: "n + 2 \<le> length r"
  then have "be16_put (be16_get (take 2 (drop n r))) = take 2 (drop n r)" by (intro be16_put_get) simp
  moreover have "drop n r = take 2 (drop n r) @ drop (n + 2) r"
    by (metis add.commute append_take_drop_id drop_drop)
  ultimately show ?thesis by (metis append_take_drop_id)
qed

lemma udp_parse_udp_bytes:
  assumes "wf_saddr x"
  shows "udp_parse (udp_bytes u v x port p) =
     (case saddr_addr x of
        Inr a \<Rightarrow> Inr ((a, port), p)
      | Inl e \<Rightarrow> Inl (Errorf ''socks5 udp: domain reply not parseable: %s'' [AStr (saddr_string x)]))"
  using assms by (cases x) (auto simp: udp_bytes_def udp_parse_Cons split: sum.split)

lemma udp_parse_InrE:
  assumes "udp_parse d = Inr ((a, port), p)"
  obtains u v x where "wf_saddr x" "saddr_addr x = Inr a" "d = udp_bytes u v x port p"
proof -
  have "4 \<le> length d" using assms by (auto simp: udp_parse_def Let_def split: if_splits)
  then obtain u v w t r where d: "d = u # v # w # t # r"
    by (auto simp: Suc_le_length_iff numeral_eq_Suc)
  have w: "w = 0" using assms d by (auto simp: udp_parse_Cons split: if_splits)
  consider "t = socks5AddrIPv4" | "t = socks5AddrIPv6" | "t = socks5AddrDomain"
    using assms d by (auto simp: udp_parse_Cons split: if_splits)
  then show ?thesis
  proof cases
    case 1
    with assms d w show ?thesis
      using take2_drop [of 4 r] by (intro that [of "SIP4 (take 4 r)" u v])
        (auto simp: udp_parse_Cons udp_bytes_def split: if_splits)
  next
    case 2
    with assms d w show ?thesis
      using take2_drop [of 16 r] by (intro that [of "SIP6 (take 16 r)" u v])
        (auto simp: udp_parse_Cons udp_bytes_def split: if_splits)
  next
    case 3
    with assms d obtain l q where r: "r = l # q" using w by (cases r) (simp_all add: udp_parse_Cons)
    have l: "unat l + 2 \<le> length q" using assms d r w 3 by (auto simp: udp_parse_Cons split: if_splits)
    then have m: "min (length q) (unat l) = unat l" by simp
    show ?thesis
      using assms d w r 3 l take2_drop [OF l] byte_le_255 [of l]
      by (intro that [of "SDomain (bytes_str (take (unat l) q))" u v])
        (auto simp: udp_parse_Cons udp_bytes_def m split: if_splits sum.splits)
  qed
qed

lemma udp_header_bytes:
  assumes "wf_addr a" "addr_valid a"
  shows "udp_header (addr_string a) port = Inr (udp_bytes 0 0 (addr_saddr a) port [])"
  using udp_header_ip [OF parseAddr_addr_string [OF assms]] by (simp add: udp_bytes_def)

lemma udp_bytes_append: "udp_bytes u v x port p @ q = udp_bytes u v x port (p @ q)"
  by (simp add: udp_bytes_def)

lemma length_udp_bytes: "length (udp_bytes u v x port p) = length (udp_bytes u v x port []) + length p"
  by (simp add: udp_bytes_def)

lemma wf_addr_saddr: "wf_addr a \<Longrightarrow> wf_saddr (addr_saddr a)"
  by (cases a) auto

lemma saddr_addr_addr: "addr_valid a \<Longrightarrow> saddr_addr (addr_saddr a) = Inr (noZone a)"
  by (cases a) (auto simp: noZone_def)

section \<open>Resources of a UDP association\<close>

lemma udpAssociate_handshake:
  "udpAssociate dial server ctx =
     andThen (onErr (dial ''tcp'' server) id (Wrapf ''dial socks5 %s: %w'' [AStr server])) (\<lambda>ctrl.
     andThen (handshake ctrl ctx socks5CmdUDPAssociate ''0.0.0.0'' 0) (\<lambda>(addr, port).
     let relay = joinHostPort (relayHost server addr) (formatUint (unat port)) in
     andThen (onErr (dial ''udp'' relay) (c_close ctrl)
                (Wrapf ''dial socks5 udp %s: %w'' [AStr relay])) (\<lambda>udp.
     ret \<lparr>ctrlC = ctrl, connC = udp\<rparr>)))"
  unfolding udpAssociate_def handshake_def andThen_assoc andThen_ret
  by (simp add: case_prod_beta' cong: if_cong)

context dialer
begin

lemma associate_cases:
  assumes "udpAssociate dial server ctx s = (r, s')"
  obtains (undialed) e e' where "r = Inl e" "dial ''tcp'' server s = (Inl e', s')"
  | (refused) c t e where "dial ''tcp'' server s = (Inr c, t)" "r = Inl e"
      "handshake c ctx socks5CmdUDPAssociate ''0.0.0.0'' 0 t = (Inl e, s')"
  | (unrelayed) c t host port t' relay e e' u where "dial ''tcp'' server s = (Inr c, t)" "r = Inl e"
      "handshake c ctx socks5CmdUDPAssociate ''0.0.0.0'' 0 t = (Inr (host, port), t')"
      "relay = joinHostPort (relayHost server host) (formatUint (unat port))"
      "dial ''udp'' relay t' = (Inl e', u)" "s' = c_close c u"
  | (associated) c t host port t' relay d where "dial ''tcp'' server s = (Inr c, t)"
      "handshake c ctx socks5CmdUDPAssociate ''0.0.0.0'' 0 t = (Inr (host, port), t')"
      "relay = joinHostPort (relayHost server host) (formatUint (unat port))"
      "dial ''udp'' relay t' = (Inr d, s')" "r = Inr \<lparr>ctrlC = c, connC = d\<rparr>"
proof (cases "dial ''tcp'' server s")
  case (Pair d t)
  show ?thesis
  proof (cases d)
    case (Inl e)
    with assms Pair show ?thesis by (intro undialed) (auto simp: udpAssociate_handshake)
  next
    case c: (Inr c)
    obtain y t' where h: "handshake c ctx socks5CmdUDPAssociate ''0.0.0.0'' 0 t = (y, t')" by fastforce
    show ?thesis
    proof (cases y)
      case (Inl e)
      with assms Pair c h show ?thesis by (intro refused [of c t e]) (auto simp: udpAssociate_handshake)
    next
      case (Inr hp)
      obtain host port where hp: "hp = (host, port)" by (cases hp)
      define relay where "relay = joinHostPort (relayHost server host) (formatUint (unat port))"
      obtain z u where z: "dial ''udp'' relay t' = (z, u)" by fastforce
      have a: "andThen (onErr (dial ''udp'' relay) (c_close c) (Wrapf ''dial socks5 udp %s: %w'' [AStr relay]))
          (\<lambda>udp. ret \<lparr>ctrlC = c, connC = udp\<rparr>) t' = (r, s')"
        using assms Pair c h Inr hp by (simp add: udpAssociate_handshake relay_def Let_def)
      show ?thesis
      proof (cases z)
        case (Inl e)
        with a z have "r = Inl (Wrapf ''dial socks5 udp %s: %w'' [AStr relay] e)" "s' = c_close c u" by auto
        with Pair c h Inr hp relay_def z Inl show ?thesis by (intro unrelayed) auto
      next
        case d: (Inr d)
        with a z have "r = Inr \<lparr>ctrlC = c, connC = d\<rparr>" "s' = u" by auto
        with Pair c h Inr hp relay_def z d show ?thesis by (intro associated) auto
      qed
    qed
  qed
qed

lemma associate_resources:
  assumes "udpAssociate dial server ctx s = (r, s')"
  shows "fresh_only s s' \<and> (case r of
      Inl e \<Rightarrow> new_closed s s' {}
    | Inr u \<Rightarrow> live s' (ctrlC u) \<and> live s' (connC u) \<and> ctrlC u \<noteq> connC u \<and>
        length (heap s) \<le> ctrlC u \<and> length (heap s) \<le> connC u \<and> new_closed s s' {ctrlC u, connC u})"
  using assms
proof (cases rule: associate_cases)
  case (undialed e e')
  then show ?thesis using dial_frame dial_err_closed by auto
next
  case (refused c t e)
  note d = dial_then_only [OF refused(1) keepsD [OF keeps_only_handshake refused(3)]]
  have "isClosed (heap s' ! c)"
    using handshake_err_closes refused(3) dial_valid [OF refused(1)] by (auto simp: err_closes_def)
  with d refused show ?thesis by (auto simp: new_closed_def)
next
  case (unrelayed c t host port t' relay e e' u)
  note d = dial_then_only [OF unrelayed(1) keepsD [OF keeps_only_handshake unrelayed(3)]]
  have f: "fresh_only t' u" and n: "new_closed t' u {}"
    using dial_frame [OF unrelayed(5)] dial_err_closed [OF unrelayed(5)] by auto
  have su: "fresh_only s u" using d(1) f by (rule fresh_only_trans)
  have "new_closed s u {c}"
    using d(2) n f unfolding new_closed_def fresh_only_def
    by (metis empty_iff leI)
  then have "new_closed s s' {}"
    using new_closed_close [of s u c] d(3) f unrelayed(6) by (simp add: fresh_only_def)
  moreover have "fresh_only s s'"
    using fresh_only_only [OF su keeps_only_close d(4)] unrelayed(6) by simp
  ultimately show ?thesis using unrelayed(2) by simp
next
  case (associated c t host port t' relay d)
  note p = dial_then_only [OF associated(1) keepsD [OF keeps_only_handshake associated(2)]]
  note q = dial_frame [OF associated(4)] dial_live [OF associated(4)] dial_closed [OF associated(4)]
  have "live t' c"
    using handshake_ok_live [OF associated(2)] dial_live [OF associated(1)] by (auto simp: live_def)
  then have "live s' c" using q(1) p(3) by (simp add: live_def fresh_only_def)
  moreover have "new_closed s s' {c, d}"
    using p(2) q unfolding new_closed_def fresh_only_def by (metis insertCI insertE leI singletonD)
  moreover have "fresh_only s s'" using p(1) q(1) by (rule fresh_only_trans)
  moreover have "c \<noteq> d" "length (heap s) \<le> d" using p(3,4) q(2) by auto
  ultimately show ?thesis using associated(5) p(4) q(2) by simp
qed

end

section \<open>Properties\<close>

text \<open>A server that answers \<open>b\<close> and accepts every write, and a network with one such server.\<close>

definition peerConn :: "bytes \<Rightarrow> bytes list \<Rightarrow> conn" where
  "peerConn b ds = \<lparr>rx = b, rxErr = EOF, dgrams = ds, tx = [], wrLeft = 9, wrErr = ErrClosed,
     wrCap = None, finSent = False, isClosed = False, dline = NoDeadline\<rparr>"

definition peerNet :: "conn list \<Rightarrow> conn list \<Rightarrow> net" where
  "peerNet cs ds = \<lparr>heap = cs, script = map Inr ds, dialed = []\<rparr>"

text \<open>
  C5: the client leaks nothing. Whatever the proxy and the network do, \<open>DialContext\<close> leaves
  every existing connection untouched; when it fails every connection it opened has been
  closed, and when it succeeds the returned connection is new, open, has no deadline left
  from the handshake, and is the only one it leaves open.
\<close>

theorem dialContext_no_leak:
  "case dialContext netDial server ctx network address s of
     (Inl e, s') \<Rightarrow> fresh_only s s' \<and> new_closed s s' {}
   | (Inr c, s') \<Rightarrow> fresh_only s s' \<and> length (heap s) \<le> c \<and> live s' c \<and> new_closed s s' {c}"
  using outer.connect_frame outer.connect_live outer.connect_closed outer.connect_err_closed
  by (auto split: prod.split sum.split)

text \<open>
  C30: \<open>UDPAssociate\<close> leaks nothing either: on failure, at whichever step, every connection
  it opened is closed; on success exactly the control connection and the relay connection
  of the session are open, both are new, and neither carries a deadline.
\<close>

theorem udpAssociate_no_leak:
  "case udpAssociate netDial server ctx s of
     (Inl e, s') \<Rightarrow> fresh_only s s' \<and> new_closed s s' {}
   | (Inr u, s') \<Rightarrow> fresh_only s s' \<and> live s' (ctrlC u) \<and> live s' (connC u) \<and> ctrlC u \<noteq> connC u \<and>
       length (heap s) \<le> ctrlC u \<and> length (heap s) \<le> connC u \<and> new_closed s s' {ctrlC u, connC u}"
  using direct.associate_resources [of server ctx s] by (auto split: prod.split sum.split)



lemma dial_connects_writable:
  assumes "network \<in> {''tcp'', ''tcp4'', ''tcp6''}"
    and "splitHostPort address = Inr (host, portStr)" "parseUint16 portStr = Inr port"
    and "wf_saddr (host_saddr host)" "wf_saddr x"
    and "script s = Inr c # rest" "2 \<le> wrLeft c" "wrCap c = None" "tx c = []"
    and "rx c = [socks5Version, socks5MethodNoAuth] @ reply_bytes rsv x p @ r"
  shows "\<exists>s'. dialContext netDial server ctx network address s = (Inr (length (heap s)), s') \<and>
     dialed s' = dialed s @ [(''tcp'', server)] \<and> script s' = rest \<and>
     rx (heap s' ! length (heap s)) = r \<and>
     tx (heap s' ! length (heap s)) = [[socks5Version, 1, socks5MethodNoAuth],
        [socks5Version, socks5CmdConnect, 0] @ saddr_type (host_saddr host) #
          saddr_body (host_saddr host) @ be16_put (word_of_nat port)] \<and>
     (\<forall>k. 2 + k \<le> wrLeft c \<longrightarrow> writable s' (length (heap s)) k)"
proof -
  let ?i = "length (heap s)"
  let ?t = "s\<lparr>dialed := dialed s @ [(''tcp'', server)], script := rest,
     heap := heap s @ [c\<lparr>isClosed := False, dline := NoDeadline\<rparr>]\<rparr>"
  have d: "netDial ''tcp'' server s = (Inr ?i, ?t)" using assms by (simp add: netDial_def)
  have w: "writable ?t ?i 2" using assms by (simp add: writable_def readable_def)
  obtain b where b: "request_bytes socks5CmdConnect host (word_of_nat port) = Inr b"
    "b = [socks5Version, socks5CmdConnect, 0] @ saddr_type (host_saddr host) #
          saddr_body (host_saddr host) @ be16_put (word_of_nat port)"
    using assms by (simp add: request_bytes_saddr)
  from handshake_ok [OF w _ \<open>wf_saddr x\<close> b(1)] assms obtain u where
    h: "handshake ?i ctx socks5CmdConnect host (word_of_nat port) ?t = (Inr (saddr_string x, p), u)"
    and o: "only ?i ?t u" "rx (heap u ! ?i) = r" "tx (heap u ! ?i) = [[socks5Version, 1, socks5MethodNoAuth], b]"
    and left: "\<forall>k. writable ?t ?i (2 + k) \<longrightarrow> writable u ?i k"
    by (simp add: nth_append) blast
  have l: "writable u ?i k" if "2 + k \<le> wrLeft c" for k
    using left that assms by (simp add: writable_def readable_def)
  from h d assms have "dialContext netDial server ctx network address s = (Inr ?i, u)"
    by (auto simp: dialContext_handshake)
  with o l show ?thesis using b(2) by (auto simp: only_def)
qed

lemma dial_connects:
  assumes "network \<in> {''tcp'', ''tcp4'', ''tcp6''}"
    and "splitHostPort address = Inr (host, portStr)" "parseUint16 portStr = Inr port"
    and "wf_saddr (host_saddr host)" "wf_saddr x"
    and "script s = Inr c # rest" "2 \<le> wrLeft c" "wrCap c = None" "tx c = []"
    and "rx c = [socks5Version, socks5MethodNoAuth] @ reply_bytes rsv x p @ r"
  shows "\<exists>s'. dialContext netDial server ctx network address s = (Inr (length (heap s)), s') \<and>
     dialed s' = dialed s @ [(''tcp'', server)] \<and> script s' = rest \<and>
     rx (heap s' ! length (heap s)) = r \<and>
     tx (heap s' ! length (heap s)) = [[socks5Version, 1, socks5MethodNoAuth],
        [socks5Version, socks5CmdConnect, 0] @ saddr_type (host_saddr host) #
          saddr_body (host_saddr host) @ be16_put (word_of_nat port)]"
  using dial_connects_writable [OF assms, of server ctx] by blast

text \<open>
  The handshake goes through. When the dial succeeds and the server accepts both
  messages, offers no authentication and answers with any success reply, \<open>DialContext\<close>
  returns the new connection; the bytes written on it are the greeting and then the CONNECT
  request for exactly the requested host and port, and the stream is left at the first byte
  after the reply.
\<close>

lemma dialContext_connects:
  assumes "network \<in> {''tcp'', ''tcp4'', ''tcp6''}"
    and "splitHostPort address = Inr (host, portStr)" "parseUint16 portStr = Inr port"
    and "wf_saddr (host_saddr host)" "wf_saddr x"
    and "script s = Inr c # rest" "2 \<le> wrLeft c" "wrCap c = None" "tx c = []"
    and "rx c = [socks5Version, socks5MethodNoAuth] @ reply_bytes rsv x p @ r"
  shows "\<exists>s'. dialContext netDial server ctx network address s = (Inr (length (heap s)), s') \<and>
     dialed s' = dialed s @ [(''tcp'', server)] \<and> script s' = rest \<and>
     rx (heap s' ! length (heap s)) = r \<and>
     tx (heap s' ! length (heap s)) = [[socks5Version, 1, socks5MethodNoAuth],
        [socks5Version, socks5CmdConnect, 0] @ saddr_type (host_saddr host) #
          saddr_body (host_saddr host) @ be16_put (word_of_nat port)]"
  using assms by (rule dial_connects)

lemma dialContext_connects_witness:
  "let s = peerNet [] [peerConn ([5, 0] @ [5, 0, 0, 1, 127, 0, 0, 1, 4, 56] @ [42]) []] in
   \<exists>s'. dialContext netDial ''10.0.0.2:1080'' None ''tcp'' ''example.com:443'' s = (Inr 0, s') \<and>
     rx (heap s' ! 0) = [42]"
proof -
  let ?c = "peerConn ([5, 0] @ [5, 0, 0, 1, 127, 0, 0, 1, 4, 56] @ [42]) []"
  let ?s = "peerNet [] [?c]"
  have h: "splitHostPort ''example.com:443'' = Inr (''example.com'', ''443'')" by code_simp
  have p: "parseUint16 ''443'' = Inr 443" by (simp add: parseUint16_def parseUint_def is_digit_def Let_def digit_val_def)
  have w: "wf_saddr (host_saddr ''example.com'')" by (rule wf_host_saddr) simp
  have "be16_put (1080 :: uint16) = [4, 56]" by code_simp
  then have r: "rx ?c = [socks5Version, socks5MethodNoAuth] @ reply_bytes 0 (SIP4 [127, 0, 0, 1]) 1080 @ [42]"
    by (simp add: peerConn_def reply_bytes_def socks5_consts)
  have "script ?s = Inr ?c # []" "2 \<le> wrLeft ?c" "wrCap ?c = None" "tx ?c = []" "heap ?s = []"
    by (simp_all add: peerNet_def peerConn_def)
  moreover have "''tcp'' \<in> {''tcp'', ''tcp4'', ''tcp6''}" "wf_saddr (SIP4 [127, 0, 0, 1])" by simp_all
  ultimately have "\<exists>s'. dialContext netDial ''10.0.0.2:1080'' None ''tcp'' ''example.com:443'' ?s = (Inr 0, s') \<and>
     rx (heap s' ! 0) = [42]"
    using dialContext_connects [OF _ h p w _ _ _ _ _ r, of "''tcp''" ?s "[]" "''10.0.0.2:1080''" None]
    by (metis list.size(3))
  then show ?thesis by simp
qed

text \<open>
  C26: \<open>ReadFrom\<close> strips exactly the header. It returns a payload only from a datagram that is,
  byte for byte, an unfragmented SOCKS5 UDP header with a well-formed address that denotes
  the reported endpoint, followed by the payload; and the payload fits the caller's buffer.
  No other datagram is accepted, and every such datagram is.
\<close>

theorem readFrom_exact:
  assumes "readable s (connC u)" "dgrams (heap s ! connC u) = d # ds" "length d \<le> readBufSize"
  shows "(\<exists>s'. readFrom u buflen s = (Inr (n, (a, port), p), s')) \<longleftrightarrow>
     (\<exists>b0 b1 x. wf_saddr x \<and> saddr_addr x = Inr a \<and> d = udp_bytes b0 b1 x port p) \<and>
     n = length p \<and> n \<le> buflen"
proof -
  have r: "\<exists>t. c_readDgram (connC u) readBufSize s = (Inr d, t)"
    using assms by (simp add: c_readDgram_def readable_def)
  have "(\<exists>s'. readFrom u buflen s = (Inr (n, (a, port), p), s')) \<longleftrightarrow>
      udp_parse d = Inr ((a, port), p) \<and> n = length p \<and> n \<le> buflen"
  proof (cases "udp_parse d")
    case (Inl e)
    with r show ?thesis by (auto simp: readFrom_def)
  next
    case (Inr q)
    then show ?thesis using r by (cases q) (auto simp: readFrom_def split: if_split_asm)
  qed
  moreover have "udp_parse d = Inr ((a, port), p) \<longleftrightarrow>
      (\<exists>b0 b1 x. wf_saddr x \<and> saddr_addr x = Inr a \<and> d = udp_bytes b0 b1 x port p)"
    using udp_parse_udp_bytes by (auto elim!: udp_parse_InrE)
  ultimately show ?thesis by simp
qed

theorem readFrom_exact_witness:
  "let s = peerNet [peerConn [] [[0, 0, 0, 1, 10, 0, 0, 1, 0, 53, 97, 98]]] [] in
   \<exists>s'. readFrom \<lparr>ctrlC = 7, connC = 0\<rparr> 1500 s = (Inr (2, (A4 [10, 0, 0, 1], 53), [97, 98]), s')"
proof -
  let ?d = "[0, 0, 0, 1, 10, 0, 0, 1, 0, 53, 97, 98] :: bytes"
  let ?s = "peerNet [peerConn [] [?d]] []" and ?u = "\<lparr>ctrlC = 7, connC = 0\<rparr>"
  have "be16_put (53 :: uint16) = [0, 53]" by code_simp
  then have "?d = udp_bytes 0 0 (SIP4 [10, 0, 0, 1]) 53 [97, 98]"
    by (simp add: udp_bytes_def socks5_consts)
  moreover have "wf_saddr (SIP4 [10, 0, 0, 1])" "saddr_addr (SIP4 [10, 0, 0, 1]) = Inr (A4 [10, 0, 0, 1])"
    by simp_all
  ultimately have "\<exists>b0 b1 x. wf_saddr x \<and> saddr_addr x = Inr (A4 [10, 0, 0, 1]) \<and>
      ?d = udp_bytes b0 b1 x 53 [97, 98]" by blast
  moreover have "readable ?s (connC ?u)" "dgrams (heap ?s ! connC ?u) = ?d # []" "length ?d \<le> readBufSize"
    by (simp_all add: readable_def peerNet_def peerConn_def readBufSize_def)
  ultimately have "\<exists>s'. readFrom ?u 1500 ?s = (Inr (2, (A4 [10, 0, 0, 1], 53), [97, 98]), s')"
    using readFrom_exact [of ?s ?u ?d "[]" 1500 2 "A4 [10, 0, 0, 1]" 53 "[97, 98]"] by simp
  then show ?thesis by simp
qed

text \<open>
  C27: the UDP round trip. The datagram \<open>WriteTo(p, dst)\<close> puts on the wire is one that
  \<open>ReadFrom\<close>, given room for the payload, turns back into \<open>dst\<close> and \<open>p\<close>, for every IPv4,
  IPv6 and IPv4-mapped destination; only an IPv6 zone is not carried.
\<close>

theorem writeTo_readFrom:
  assumes "wf_addr a" "addr_valid a" "writable s (connC u) 1" "length p \<le> buflen" "length p \<le> 65535"
    and "readable t (connC v)" "dgrams (heap t ! connC v) = d # ds"
    and "d = last (tx (heap (snd (writeTo u p (a, port) s)) ! connC u))"
  shows "fst (writeTo u p (a, port) s) = Inr (length p) \<and>
     fst (readFrom v buflen t) = Inr (length p, (noZone a, port), p)"
proof -
  let ?b = "udp_bytes 0 0 (addr_saddr a) port p"
  have "udp_header (addr_string a) port = Inr (udp_bytes 0 0 (addr_saddr a) port [])"
    using assms by (intro udp_header_bytes) auto
  then have w: "writeTo u p (a, port) s = (Inr (length p), putTx (connC u) ?b s)"
    using write_putTx [of s "connC u" 0 ?b] assms(3)
    by (simp add: writeTo_def writeToHost_def udp_bytes_append length_udp_bytes [of _ _ _ _ p])
  then have d: "d = ?b" using assms(3,8) writable_readable [of s "connC u" 1] by simp
  have "udp_parse d = Inr ((noZone a, port), p)"
    using d assms(1,2) udp_parse_udp_bytes [OF wf_addr_saddr] saddr_addr_addr by simp
  moreover have "length d \<le> readBufSize"
    using d assms(1,2,5) by (cases a) (auto simp: udp_bytes_def readBufSize_def)
  then have "\<exists>t'. c_readDgram (connC v) readBufSize t = (Inr d, t')"
    using assms(6,7) by (simp add: c_readDgram_def readable_def)
  ultimately have "fst (readFrom v buflen t) = Inr (length p, (noZone a, port), p)"
    using assms(4) by (auto simp: readFrom_def)
  with w show ?thesis by simp
qed

theorem writeTo_readFrom_witness:
  "let u = \<lparr>ctrlC = 1, connC = 0\<rparr>; s = peerNet [peerConn [] []] [];
       d = [0, 0, 0, 1, 10, 0, 0, 1, 0, 53, 97, 98]; t = peerNet [peerConn [] [d]] []
   in fst (writeTo u [97, 98] (A4 [10, 0, 0, 1], 53) s) = Inr 2 \<and>
      fst (readFrom u 1500 t) = Inr (2, (A4 [10, 0, 0, 1], 53), [97, 98])"
proof -
  let ?d = "[0, 0, 0, 1, 10, 0, 0, 1, 0, 53, 97, 98] :: bytes" and ?u = "\<lparr>ctrlC = 1, connC = 0\<rparr>"
  let ?s = "peerNet [peerConn [] []] []" and ?t = "peerNet [peerConn [] [?d]] []"
  have "?d = last (tx (heap (snd (writeTo ?u [97, 98] (A4 [10, 0, 0, 1], 53) ?s)) ! connC ?u))"
    by code_simp
  then show ?thesis
    using writeTo_readFrom [of "A4 [10, 0, 0, 1]" ?s ?u "[97, 98]" 1500 ?t ?u ?d "[]" 53]
    by (simp add: peerNet_def peerConn_def writable_def readable_def noZone_def)
qed

end
