(* ===== verification/Socks5Bind.thy ===== *)
theory Socks5Bind
  imports Bind Socks5
begin

text \<open>
  \<open>socks5bind.go\<close>: WireGuard datagrams through the UDP relay of an outer SOCKS5 proxy. The
  methods of \<open>Socks5Bind\<close> over the sessions of \<open>Socks5\<close>, its endpoints, and the interpretation
  of the \<open>conn.Bind\<close> contract; the lemmas add the round trip of endpoints and of datagrams.
\<close>

section \<open>State and methods\<close>

record socks5_bind =
  sopen :: bool
  sess :: "udp_session option"
  snet :: net

definition newSocks5Bind :: "net \<Rightarrow> socks5_bind" where
  "newSocks5Bind n = \<lparr>sopen = False, sess = None, snet = n\<rparr>"

definition onSNet :: "(net, 'a) sem \<Rightarrow> (socks5_bind, 'a) sem" where
  "onSNet m = (\<lambda>b. case m (snet b) of (r, n) \<Rightarrow> (r, b\<lparr>snet := n\<rparr>))"

text \<open>
  \<open>Open\<close>: a critical section, the association (given up after \<open>b.dialTimeout\<close>, the deadline of
  \<open>ctx\<close>), and a second critical section.
\<close>

definition s5OpenBegin :: "(socks5_bind, unit) sem" where
  "s5OpenBegin = (\<lambda>b. if sopen b then (Inl ErrBindAlreadyOpen, b) else (Inr (), b\<lparr>sopen := True\<rparr>))"

definition s5Publish :: "udp_session \<Rightarrow> (socks5_bind, unit) sem" where
  "s5Publish u = (\<lambda>b.
     if \<not> sopen b then (Inl ErrClosed, b\<lparr>snet := session_close u (snet b)\<rparr>)
     else (Inr (), b\<lparr>sess := Some u\<rparr>))"

definition s5Open :: "(string \<Rightarrow> string \<Rightarrow> (net, nat) sem) \<Rightarrow> string \<Rightarrow> int option \<Rightarrow> (socks5_bind, unit) prog" where
  "s5Open dial server ctx =
     thenP (atom s5OpenBegin) (\<lambda>_.
     bindP (atom (onSNet (udpAssociate dial server ctx))) (\<lambda>r.
     case r of
       Inl e \<Rightarrow> thenP (atom (modS (\<lambda>b. b\<lparr>sopen := False\<rparr>))) (\<lambda>_. Done (Inl e))
     | Inr u \<Rightarrow> atom (s5Publish u)))"

text \<open>\<open>Close\<close>: the session is taken out under the lock and closed outside it.\<close>

definition s5Close :: "(socks5_bind, unit) prog" where
  "s5Close =
     thenP (atom (\<lambda>b. (Inr (sess b), b\<lparr>sopen := False, sess := None\<rparr>))) (\<lambda>u.
     case u of
       None \<Rightarrow> Done (Inr ())
     | Some u \<Rightarrow> atom (modS (\<lambda>b. b\<lparr>snet := session_close u (snet b)\<rparr>)))"

definition currentSession :: "(socks5_bind, udp_session option) prog" where
  "currentSession = atom (\<lambda>b. (Inr (if sopen b then sess b else None), b))"

definition s5IsOpen :: "(socks5_bind, bool) prog" where
  "s5IsOpen = atom (\<lambda>b. (Inr (sopen b), b))"

section \<open>Endpoints\<close>

record socks5_endpoint =
  ehost :: string
  eport :: uint16
  eaddr :: addrport

text \<open>The dynamic types \<open>Send\<close> distinguishes.\<close>

datatype endpoint = EpSocks5 socks5_endpoint | EpSocks5Ptr socks5_endpoint | EpOther

definition s5ParseEndpoint :: "string \<Rightarrow> goerr + socks5_endpoint" where
  "s5ParseEndpoint s =
     (case splitHostPort s of
        Inl e \<Rightarrow> Inl e
      | Inr (host, portStr) \<Rightarrow>
          (case parseUint16 portStr of
             Inl e \<Rightarrow> Inl (Wrapf ''invalid port %q: %w'' [AStr portStr] e)
           | Inr port \<Rightarrow>
               Inr \<lparr>ehost = host, eport = word_of_nat port,
                    eaddr = (case parseAddr host of
                               Inr a \<Rightarrow> (a, word_of_nat port)
                             | Inl _ \<Rightarrow> (NoAddr, 0))\<rparr>))"

definition s5SrcToString :: "socks5_endpoint \<Rightarrow> string" where "s5SrcToString e = ''''"

definition s5DstToString :: "socks5_endpoint \<Rightarrow> string" where
  "s5DstToString e = joinHostPort (ehost e) (formatUint (unat (eport e)))"

text \<open>\<open>netip.AddrPort.MarshalBinary\<close>: address, zone, port in little-endian order.\<close>

definition addrport_marshal :: "addrport \<Rightarrow> bytes" where
  "addrport_marshal ap =
     (case fst ap of NoAddr \<Rightarrow> [] | A4 b \<Rightarrow> b | A6 b z \<Rightarrow> b @ str_bytes z) @ rev (be16_put (snd ap))"

definition s5DstToBytes :: "socks5_endpoint \<Rightarrow> bytes" where
  "s5DstToBytes e =
     (if addr_valid (fst (eaddr e)) then addrport_marshal (eaddr e) else str_bytes (s5DstToString e))"

definition s5DstIP :: "socks5_endpoint \<Rightarrow> addr" where
  "s5DstIP e = (if addr_valid (fst (eaddr e)) then fst (eaddr e) else NoAddr)"

definition s5SrcIP :: "socks5_endpoint \<Rightarrow> addr" where "s5SrcIP e = NoAddr"

definition newSocks5EndpointFromAddrPort :: "addrport \<Rightarrow> socks5_endpoint" where
  "newSocks5EndpointFromAddrPort a = \<lparr>ehost = addr_string (fst a), eport = snd a, eaddr = a\<rparr>"

definition s5SetMark :: "uint32 \<Rightarrow> goerr option" where "s5SetMark m = None"
definition s5BatchSize :: nat where "s5BatchSize = 1"

section \<open>Sending and receiving\<close>

primrec s5SendAll :: "udp_session \<Rightarrow> socks5_endpoint \<Rightarrow> bytes list \<Rightarrow> (socks5_bind, unit) prog" where
  "s5SendAll u dst [] = Done (Inr ())"
| "s5SendAll u dst (p # bufs) =
     thenP (atom (onSNet (writeToHost u p (ehost dst) (eport dst)))) (\<lambda>_. s5SendAll u dst bufs)"

definition s5Send :: "endpoint \<Rightarrow> bytes list \<Rightarrow> (socks5_bind, unit) prog" where
  "s5Send ep bufs =
     (let go = (\<lambda>dst. thenP currentSession (\<lambda>u.
        case u of None \<Rightarrow> Done (Inl ErrClosed) | Some u \<Rightarrow> s5SendAll u dst bufs))
      in case ep of
           EpSocks5 dst \<Rightarrow> go dst
         | EpSocks5Ptr dst \<Rightarrow> go dst
         | EpOther \<Rightarrow> Done (Inl ErrWrongEndpointType))"

text \<open>\<open>receive\<close>: \<open>sizes[0]\<close>, the bytes of \<open>packets[0][:n]\<close> and \<open>eps[0]\<close>.\<close>

definition s5Receive :: "nat \<Rightarrow> (socks5_bind, nat \<times> bytes \<times> socks5_endpoint) prog" where
  "s5Receive buflen =
     thenP currentSession (\<lambda>u.
     case u of
       None \<Rightarrow> Done (Inl ErrClosed)
     | Some u \<Rightarrow>
         bindP (atom (onSNet (readFrom u buflen))) (\<lambda>r.
         case r of
           Inl e \<Rightarrow> thenP s5IsOpen (\<lambda>op. if \<not> op then Done (Inl ErrClosed) else Done (Inl e))
         | Inr (n, src, p) \<Rightarrow> Done (Inr (n, p, newSocks5EndpointFromAddrPort src))))"

section \<open>The outer client\<close>

definition newOuterSocks5Client :: "string \<Rightarrow> socks5_client" where
  "newOuterSocks5Client server = \<lparr>serverAddr = server, base = netDial\<rparr>"

definition validateOuterSocks5 :: "string \<Rightarrow> goerr + unit" where
  "validateOuterSocks5 server =
     (if server = '''' then Inr ()
      else case splitHostPort server of
             Inl e \<Rightarrow> Inl (Wrapf ''invalid outer socks5 address %q: %w'' [AStr server] e)
           | Inr _ \<Rightarrow> Inr ())"

section \<open>Resources and life cycle\<close>

text \<open>
  \<open>s5Inv n0 b\<close>: the bind is open exactly when it has a session; the two connections of the
  session are open, and every other connection it made is closed.
\<close>

definition s5Inv :: "net \<Rightarrow> socks5_bind \<Rightarrow> bool" where
  "s5Inv n0 b \<longleftrightarrow> fresh_only n0 (snet b) \<and> (sopen b \<longleftrightarrow> sess b \<noteq> None) \<and>
     (case sess b of
        None \<Rightarrow> new_closed n0 (snet b) {}
      | Some u \<Rightarrow> length (heap n0) \<le> ctrlC u \<and> length (heap n0) \<le> connC u \<and>
          readable (snet b) (ctrlC u) \<and> readable (snet b) (connC u) \<and> ctrlC u \<noteq> connC u \<and>
          new_closed n0 (snet b) {ctrlC u, connC u})"

lemma session_close_closed:
  assumes "new_closed n0 n {ctrlC u, connC u}" "fresh_only n0 n"
    and "length (heap n0) \<le> ctrlC u" "length (heap n0) \<le> connC u"
  shows "new_closed n0 (session_close u n) {} \<and> fresh_only n0 (session_close u n)"
proof
  show "new_closed n0 (session_close u n) {}"
    using assms(1) by (auto simp: session_close_def new_closed_def isClosed_close_iff)
  have "fresh_only n0 (c_close (connC u) n)" by (rule fresh_only_only [OF assms(2) keeps_only_close assms(4)])
  then show "fresh_only n0 (session_close u n)"
    unfolding session_close_def by (rule fresh_only_only [OF _ keeps_only_close assms(3)])
qed

lemma s5Inv_io:
  assumes "s5Inv n0 b" "sess b = Some u" "only (connC u) (snet b) n" "same_open (connC u) (snet b) n"
  shows "s5Inv n0 (b\<lparr>snet := n\<rparr>)"
proof -
  have "new_closed n0 n {ctrlC u, connC u}"
    using assms by (auto simp: s5Inv_def new_closed_def only_def)
  then show ?thesis
    using assms fresh_only_only [of n0 "snet b" "connC u" n]
    by (auto simp: s5Inv_def same_open_def readable_def only_def)
qed

lemma s5Open_twice: "sopen b \<Longrightarrow> runP (s5Open dial server ctx) b = (Err ErrBindAlreadyOpen, b)"
  by (simp add: s5Open_def s5OpenBegin_def runP_thenP)

context dialer
begin

lemma s5Open_spec:
  assumes "s5Inv n0 b" "\<not> sopen b" "runP (s5Open dial server ctx) b = (r, b')"
  shows "s5Inv n0 b' \<and> (sopen b' \<longleftrightarrow> r = Ok ())"
proof -
  have h: "sess b = None" "fresh_only n0 (snet b)" "new_closed n0 (snet b) {}"
    using assms(1,2) by (auto simp: s5Inv_def)
  obtain x n where a: "udpAssociate dial server ctx (snet b) = (x, n)" by fastforce
  note res = associate_resources [OF a]
  have f: "fresh_only n0 n" using h(2) res by (blast intro: fresh_only_trans)
  show ?thesis
  proof (cases x)
    case (Inl e)
    then have "new_closed n0 n {}" using new_closed_trans [OF h(3)] res by auto
    with Inl a f h assms show ?thesis
      by (auto simp: s5Open_def s5OpenBegin_def runP_thenP runP_bindP onSNet_def s5Inv_def)
  next
    case (Inr u)
    then have "new_closed n0 n {ctrlC u, connC u}" using new_closed_trans [OF h(3)] res by auto
    moreover have "readable n (ctrlC u)" "readable n (connC u)" "ctrlC u \<noteq> connC u"
      "length (heap n0) \<le> ctrlC u" "length (heap n0) \<le> connC u"
      using Inr res h(2) by (auto simp: live_def readable_def fresh_only_def)
    ultimately show ?thesis
      using Inr a f h assms
      by (auto simp: s5Open_def s5OpenBegin_def s5Publish_def runP_thenP runP_bindP onSNet_def s5Inv_def)
  qed
qed

end

lemma s5Close_spec:
  assumes "s5Inv n0 b" "runP s5Close b = (r, b')"
  shows "r = Ok () \<and> s5Inv n0 b' \<and> \<not> sopen b'"
proof (cases "sess b")
  case None
  with assms show ?thesis by (auto simp: s5Close_def runP_thenP s5Inv_def)
next
  case (Some u)
  with assms(1) have "new_closed n0 (session_close u (snet b)) {} \<and> fresh_only n0 (session_close u (snet b))"
    by (intro session_close_closed) (auto simp: s5Inv_def)
  with Some assms show ?thesis by (auto simp: s5Close_def runP_thenP s5Inv_def)
qed

lemma s5Close_again: "s5Inv n0 b \<Longrightarrow> \<not> sopen b \<Longrightarrow> runP s5Close b = (Ok (), b)"
  by (auto simp: s5Close_def runP_thenP s5Inv_def)

lemma write_only: "keeps (only (connC u)) (writeToHost u p h port)"
  unfolding writeToHost_def by (auto intro!: keeps_only)

lemma write_same_open: "keeps (same_open (connC u)) (writeToHost u p h port)"
  unfolding writeToHost_def by (auto intro!: same_open_rules)

lemma readFrom_only: "keeps (only (connC u)) (readFrom u k)"
  unfolding readFrom_def by (auto intro!: keeps_only split: prod.split)

lemma same_open_readDgram: "keeps (same_open c) (c_readDgram c n)"
  by (rule keepsI) (simp add: same_open_def c_readDgram_def Let_def split: list.split)

lemma readFrom_same_open: "keeps (same_open (connC u)) (readFrom u k)"
  unfolding readFrom_def by (auto intro!: same_open_rules same_open_readDgram split: prod.split)

definition s5Keep :: "net \<Rightarrow> udp_session \<Rightarrow> socks5_bind \<Rightarrow> bool" where
  "s5Keep n0 u b \<longleftrightarrow> s5Inv n0 b \<and> sess b = Some u"

lemma pres_session:
  assumes "keeps (only (connC u)) m" "keeps (same_open (connC u)) m"
  shows "pres (s5Keep n0 u) (atom (onSNet m))"
proof (rule pres_atom)
  fix b
  assume b: "s5Keep n0 u b"
  obtain r n where m: "m (snet b) = (r, n)" by fastforce
  have "s5Inv n0 (b\<lparr>snet := n\<rparr>)"
    using b keepsD [OF assms(1) m] keepsD [OF assms(2) m] by (intro s5Inv_io [of n0 b u]) (auto simp: s5Keep_def)
  with b m show "s5Keep n0 u (snd (onSNet m b))" by (simp add: onSNet_def s5Keep_def)
qed

lemma pres_s5SendAll: "pres (s5Keep n0 u) (s5SendAll u dst bufs)"
  by (induction bufs) (auto intro!: pres_Done pres_thenP pres_session write_only write_same_open)

lemma s5Send_keeps:
  assumes "s5Inv n0 b" "runP (s5Send ep bufs) b = (r, b')"
  shows "s5Inv n0 b' \<and> sopen b' = sopen b"
proof (cases "sess b")
  case None
  with assms show ?thesis
    by (auto simp: s5Send_def currentSession_def runP_thenP Let_def s5Inv_def split: endpoint.splits)
next
  case (Some u)
  have k: "s5Keep n0 u b" using assms(1) Some by (simp add: s5Keep_def)
  have up: "sopen b" using assms(1) Some by (auto simp: s5Inv_def)
  have "s5Keep n0 u b'"
  proof (cases "ep = EpOther")
    case True
    with assms k show ?thesis by (simp add: s5Send_def)
  next
    case False
    then obtain dst where "runP (s5SendAll u dst bufs) b = (r, b')"
      using assms(2) Some up by (cases ep) (auto simp: s5Send_def currentSession_def runP_thenP)
    from specD [OF pres_s5SendAll k this] show ?thesis .
  qed
  with up show ?thesis by (auto simp: s5Keep_def s5Inv_def)
qed

lemma s5Receive_keeps:
  assumes "s5Inv n0 b" "runP (s5Receive k) b = (r, b')"
  shows "s5Inv n0 b' \<and> sopen b' = sopen b"
proof (cases "sess b")
  case None
  with assms show ?thesis by (auto simp: s5Receive_def currentSession_def runP_thenP s5Inv_def)
next
  case (Some u)
  have key: "s5Keep n0 u b" using assms(1) Some by (simp add: s5Keep_def)
  have up: "sopen b" using assms(1) Some by (auto simp: s5Inv_def)
  have "pres (s5Keep n0 u) (bindP (atom (onSNet (readFrom u k))) (\<lambda>r.
         case r of
           Inl e \<Rightarrow> thenP s5IsOpen (\<lambda>op. if \<not> op then Done (Inl ErrClosed) else Done (Inl e))
         | Inr (n, src, p) \<Rightarrow> Done (Inr (n, p, newSocks5EndpointFromAddrPort src))))"
    unfolding s5IsOpen_def
    by (rule pres_bindP [OF pres_session [OF readFrom_only readFrom_same_open]])
      (auto intro!: pres_thenP pres_atom pres_Done split: sum.split prod.split)
  from specD [OF this key, of r b'] have "s5Keep n0 u b'"
    using assms(2) Some up by (auto simp: s5Receive_def currentSession_def runP_thenP)
  with up show ?thesis by (auto simp: s5Keep_def s5Inv_def)
qed

lemma s5Send_closed:
  assumes "s5Inv n0 b" "\<not> sopen b" "runP (s5Send (EpSocks5 dst) bufs) b = (r, b')"
  shows "b' = b \<and> r = Err ErrClosed"
  using assms by (auto simp: s5Send_def currentSession_def runP_thenP)

lemma s5Receive_closed: "\<not> sopen b \<Longrightarrow> runP (s5Receive k) b = (Err ErrClosed, b)"
  by (simp add: s5Receive_def currentSession_def runP_thenP)

text \<open>\<open>Socks5Bind\<close> keeps the contract of \<open>conn.Bind\<close>, for sends to endpoints of its own.\<close>

interpretation s5: wg_bind "s5Open netDial server ctx" s5Close "s5Send (EpSocks5 dst)" s5Receive
    sopen "s5Inv n0" for server ctx dst n0
proof unfold_locales
  fix s :: socks5_bind
  assume s: "s5Inv n0 s"
  show "sopen s \<Longrightarrow> runP (s5Open netDial server ctx) s = (Err ErrBindAlreadyOpen, s)" by (rule s5Open_twice)
  show "\<not> sopen s \<Longrightarrow> runP (s5Open netDial server ctx) s = (r, s') \<Longrightarrow>
      s5Inv n0 s' \<and> (sopen s' \<longleftrightarrow> r = Ok ())" for r s'
    using direct.s5Open_spec s by blast
  show "runP s5Close s = (r, s') \<Longrightarrow> r = Ok () \<and> s5Inv n0 s' \<and> \<not> sopen s'" for r s'
    using s5Close_spec s by blast
  show "\<not> sopen s \<Longrightarrow> runP s5Close s = (Ok (), s)" using s5Close_again s by blast
  show "runP (s5Send (EpSocks5 dst) bufs) s = (r, s') \<Longrightarrow> s5Inv n0 s' \<and> sopen s' = sopen s" for bufs r s'
    using s5Send_keeps s by blast
  show "runP (s5Receive n) s = (r', s') \<Longrightarrow> s5Inv n0 s' \<and> sopen s' = sopen s" for n r' s'
    using s5Receive_keeps s by blast
  show "\<not> sopen s \<Longrightarrow> runP (s5Send (EpSocks5 dst) bufs) s = (r, s') \<Longrightarrow>
      s' = s \<and> (bufs \<noteq> [] \<and> length (hd bufs) \<le> 65535 \<longrightarrow> r = Err ErrClosed)" for bufs r s'
    using s5Send_closed [OF s] by blast
  show "\<not> sopen s \<Longrightarrow> runP (s5Receive n) s = (Err ErrClosed, s)" for n by (rule s5Receive_closed)
qed

section \<open>Properties\<close>

text \<open>
  C32: a SOCKS5 bind leaks nothing over its life. After any sequence of \<open>Open\<close>, \<open>Close\<close>, \<open>Send\<close> and
  \<open>receive\<close> calls the bind is open exactly when it has a session, the session's control and
  relay connections are open, every other connection made on the way is closed, and the
  connections of others are untouched.
\<close>

theorem socks5Bind_no_leak:
  "s5Inv n0 (fold (runCall (s5Open netDial server ctx) s5Close (s5Send (EpSocks5 dst)) s5Receive) cs
     (newSocks5Bind n0))"
proof -
  have "s5Inv n0 (newSocks5Bind n0)" by (auto simp: s5Inv_def newSocks5Bind_def new_closed_def)
  then show ?thesis by (rule s5.calls_inv)
qed

text \<open>
  Endpoints survive being printed and parsed. Every endpoint \<open>ParseEndpoint\<close> returns prints,
  with \<open>DstToString\<close>, as a string that \<open>ParseEndpoint\<close> reads back as the same endpoint: host,
  port and, when the host is a literal, address.
\<close>

lemma s5ParseEndpoint_print:
  assumes "s5ParseEndpoint s = Inr e"
  shows "s5ParseEndpoint (s5DstToString e) = Inr e"
proof -
  from assms obtain host portStr port where p: "splitHostPort s = Inr (host, portStr)" "parseUint16 portStr = Inr port"
    and e: "e = \<lparr>ehost = host, eport = word_of_nat port,
       eaddr = (case parseAddr host of Inr a \<Rightarrow> (a, word_of_nat port) | Inl _ \<Rightarrow> (NoAddr, 0))\<rparr>"
    by (auto simp: s5ParseEndpoint_def split: sum.splits prod.splits)
  have u: "unat (word_of_nat port :: uint16) = port"
    using parseUint16_bound [OF p(2)] by (simp add: unat_of_nat)
  have "splitHostPort (s5DstToString e) = Inr (host, formatUint port)"
    using splitHostPort_join_format [OF splitHostPort_no_bracket [OF p(1)]] e u by (simp add: s5DstToString_def)
  moreover have "parseUint16 (formatUint port) = Inr port"
    using parseUint16_formatUint [of "word_of_nat port"] u by simp
  ultimately show ?thesis using e by (simp add: s5ParseEndpoint_def)
qed

lemma s5ParseEndpoint_print_witness:
  "\<exists>e. s5ParseEndpoint ''[2001:DB8::1]:051820'' = Inr e \<and> s5DstToString e = ''[2001:DB8::1]:51820'' \<and>
     s5ParseEndpoint ''[2001:DB8::1]:51820'' = Inr e"
proof -
  let ?e = "projr (s5ParseEndpoint ''[2001:DB8::1]:051820'')"
  have "isl (s5ParseEndpoint ''[2001:DB8::1]:051820'') = False" by code_simp
  then have e: "s5ParseEndpoint ''[2001:DB8::1]:051820'' = Inr ?e" by (auto simp: isl_def)
  moreover have "s5DstToString ?e = ''[2001:DB8::1]:51820''" by code_simp
  ultimately show ?thesis using s5ParseEndpoint_print [OF e] by auto
qed

text \<open>
  C39: what goes out comes back. A datagram sent to an endpoint made from an address and echoed
  by the relay is received with the same payload and an endpoint for the same address and
  port (only an IPv6 zone is not carried by SOCKS5).
\<close>

theorem s5_echo:
  assumes "sopen a" "sess a = Some u" "writable (snet a) (connC u) 1" "wf_addr ad" "addr_valid ad"
    and "length p \<le> 65535" "length p \<le> buflen"
    and "runP (s5Send (EpSocks5 (newSocks5EndpointFromAddrPort (ad, port))) [p]) a = (r, a')"
    and "sopen b" "sess b = Some v" "readable (snet b) (connC v)"
    and "dgrams (heap (snet b) ! connC v) = last (tx (heap (snet a') ! connC u)) # ds"
  shows "r = Ok () \<and> fst (runP (s5Receive buflen) b) =
     Ok (length p, p, newSocks5EndpointFromAddrPort (noZone ad, port))"
proof -
  let ?d = "udp_bytes 0 0 (addr_saddr ad) port p"
  have w: "writeToHost u p (addr_string ad) port (snet a) = (Inr (length p), putTx (connC u) ?d (snet a))"
    using write_putTx [of "snet a" "connC u" 0 ?d] assms(3) udp_header_bytes [OF assms(4,5), of port]
    by (simp add: writeToHost_def udp_bytes_append length_udp_bytes [of _ _ _ _ p])
  then have s: "r = Ok ()" "snet a' = putTx (connC u) ?d (snet a)"
    using assms(1,2,8)
    by (auto simp: s5Send_def currentSession_def runP_thenP onSNet_def newSocks5EndpointFromAddrPort_def)
  then have d: "dgrams (heap (snet b) ! connC v) = ?d # ds"
    using assms(12) writable_readable [OF assms(3)] by simp
  have "length ?d \<le> readBufSize" using assms(4-6) by (cases ad) (auto simp: udp_bytes_def readBufSize_def)
  then obtain n where "c_readDgram (connC v) readBufSize (snet b) = (Inr ?d, n)"
    using assms(11) d by (simp add: c_readDgram_def readable_def)
  moreover have "udp_parse ?d = Inr ((noZone ad, port), p)"
    using udp_parse_udp_bytes [OF wf_addr_saddr [OF assms(4)]] saddr_addr_addr [OF assms(5)] by simp
  ultimately have "readFrom v buflen (snet b) = (Inr (length p, (noZone ad, port), p), n)"
    using assms(7) by (simp add: readFrom_def)
  then have "fst (runP (s5Receive buflen) b) = Ok (length p, p, newSocks5EndpointFromAddrPort (noZone ad, port))"
    using assms(9,10) by (simp add: s5Receive_def currentSession_def runP_thenP runP_bindP onSNet_def)
  with s(1) show ?thesis by simp
qed

definition relayBind :: "bytes list \<Rightarrow> socks5_bind" where
  "relayBind ds = \<lparr>sopen = True, sess = Some \<lparr>ctrlC = 0, connC = 1\<rparr>,
     snet = peerNet [peerConn [] [], peerConn [] ds] []\<rparr>"

theorem s5_echo_witness:
  "fst (runP (s5Receive 1500) (relayBind [[0, 0, 0, 1, 10, 0, 0, 1, 0, 53, 97]])) =
     Ok (1, [97], newSocks5EndpointFromAddrPort (A4 [10, 0, 0, 1], 53))"
proof -
  let ?b = "relayBind [[0, 0, 0, 1, 10, 0, 0, 1, 0, 53, 97]]" and ?u = "\<lparr>ctrlC = 0, connC = 1\<rparr>"
  let ?m = "s5Send (EpSocks5 (newSocks5EndpointFromAddrPort (A4 [10, 0, 0, 1], 53))) [[97]]"
  obtain r a' where s: "runP ?m (relayBind []) = (r, a')" by fastforce
  have "last (tx (heap (snet (snd (runP ?m (relayBind [])))) ! 1)) = [0, 0, 0, 1, 10, 0, 0, 1, 0, 53, 97]"
    by code_simp
  then have l: "dgrams (heap (snet ?b) ! connC ?u) = last (tx (heap (snet a') ! connC ?u)) # []"
    unfolding s by (simp add: relayBind_def peerNet_def peerConn_def)
  show ?thesis
    using s5_echo [OF _ _ _ _ _ _ _ s _ _ _ l, of 1500]
    by (simp add: relayBind_def peerNet_def peerConn_def writable_def readable_def noZone_def)
qed

end
