(* ===== verification/Config.thy ===== *)
theory Config
  imports Socks5Bind
begin

text \<open>
  \<open>config.go\<close>: the configuration, its defaults from the environment, the lists of addresses and
  prefixes it parses, and \<open>finalize\<close>, which accepts or rejects it. The lemmas characterise the
  configurations \<open>finalize\<close> accepts, exactly, and show that lists of addresses and prefixes
  survive printing and parsing.
\<close>

section \<open>The configuration\<close>

record config =
  NoWireGuard :: bool
  WGEndpoint :: string
  WGPublicKey :: string
  WGPresharedKey :: string
  WGPrivateKey :: string
  WGAddress :: "addr list"
  WGAllowedIPs :: "prefix list"
  WGMTU :: int
  WGPersistentKA :: int
  WGOverTCP :: bool
  OuterSocks5 :: string
  InnerSocks5 :: string
  TunDev :: string
  TunMTU :: int
  NetnsResolvNameserver :: string
  WarpSvcCmd :: string
  WarpCli :: string
  WarpProtocol :: string
  WarpConnectRetry :: int
  WarpConnectDelay :: int
  WarpReadyTimeout :: int
  WarpIface :: string
  WarpStateDir :: string
  LogFile :: string
  ProxyListen :: string
  wgAddrRaw :: string
  wgAllowedRaw :: string

type_synonym environ = "string \<Rightarrow> string option"

section \<open>Defaults from the environment\<close>

definition getenv :: "environ \<Rightarrow> string \<Rightarrow> string" where
  "getenv env key = (case env key of None \<Rightarrow> '''' | Some v \<Rightarrow> v)"

definition envOr :: "environ \<Rightarrow> string \<Rightarrow> string \<Rightarrow> string" where
  "envOr env key d = (case env key of Some v \<Rightarrow> v | None \<Rightarrow> d)"

definition envInt :: "environ \<Rightarrow> string \<Rightarrow> int \<Rightarrow> int" where
  "envInt env key d =
     (let v = getenv env key
      in if v = '''' then d else case atoi v of Inl e \<Rightarrow> d | Inr n \<Rightarrow> n)"

text \<open>\<open>ulow\<close> is \<open>unicode.ToLower\<close> beyond ASCII, see \<open>toLower\<close>.\<close>

definition envBool :: "(rune \<Rightarrow> rune) \<Rightarrow> environ \<Rightarrow> string \<Rightarrow> bool \<Rightarrow> bool" where
  "envBool ulow env key d =
     (let v = toLower ulow (trimSpace (getenv env key))
      in if v = '''' then d
         else if v \<in> {''1'', ''true'', ''yes'', ''on''} then True
         else if v \<in> {''0'', ''false'', ''no'', ''off''} then False
         else d)"

text \<open>
  \<open>registerCommonFlags\<close> sets every field that has a flag to the default of the flag; the fields
  without one keep their value.
\<close>

definition registerCommonFlags :: "(rune \<Rightarrow> rune) \<Rightarrow> environ \<Rightarrow> config \<Rightarrow> config" where
  "registerCommonFlags ulow env c = c\<lparr>
     NoWireGuard := envBool ulow env ''NO_WIREGUARD'' False,
     WGEndpoint := envOr env ''WG_ENDPOINT'' '''',
     WGPublicKey := envOr env ''WG_PUBLIC_KEY'' '''',
     WGPresharedKey := envOr env ''WG_PRESHARED_KEY'' '''',
     InnerSocks5 := envOr env ''INNER_SOCKS5'' '''',
     OuterSocks5 := envOr env ''OUTER_SOCKS5'' '''',
     wgAddrRaw := envOr env ''WG_ADDRESS'' '''',
     wgAllowedRaw := envOr env ''WG_ALLOWED_IPS'' ''0.0.0.0/0,::/0'',
     WGMTU := envInt env ''WG_MTU'' 1280,
     WGPersistentKA := envInt env ''WG_PERSISTENT_KEEPALIVE'' 25,
     WGOverTCP := envBool ulow env ''WG_OVER_TCP'' False,
     TunDev := envOr env ''TUN_DEV'' '''',
     TunMTU := envInt env ''TUN_MTU'' 1420,
     NetnsResolvNameserver := envOr env ''RESOLV_NAMESERVER'' ''8.8.8.8'',
     WarpSvcCmd := envOr env ''WARP_SVC_CMD'' ''warp-svc'',
     WarpCli := envOr env ''WARP_CLI'' ''warp-cli'',
     WarpProtocol := envOr env ''WARP_PROTOCOL'' ''WireGuard'',
     WarpConnectRetry := envInt env ''WARP_CONNECT_RETRIES'' 5,
     WarpConnectDelay := envInt env ''WARP_CONNECT_DELAY'' 2,
     WarpReadyTimeout := envInt env ''WARP_READY_TIMEOUT'' 60,
     WarpIface := envOr env ''WARP_IFACE'' ''CloudflareWARP'',
     WarpStateDir := envOr env ''WARP_STATE_DIR'' '''',
     LogFile := envOr env ''LOG_FILE'' ''''\<rparr>"

section \<open>Lists\<close>

definition parseAddrItem :: "string \<Rightarrow> goerr + addr" where
  "parseAddrItem raw =
     (if contains_str raw ''/''
      then (case parsePrefix raw of
              Inl e \<Rightarrow> Inl (Wrapf ''invalid wg-address %q: %w'' [AStr raw] e)
            | Inr p \<Rightarrow> Inr (fst p))
      else (case parseAddr raw of
              Inl e \<Rightarrow> Inl (Wrapf ''invalid wg-address %q: %w'' [AStr raw] e)
            | Inr a \<Rightarrow> Inr a))"

definition parsePrefixItem :: "string \<Rightarrow> goerr + prefix" where
  "parsePrefixItem raw =
     (case parsePrefix raw of
        Inl e \<Rightarrow> Inl (Wrapf ''invalid allowed-ip %q: %w'' [AStr raw] e)
      | Inr p \<Rightarrow> Inr p)"

text \<open>The loop both functions have, over the elements between the commas.\<close>

fun parseItems :: "(string \<Rightarrow> goerr + 'a) \<Rightarrow> string list \<Rightarrow> goerr + 'a list" where
  "parseItems item [] = Inr []"
| "parseItems item (raw # raws) =
     (let raw = trimSpace raw
      in if raw = '''' then parseItems item raws
         else case item raw of
                Inl e \<Rightarrow> Inl e
              | Inr x \<Rightarrow> (case parseItems item raws of Inl e \<Rightarrow> Inl e | Inr xs \<Rightarrow> Inr (x # xs)))"

definition parseAddrList :: "string \<Rightarrow> goerr + addr list" where
  "parseAddrList s = parseItems parseAddrItem (split_on CHR '','' s)"

definition parsePrefixList :: "string \<Rightarrow> goerr + prefix list" where
  "parsePrefixList s = parseItems parsePrefixItem (split_on CHR '','' s)"

section \<open>Finalizing\<close>

definition defaultAllowedIPs :: "prefix list" where
  "defaultAllowedIPs = [(A4 [0, 0, 0, 0], 0), (A6 (replicate 16 0) [], 0)]"

definition finalize :: "environ \<Rightarrow> (config, unit) sem" where
  "finalize env = (\<lambda>c.
     if InnerSocks5 c = '''' then (Inl (Errorf ''--inner-socks5 / INNER_SOCKS5 is required'' []), c)
     else (case splitHostPort (InnerSocks5 c) of
       Inl e \<Rightarrow> (Inl (Wrapf ''invalid inner socks5 address %q: %w'' [AStr (InnerSocks5 c)] e), c)
     | Inr _ \<Rightarrow>
       if NoWireGuard c then (Inr (), c)
       else (case parseAddrList (wgAddrRaw c) of
         Inl e \<Rightarrow> (Inl e, c\<lparr>WGAddress := []\<rparr>)
       | Inr as \<Rightarrow>
         let c = c\<lparr>WGAddress := as\<rparr> in
         (case parsePrefixList (wgAllowedRaw c) of
            Inl e \<Rightarrow> (Inl e, c\<lparr>WGAllowedIPs := []\<rparr>)
          | Inr ps \<Rightarrow>
            let c = c\<lparr>WGAllowedIPs := ps, WGPrivateKey := getenv env ''WG_PRIVATE_KEY''\<rparr> in
            if WGPrivateKey c = '''' then (Inl (Errorf ''WG_PRIVATE_KEY env var is required'' []), c)
            else if WGEndpoint c = '''' then (Inl (Errorf ''--wg-endpoint / WG_ENDPOINT is required'' []), c)
            else if WGPublicKey c = '''' then (Inl (Errorf ''--wg-public-key / WG_PUBLIC_KEY is required'' []), c)
            else (case validateOuterSocks5 (OuterSocks5 c) of
              Inl e \<Rightarrow> (Inl e, c)
            | Inr _ \<Rightarrow>
              if WGAddress c = []
              then (Inl (Errorf ''--wg-address / WG_ADDRESS is required (e.g. 10.66.123.45/32)'' []), c)
              else
                let c = (if WGAllowedIPs c = [] then c\<lparr>WGAllowedIPs := defaultAllowedIPs\<rparr> else c) in
                if length (WarpIface c) = 0 \<or> length (WarpIface c) > 15
                then (Inl (Errorf ''--warp-iface must be 1..15 bytes (got %d)'' [AInt (int (length (WarpIface c)))]), c)
                else if TunDev c \<noteq> '''' \<and> length (TunDev c) > 15
                then (Inl (Errorf ''--tun-dev must be 1..15 bytes (got %d)'' [AInt (int (length (TunDev c)))]), c)
                else (Inr (), c))))))"

section \<open>What is accepted\<close>

text \<open>The configurations with which the program starts.\<close>

definition acceptable :: "environ \<Rightarrow> config \<Rightarrow> bool" where
  "acceptable env c \<longleftrightarrow>
     InnerSocks5 c \<noteq> '''' \<and> isl (splitHostPort (InnerSocks5 c)) = False \<and>
     (NoWireGuard c \<or>
        (\<exists>as ps. parseAddrList (wgAddrRaw c) = Inr as \<and> as \<noteq> [] \<and> parsePrefixList (wgAllowedRaw c) = Inr ps) \<and>
        getenv env ''WG_PRIVATE_KEY'' \<noteq> '''' \<and> WGEndpoint c \<noteq> '''' \<and> WGPublicKey c \<noteq> '''' \<and>
        (OuterSocks5 c = '''' \<or> isl (splitHostPort (OuterSocks5 c)) = False) \<and>
        WarpIface c \<noteq> '''' \<and> length (WarpIface c) \<le> 15 \<and> length (TunDev c) \<le> 15)"

text \<open>What the rest of the program may rely on when a tunnel is used.\<close>

definition wfPrefix :: "prefix \<Rightarrow> bool" where
  "wfPrefix p \<longleftrightarrow> wf_addr (fst p) \<and> addr_valid (fst p) \<and> addr_zone (fst p) = [] \<and>
     snd p \<le> (if addr_is4 (fst p) then 32 else 128)"

lemma parsePrefix_wf: "parsePrefix s = Inr p \<Longrightarrow> wfPrefix p"
  by (auto simp: parsePrefix_def wfPrefix_def Let_def split: option.splits sum.splits if_splits
      dest!: parseAddr_wf)

lemma parseAddrItem_wf: "parseAddrItem s = Inr a \<Longrightarrow> wf_addr a \<and> addr_valid a"
  by (auto simp: parseAddrItem_def wfPrefix_def split: sum.splits if_splits dest: parseAddr_wf parsePrefix_wf)

lemma parsePrefixItem_wf: "parsePrefixItem s = Inr p \<Longrightarrow> wfPrefix p"
  by (auto simp: parsePrefixItem_def split: sum.splits dest: parsePrefix_wf)

lemma parseItems_all:
  "(\<And>s x. item s = Inr x \<Longrightarrow> P x) \<Longrightarrow> parseItems item raws = Inr xs \<Longrightarrow> list_all P xs"
  by (induction raws arbitrary: xs) (auto simp: Let_def split: if_splits sum.splits)

lemma parseItems_print:
  assumes "list_all (\<lambda>x. pr x \<noteq> [] \<and> trimSpace (pr x) = pr x \<and> item (pr x) = Inr x) xs"
  shows "parseItems item (map pr xs) = Inr xs"
  using assms by (induction xs) (auto simp: Let_def)

subsection \<open>Printed addresses and prefixes\<close>

definition addr_char :: "char \<Rightarrow> bool" where
  "addr_char c \<longleftrightarrow> is_hex c \<or> c = CHR ''.'' \<or> c = CHR '':''"

lemma ipv4_string_chars: "list_all addr_char (ipv4_string b)"
  using set_ipv4_string [of _ b] by (auto simp: list_all_iff addr_char_def is_hex_def)

lemma ipv6_string_chars: "list_all addr_char (ipv6_string b)"
  using set_groups_string [of _ "groups b"] by (auto simp: list_all_iff addr_char_def ipv6_string_def)

lemma addr_string_chars: "addr_valid a \<Longrightarrow> addr_zone a = [] \<Longrightarrow> list_all addr_char (addr_string a)"
  by (cases a) (auto simp: ipv4_string_chars ipv6_string_chars addr_char_def is_hex_def)

lemma addr_char_graphic: "addr_char c \<Longrightarrow> graphic c"
  by (auto simp: addr_char_def is_hex_def is_digit_def graphic_def)

lemma addr_string_neq_Nil: "wf_addr a \<Longrightarrow> addr_valid a \<Longrightarrow> addr_string a \<noteq> []"
proof
  assume "wf_addr a" "addr_valid a" "addr_string a = []"
  with parseAddr_addr_string [of a] show False by (simp add: parseAddr_def)
qed

lemma hd_formatUint: "0 < n \<Longrightarrow> 49 \<le> ord (hd (formatUint n)) \<and> ord (hd (formatUint n)) \<le> 57"
proof (induction n rule: formatUint.induct)
  case (1 n)
  show ?case
  proof (cases "n < 10")
    case True
    then have "formatUint n = [digit_chr n]" by (subst formatUint.simps) simp
    with True "1.prems" show ?thesis by (simp add: digit_chr_def)
  next
    case False
    then have "formatUint n = formatUint (n div 10) @ [digit_chr (n mod 10)]" by (subst formatUint.simps) simp
    moreover have "49 \<le> ord (hd (formatUint (n div 10))) \<and> ord (hd (formatUint (n div 10))) \<le> 57"
      using False 1 by auto
    ultimately show ?thesis by simp
  qed
qed

lemma length_formatUint_0: "length (formatUint 0) = 1"
  by (subst formatUint.simps) simp

lemma atoi_formatUint:
  assumes "n < 2 ^ 63"
  shows "atoi (formatUint n) = Inr (int n)"
proof -
  have "hd (formatUint n) \<in> set (formatUint n)" by simp
  then have "is_digit (hd (formatUint n))" using formatUint_digits [of n] by (simp add: list_all_iff)
  then have "hd (formatUint n) \<noteq> CHR ''-''" "hd (formatUint n) \<noteq> CHR ''+''" by (auto simp: is_digit_def)
  moreover have "parseUint (2 ^ 64 - 1) (formatUint n) = Inr n"
    using assms by (intro parseUint_formatUint) simp
  ultimately show ?thesis using assms by (simp add: atoi_def)
qed

lemma parsePrefix_prefix_string:
  assumes "wfPrefix p"
  shows "parsePrefix (prefix_string p) = Inr p"
proof -
  let ?a = "fst p" and ?n = "snd p"
  have a: "wf_addr ?a" "addr_valid ?a" "addr_zone ?a = []" and n: "?n \<le> (if addr_is4 ?a then 32 else 128)"
    using assms by (simp_all add: wfPrefix_def)
  have "CHR ''/'' \<notin> set (formatUint ?n)" by (simp add: formatUint_not_member is_digit_def)
  then have i: "last_index_byte CHR ''/'' (prefix_string p) = Some (length (addr_string ?a))"
    unfolding prefix_string_def by (simp add: last_index_byte_append)
  have "?n < 2 ^ 63" using n by (auto split: if_splits)
  then have b: "atoi (formatUint ?n) = Inr (int ?n)" by (rule atoi_formatUint)
  have h: "length (formatUint ?n) > 1 \<Longrightarrow> 49 \<le> ord (hd (formatUint ?n)) \<and> ord (hd (formatUint ?n)) \<le> 57"
    using hd_formatUint [of ?n] length_formatUint_0 by (cases "?n = 0") auto
  have "take (length (addr_string ?a)) (prefix_string p) = addr_string ?a"
    "drop (Suc (length (addr_string ?a))) (prefix_string p) = formatUint ?n"
    by (simp_all add: prefix_string_def)
  with i b h a n parseAddr_addr_string [OF a(1,2)] show ?thesis
    by (cases p) (auto simp: parsePrefix_def Let_def split: if_splits)
qed

definition prefix_char :: "char \<Rightarrow> bool" where
  "prefix_char c \<longleftrightarrow> addr_char c \<or> c = CHR ''/''"

lemma prefix_char_graphic: "prefix_char c \<Longrightarrow> graphic c \<and> c \<noteq> CHR '',''"
  by (auto simp: prefix_char_def addr_char_graphic addr_char_def is_hex_def is_digit_def graphic_def)

lemma prefix_string_chars: "wfPrefix p \<Longrightarrow> list_all prefix_char (prefix_string p)"
  using addr_string_chars [of "fst p"] formatUint_digits [of "snd p"]
  by (auto simp: prefix_string_def wfPrefix_def prefix_char_def list_all_iff addr_char_def is_hex_def)

lemma trim_chars:
  assumes "list_all prefix_char s" "s \<noteq> []"
  shows "trimSpace s = s" "CHR '','' \<notin> set s"
proof -
  have "graphic c \<and> c \<noteq> CHR '',''" if "c \<in> set s" for c
    using assms(1) that prefix_char_graphic by (auto simp: list_all_iff)
  with assms(2) show "trimSpace s = s" "CHR '','' \<notin> set s" by (auto intro!: trimSpace_graphic)
qed

lemma finalize_acceptable: "finalize env c = (Inr (), c') \<Longrightarrow> acceptable env c"
  by (auto simp: finalize_def acceptable_def validateOuterSocks5_def Let_def isl_def split: sum.splits if_splits)

lemma finalize_value:
  assumes "acceptable env c" "\<not> NoWireGuard c" "parseAddrList (wgAddrRaw c) = Inr as" "parsePrefixList (wgAllowedRaw c) = Inr ps"
  shows "finalize env c = (Inr (), c\<lparr>WGAddress := as, WGAllowedIPs := (if ps = [] then defaultAllowedIPs else ps),
        WGPrivateKey := getenv env ''WG_PRIVATE_KEY''\<rparr>)"
proof -
  from assms(1) obtain h where "splitHostPort (InnerSocks5 c) = Inr h"
    by (cases "splitHostPort (InnerSocks5 c)") (auto simp: acceptable_def)
  moreover have "validateOuterSocks5 (OuterSocks5 c) = Inr ()"
    using assms(1,2) by (cases "splitHostPort (OuterSocks5 c)") (auto simp: acceptable_def validateOuterSocks5_def)
  moreover have "as \<noteq> []" using assms by (auto simp: acceptable_def)
  ultimately show ?thesis using assms by (auto simp: finalize_def acceptable_def)
qed

lemma finalize_nowg: "acceptable env c \<Longrightarrow> NoWireGuard c \<Longrightarrow> finalize env c = (Inr (), c)"
  by (cases "splitHostPort (InnerSocks5 c)") (auto simp: finalize_def acceptable_def)

section \<open>Properties\<close>

text \<open>
  C22: \<open>finalize\<close> accepts exactly the acceptable configurations: an inner proxy address with host
  and port, and, unless WireGuard is off, addresses and prefixes that parse, at least one
  address, a private key in the environment, an endpoint and a public key, a well-formed
  outer proxy if any, and interface names that fit the kernel's 15 bytes.
\<close>

theorem finalize_accepts:
  "(\<exists>c'. finalize env c = (Inr (), c')) \<longleftrightarrow> acceptable env c"
proof
  assume "\<exists>c'. finalize env c = (Inr (), c')"
  then show "acceptable env c" using finalize_acceptable by blast
next
  assume a: "acceptable env c"
  show "\<exists>c'. finalize env c = (Inr (), c')"
  proof (cases "NoWireGuard c")
    case True
    with a show ?thesis using finalize_nowg by blast
  next
    case False
    with a obtain as ps where "parseAddrList (wgAddrRaw c) = Inr as" "parsePrefixList (wgAllowedRaw c) = Inr ps"
      by (auto simp: acceptable_def)
    from finalize_value [OF a False this] show ?thesis by blast
  qed
qed

text \<open>
  C23: what an accepted configuration guarantees. When \<open>finalize\<close> succeeds with WireGuard on, the
  addresses are valid and there is at least one, the allowed prefixes are valid, within their
  address length and there is at least one, and no field was changed but those two and the
  private key.
\<close>

theorem finalize_guarantees:
  assumes "finalize env c = (Inr (), c')" "\<not> NoWireGuard c"
  shows "WGAddress c' \<noteq> [] \<and> list_all (\<lambda>a. wf_addr a \<and> addr_valid a) (WGAddress c') \<and>
     WGAllowedIPs c' \<noteq> [] \<and> list_all wfPrefix (WGAllowedIPs c') \<and>
     c' = c\<lparr>WGAddress := WGAddress c', WGAllowedIPs := WGAllowedIPs c', WGPrivateKey := getenv env ''WG_PRIVATE_KEY''\<rparr>"
proof -
  have "acceptable env c" using finalize_acceptable assms(1) by blast
  then obtain as ps where l: "parseAddrList (wgAddrRaw c) = Inr as" "parsePrefixList (wgAllowedRaw c) = Inr ps"
    and as: "as \<noteq> []" using assms(2) by (auto simp: acceptable_def)
  have c': "c' = c\<lparr>WGAddress := as, WGAllowedIPs := (if ps = [] then defaultAllowedIPs else ps),
        WGPrivateKey := getenv env ''WG_PRIVATE_KEY''\<rparr>"
    using assms finalize_value [OF \<open>acceptable env c\<close> assms(2) l] by simp
  have "list_all (\<lambda>a. wf_addr a \<and> addr_valid a) as"
    using parseItems_all [OF parseAddrItem_wf l(1) [unfolded parseAddrList_def]] .
  moreover have "list_all wfPrefix ps"
    using parseItems_all [OF parsePrefixItem_wf l(2) [unfolded parsePrefixList_def]] .
  moreover have "list_all wfPrefix defaultAllowedIPs" "defaultAllowedIPs \<noteq> []"
    by (simp_all add: defaultAllowedIPs_def wfPrefix_def)
  ultimately show ?thesis using as c' by simp
qed

definition sampleEnv :: environ where
  "sampleEnv k = (if k = ''WG_PRIVATE_KEY'' then Some ''secret''
     else if k = ''INNER_SOCKS5'' then Some ''10.0.0.1:1080'' else if k = ''WG_ENDPOINT'' then Some ''wg.example.net:51820''
     else if k = ''WG_PUBLIC_KEY'' then Some ''pub'' else if k = ''WG_ADDRESS'' then Some '' 10.66.0.2/32, fd00::2''
     else None)"

definition emptyConfig :: config where
  "emptyConfig = \<lparr>NoWireGuard = False, WGEndpoint = [], WGPublicKey = [], WGPresharedKey = [], WGPrivateKey = [],
     WGAddress = [], WGAllowedIPs = [], WGMTU = 0, WGPersistentKA = 0, WGOverTCP = False, OuterSocks5 = [],
     InnerSocks5 = [], TunDev = [], TunMTU = 0, NetnsResolvNameserver = [], WarpSvcCmd = [], WarpCli = [],
     WarpProtocol = [], WarpConnectRetry = 0, WarpConnectDelay = 0, WarpReadyTimeout = 0, WarpIface = [],
     WarpStateDir = [], LogFile = [], ProxyListen = [], wgAddrRaw = [], wgAllowedRaw = []\<rparr>"

theorem finalize_guarantees_witness:
  "let c = registerCommonFlags id sampleEnv emptyConfig
   in list_all (\<lambda>a. wf_addr a \<and> addr_valid a) (WGAddress (snd (finalize sampleEnv c))) \<and>
      length (WGAddress (snd (finalize sampleEnv c))) = 2"
proof -
  let ?c = "registerCommonFlags id sampleEnv emptyConfig"
  have "fst (finalize sampleEnv ?c) = Inr ()" by code_simp
  then have f: "finalize sampleEnv ?c = (Inr (), snd (finalize sampleEnv ?c))" by (metis prod.collapse)
  have n: "\<not> NoWireGuard ?c" by code_simp
  have "length (WGAddress (snd (finalize sampleEnv ?c))) = 2" by code_simp
  with finalize_guarantees [OF f n] show ?thesis by (simp add: Let_def)
qed

text \<open>
  C37: a list of addresses survives printing and parsing: joined by commas, any valid addresses
  without a zone are read back as they are, in order, with none lost.
\<close>

theorem parseAddrList_print:
  assumes "as \<noteq> []" "list_all (\<lambda>a. wf_addr a \<and> addr_valid a \<and> addr_zone a = []) as"
  shows "parseAddrList (join_str '','' (map addr_string as)) = Inr as"
proof -
  have s: "addr_string a \<noteq> [] \<and> trimSpace (addr_string a) = addr_string a \<and>
      CHR '','' \<notin> set (addr_string a) \<and> parseAddrItem (addr_string a) = Inr a" if "a \<in> set as" for a
  proof -
    have a: "wf_addr a" "addr_valid a" "addr_zone a = []" using assms(2) that by (auto simp: list_all_iff)
    have c: "list_all addr_char (addr_string a)" by (rule addr_string_chars [OF a(2,3)])
    then have "list_all prefix_char (addr_string a)" by (auto simp: list_all_iff prefix_char_def)
    note t = trim_chars [OF this addr_string_neq_Nil [OF a(1,2)]]
    have "CHR ''/'' \<notin> set (addr_string a)" using c by (auto simp: list_all_iff addr_char_def is_hex_def is_digit_def)
    then have "\<not> contains_str (addr_string a) ''/''" by (auto simp: contains_str_iff)
    with t addr_string_neq_Nil [OF a(1,2)] parseAddr_addr_string [OF a(1,2)] show ?thesis
      by (simp add: parseAddrItem_def)
  qed
  have "split_on CHR '','' (join_str '','' (map addr_string as)) = map addr_string as"
    using assms(1) s by (intro split_on_join) (auto simp: list_all_iff)
  moreover have "parseItems parseAddrItem (map addr_string as) = Inr as"
    using s by (intro parseItems_print) (auto simp: list_all_iff)
  ultimately show ?thesis by (simp add: parseAddrList_def)
qed

theorem parseAddrList_print_witness:
  "parseAddrList (join_str '','' (map addr_string [A4 [10, 66, 0, 2], A6 (0xfd # replicate 15 0) []])) =
     Inr [A4 [10, 66, 0, 2], A6 (0xfd # replicate 15 0) []]"
  by (rule parseAddrList_print) simp_all

text \<open>
  A list of prefixes survives printing and parsing too: joined by commas, any valid prefixes,
  of every prefix length, are read back as they are, in order, with none lost.
\<close>

lemma parsePrefixList_print:
  assumes "ps \<noteq> []" "list_all wfPrefix ps"
  shows "parsePrefixList (join_str '','' (map prefix_string ps)) = Inr ps"
proof -
  have s: "prefix_string p \<noteq> [] \<and> trimSpace (prefix_string p) = prefix_string p \<and>
      CHR '','' \<notin> set (prefix_string p) \<and> parsePrefixItem (prefix_string p) = Inr p" if "p \<in> set ps" for p
  proof -
    have p: "wfPrefix p" using assms(2) that by (auto simp: list_all_iff)
    have "prefix_string p \<noteq> []" by (simp add: prefix_string_def)
    with trim_chars [OF prefix_string_chars [OF p]] parsePrefix_prefix_string [OF p] show ?thesis
      by (simp add: parsePrefixItem_def)
  qed
  have "split_on CHR '','' (join_str '','' (map prefix_string ps)) = map prefix_string ps"
    using assms(1) s by (intro split_on_join) (auto simp: list_all_iff)
  moreover have "parseItems parsePrefixItem (map prefix_string ps) = Inr ps"
    using s by (intro parseItems_print) (auto simp: list_all_iff)
  ultimately show ?thesis by (simp add: parsePrefixList_def)
qed

lemma parsePrefixList_print_witness:
  "parsePrefixList (join_str '','' (map prefix_string defaultAllowedIPs)) = Inr defaultAllowedIPs"
  by (rule parsePrefixList_print) (simp_all add: defaultAllowedIPs_def wfPrefix_def)

text \<open>
  Without WireGuard the interface names are not checked. \<open>finalize\<close> returns before the length
  checks when \<open>--no-wireguard\<close> is given, and accepts interface names of any length, although
  the WARP interface and the TUN device are used in that mode too.
\<close>

lemma finalize_nowireguard_unchecked:
  "finalize env (c\<lparr>NoWireGuard := True, InnerSocks5 := ''10.0.0.1:1080'', WarpIface := name, TunDev := dev\<rparr>) =
     (Inr (), c\<lparr>NoWireGuard := True, InnerSocks5 := ''10.0.0.1:1080'', WarpIface := name, TunDev := dev\<rparr>)"
proof -
  have "splitHostPort ''10.0.0.1:1080'' = Inr (''10.0.0.1'', ''1080'')" by code_simp
  then show ?thesis by (simp add: finalize_def)
qed

end
