(* ===== verification/WarpCmd.thy ===== *)
theory WarpCmd
  imports Config
begin

text \<open>
  \<open>warpcmd.go\<close> and \<open>splitArgs\<close> of \<open>warp.go\<close>: the command lines of the WARP programs are split
  into arguments, their executables located and bound into the sandbox under \<open>/warp\<close>, and the
  command lines rewritten. The lemmas: what is joined splits back into the same arguments,
  the bind targets lie directly in \<open>/warp\<close>, and no two commands are bound to one target unless
  they are one executable. Go's \<open>path.Clean\<close>, \<open>Base\<close> and \<open>Join\<close> are modelled on the components of
  a path; \<open>exec.LookPath\<close> and the working directory are arguments.
\<close>

section \<open>Splitting a command line\<close>

definition isBlank :: "rune \<Rightarrow> bool" where "isBlank r \<longleftrightarrow> r = 32 \<or> r = 9"

text \<open>The loop over the runes; \<open>out\<close> in order, \<open>cur\<close> the argument so far.\<close>

fun splitLoop :: "string list \<Rightarrow> rune list \<Rightarrow> bool \<Rightarrow> bool \<Rightarrow> rune list \<Rightarrow> string list \<times> rune list \<times> bool" where
  "splitLoop out cur inQuote escape [] = (out, cur, inQuote)"
| "splitLoop out cur inQuote escape (r # rs) =
     (if escape then splitLoop out (cur @ [r]) inQuote False rs
      else if r = 92 then splitLoop out cur inQuote True rs
      else if r = 34 then splitLoop out cur (\<not> inQuote) False rs
      else if isBlank r \<and> \<not> inQuote then
        if cur \<noteq> [] then splitLoop (out @ [string_of_runes cur]) [] inQuote False rs
        else splitLoop out cur inQuote False rs
      else splitLoop out (cur @ [r]) inQuote False rs)"

definition splitArgs :: "string \<Rightarrow> goerr + string list" where
  "splitArgs s =
     (case splitLoop [] [] False False (runes s) of
        (out, cur, inQuote) \<Rightarrow>
          if inQuote then Inl (Errorf ''unterminated quote in command'' [])
          else let out = (if cur \<noteq> [] then out @ [string_of_runes cur] else out)
               in if out = [] then Inl (Errorf ''empty command'' []) else Inr out)"

section \<open>Joining it again\<close>

definition quoteArg :: "string \<Rightarrow> string" where
  "quoteArg arg =
     (if arg \<noteq> '''' \<and> \<not> contains_any arg [CHR '' '', CHR 0x09, CHR 0x22, CHR 0x5C] then arg
      else let arg = replace_all CHR 0x5C [CHR 0x5C, CHR 0x5C] arg;
               arg = replace_all CHR 0x22 [CHR 0x5C, CHR 0x22] arg
           in [CHR 0x22] @ arg @ [CHR 0x22])"

definition joinArgs :: "string list \<Rightarrow> string" where
  "joinArgs args = join_str '' '' (map quoteArg args)"

section \<open>Paths\<close>

text \<open>
  \<open>path.Clean\<close>: empty and \<open>.\<close> components go, \<open>..\<close> takes the component before it with it, or stays
  in front of a relative path, or goes at the root. \<open>acc\<close> holds the components so far, the last
  one first.
\<close>

fun cleanComps :: "bool \<Rightarrow> string list \<Rightarrow> string list \<Rightarrow> string list" where
  "cleanComps rooted acc [] = rev acc"
| "cleanComps rooted acc (x # xs) =
     (if x = '''' \<or> x = ''.'' then cleanComps rooted acc xs
      else if x = ''..'' then
        (case acc of
           [] \<Rightarrow> if rooted then cleanComps rooted [] xs else cleanComps rooted [''..''] xs
         | a # as \<Rightarrow> if a = ''..'' then cleanComps rooted (''..'' # a # as) xs else cleanComps rooted as xs)
      else cleanComps rooted (x # acc) xs)"

definition pathRooted :: "string \<Rightarrow> bool" where
  "pathRooted p \<longleftrightarrow> p \<noteq> [] \<and> hd p = CHR ''/''"

definition pathClean :: "string \<Rightarrow> string" where
  "pathClean p =
     (let cs = cleanComps (pathRooted p) [] (split_on CHR ''/'' p)
      in if pathRooted p then ''/'' @ join_str ''/'' cs
         else if cs = [] then ''.'' else join_str ''/'' cs)"

definition pathJoin :: "string \<Rightarrow> string \<Rightarrow> string" where
  "pathJoin a b =
     (if a = '''' then (if b = '''' then '''' else pathClean b)
      else if b = '''' then pathClean a else pathClean (a @ ''/'' @ b))"

definition dropTrailingSlashes :: "string \<Rightarrow> string" where
  "dropTrailingSlashes p = rev (dropWhile (\<lambda>c. c = CHR ''/'') (rev p))"

definition pathBase :: "string \<Rightarrow> string" where
  "pathBase p =
     (if p = '''' then ''.''
      else let q = dropTrailingSlashes p;
               b = last (split_on CHR ''/'' q)
           in if b = '''' then ''/'' else b)"

text \<open>\<open>filepath.Abs\<close>; \<open>wd\<close> is what \<open>os.Getwd\<close> returns.\<close>

definition pathAbs :: "goerr + string \<Rightarrow> string \<Rightarrow> goerr + string" where
  "pathAbs wd p =
     (if pathRooted p then Inr (pathClean p)
      else case wd of Inl e \<Rightarrow> Inl e | Inr d \<Rightarrow> Inr (pathJoin d p))"

section \<open>Bind mounts for the commands\<close>

record bind_mount =
  bmSource :: string
  bmTarget :: string
  bmReadOnly :: bool

definition warpBinDir :: string where "warpBinDir = ''/warp''"

type_synonym lookpath = "string \<Rightarrow> goerr + string"

definition prepareWarpExecutable :: "lookpath \<Rightarrow> goerr + string \<Rightarrow> string \<Rightarrow> goerr + (string \<times> string)" where
  "prepareWarpExecutable lookPath wd cmd =
     (case lookPath cmd of
        Inl e \<Rightarrow> Inl e
      | Inr resolved \<Rightarrow>
          (case pathAbs wd resolved of
             Inl e \<Rightarrow> Inl e
           | Inr source \<Rightarrow>
               let base = pathBase source
               in if base = ''.'' \<or> base = ''/'' \<or> base = ''''
                  then Inl (Errorf ''invalid executable path %q'' [AStr source])
                  else Inr (source, pathJoin warpBinDir base)))"

definition prepareWarpSvcCommand :: "lookpath \<Rightarrow> goerr + string \<Rightarrow> string \<Rightarrow> goerr + (string \<times> bind_mount option)" where
  "prepareWarpSvcCommand lookPath wd raw =
     (let raw = trimSpace raw
      in if raw = '''' then Inr (raw, None)
         else case splitArgs raw of
           Inl e \<Rightarrow> Inl e
         | Inr parts \<Rightarrow>
             (case prepareWarpExecutable lookPath wd (hd parts) of
                Inl e \<Rightarrow> Inl (Wrapf ''resolve warp-svc command: %w'' [] e)
              | Inr (source, target) \<Rightarrow>
                  Inr (joinArgs (target # tl parts),
                       Some \<lparr>bmSource = source, bmTarget = target, bmReadOnly = True\<rparr>)))"

definition prepareWarpCLICommand :: "lookpath \<Rightarrow> goerr + string \<Rightarrow> string \<Rightarrow> goerr + (string \<times> bind_mount option)" where
  "prepareWarpCLICommand lookPath wd cli =
     (let cli = trimSpace cli
      in if cli = '''' then Inr (cli, None)
         else case prepareWarpExecutable lookPath wd cli of
                Inl e \<Rightarrow> Inl (Wrapf ''resolve warp-cli command: %w'' [] e)
              | Inr (source, target) \<Rightarrow>
                  Inr (target, Some \<lparr>bmSource = source, bmTarget = target, bmReadOnly = True\<rparr>))"

text \<open>The closure \<open>add\<close>, on its two captured variables.\<close>

definition addBind ::
    "bind_mount option \<Rightarrow> (string \<rightharpoonup> string) \<times> bind_mount list \<Rightarrow> goerr + ((string \<rightharpoonup> string) \<times> bind_mount list)" where
  "addBind b st =
     (case b of
        None \<Rightarrow> Inr st
      | Some b \<Rightarrow>
          (case fst st (bmTarget b) of
             Some prev \<Rightarrow>
               if prev \<noteq> bmSource b
               then Inl (Errorf ''warp command bind target conflict: %s maps both %s and %s''
                           [AStr (bmTarget b), AStr prev, AStr (bmSource b)])
               else Inr st
           | None \<Rightarrow> Inr ((fst st)(bmTarget b \<mapsto> bmSource b), snd st @ [b])))"

definition prepareWarpCommandBinds :: "lookpath \<Rightarrow> goerr + string \<Rightarrow> (config, bind_mount list) sem" where
  "prepareWarpCommandBinds lookPath wd = (\<lambda>cfg.
     case prepareWarpSvcCommand lookPath wd (WarpSvcCmd cfg) of
       Inl e \<Rightarrow> (Inl e, cfg)
     | Inr (raw, bind) \<Rightarrow>
         let cfg = cfg\<lparr>WarpSvcCmd := raw\<rparr> in
         (case addBind bind (Map.empty, []) of
            Inl e \<Rightarrow> (Inl e, cfg)
          | Inr st \<Rightarrow>
              (case prepareWarpCLICommand lookPath wd (WarpCli cfg) of
                 Inl e \<Rightarrow> (Inl e, cfg)
               | Inr (cli, bind) \<Rightarrow>
                   let cfg = cfg\<lparr>WarpCli := cli\<rparr> in
                   (case addBind bind st of
                      Inl e \<Rightarrow> (Inl e, cfg)
                    | Inr st \<Rightarrow> (Inr (snd st), cfg)))))"

definition warpCommandEnv :: "string list" where
  "warpCommandEnv = [''PATH='' @ warpBinDir @ '':/usr/bin:/usr/sbin'']"

section \<open>Splitting what was joined\<close>

text \<open>A quoted argument, on runes.\<close>

definition quoteRunes :: "rune list \<Rightarrow> rune list" where
  "quoteRunes rs =
     (if rs \<noteq> [] \<and> list_all (\<lambda>r. r \<noteq> 32 \<and> r \<noteq> 9 \<and> r \<noteq> 34 \<and> r \<noteq> 92) rs then rs
      else 34 # concat (map (\<lambda>r. if r = 92 then [92, 92] else if r = 34 then [92, 34] else [r]) rs) @ [34])"

lemma enc_rune_special:
  assumes "c < 128"
  shows "chr c \<in> set (enc_rune r) \<longleftrightarrow> r = c"
proof (cases "r < 128")
  case True
  with assms show ?thesis by (auto simp: enc_rune_def)
next
  case False
  have "ord x \<ge> 128" if "x \<in> set (enc_rune r)" for x
    using False that by (auto simp: enc_rune_def enc3_def runeError_def valid_rune_def of_char_of split: if_splits)
  then have "chr c \<notin> set (enc_rune r)" using assms ord_chr [of c] by force
  with assms False show ?thesis by auto
qed

definition escRunes :: "rune list \<Rightarrow> rune list" where
  "escRunes rs = concat (map (\<lambda>r. if r = 92 then [92, 92] else if r = 34 then [92, 34] else [r]) rs)"

lemma enc_ascii: "r < 128 \<Longrightarrow> enc_rune r = [chr r]"
  by (simp add: enc_rune_def)

lemma special_chars: "CHR '' '' = chr 32" "CHR 0x09 = chr 9" "CHR 0x22 = chr 34" "CHR 0x5C = chr 92"
  by code_simp+

lemma contains_any_runes:
  "contains_any (string_of_runes rs) [CHR '' '', CHR 0x09, CHR 0x22, CHR 0x5C] \<longleftrightarrow>
   \<not> list_all (\<lambda>r. r \<noteq> 32 \<and> r \<noteq> 9 \<and> r \<noteq> 34 \<and> r \<noteq> 92) rs"
proof -
  have "(\<exists>x\<in>set (enc_rune r). x \<in> {chr 32, chr 9, chr 34, chr 92}) \<longleftrightarrow> r = 32 \<or> r = 9 \<or> r = 34 \<or> r = 92" for r
    using enc_rune_special [of 32 r] enc_rune_special [of 9 r] enc_rune_special [of 34 r] enc_rune_special [of 92 r]
    by auto
  then show ?thesis
    unfolding contains_any_def special_chars string_of_runes_def
    by (auto simp: list_ex_iff list_all_iff)
qed

lemma replace_twice:
  "replace_all CHR 0x22 [CHR 0x5C, CHR 0x22] (replace_all CHR 0x5C [CHR 0x5C, CHR 0x5C] s) =
   concat (map (\<lambda>x. if x = CHR 0x5C then [CHR 0x5C, CHR 0x5C] else if x = CHR 0x22 then [CHR 0x5C, CHR 0x22] else [x]) s)"
  by (induction s) (auto simp: replace_all_def)

lemma esc_enc_rune:
  "concat (map (\<lambda>x. if x = CHR 0x5C then [CHR 0x5C, CHR 0x5C] else if x = CHR 0x22 then [CHR 0x5C, CHR 0x22] else [x]) (enc_rune r)) =
   string_of_runes (escRunes [r])"
proof (cases "r = 92 \<or> r = 34")
  case True
  then show ?thesis by (auto simp: escRunes_def string_of_runes_def enc_ascii special_chars)
next
  case False
  then have "chr 92 \<notin> set (enc_rune r)" "chr 34 \<notin> set (enc_rune r)"
    using enc_rune_special [of 92 r] enc_rune_special [of 34 r] by auto
  then have m: "map (\<lambda>x. if x = CHR 0x5C then [CHR 0x5C, CHR 0x5C] else if x = CHR 0x22 then [CHR 0x5C, CHR 0x22] else [x]) (enc_rune r) =
      map (\<lambda>x. [x]) (enc_rune r)"
    unfolding special_chars by (intro map_cong) auto
  have "concat (map (\<lambda>x. [x]) s) = s" for s :: string by (induction s) simp_all
  with False show ?thesis unfolding m by (simp add: escRunes_def string_of_runes_def)
qed

lemma quoteArg_runes: "quoteArg (string_of_runes rs) = string_of_runes (quoteRunes rs)"
proof -
  have e: "concat (map (\<lambda>x. if x = CHR 0x5C then [CHR 0x5C, CHR 0x5C] else if x = CHR 0x22 then [CHR 0x5C, CHR 0x22] else [x]) (string_of_runes rs)) =
      string_of_runes (escRunes rs)"
    by (induction rs) (simp_all add: string_of_runes_Cons esc_enc_rune, simp_all add: escRunes_def string_of_runes_def)
  have n: "string_of_runes rs = [] \<longleftrightarrow> rs = []" by (cases rs) (simp_all add: string_of_runes_def)
  have q: "string_of_runes (34 # xs @ [34]) = [CHR 0x22] @ string_of_runes xs @ [CHR 0x22]" for xs
    by (simp add: string_of_runes_def enc_ascii special_chars)
  have q0: "string_of_runes [34, 34] = [CHR 0x22, CHR 0x22]" using q [of "[]"] by (simp add: string_of_runes_def)
  show ?thesis
    unfolding quoteArg_def quoteRunes_def contains_any_runes n replace_twice Let_def e
    by (simp add: q q0 escRunes_def)
qed

lemma splitLoop_plain:
  "list_all (\<lambda>r. r \<noteq> 32 \<and> r \<noteq> 9 \<and> r \<noteq> 34 \<and> r \<noteq> 92) rs \<Longrightarrow>
   splitLoop out cur False False (rs @ rest) = splitLoop out (cur @ rs) False False rest"
  by (induction rs arbitrary: cur) (auto simp: isBlank_def)

lemma splitLoop_quoted:
  "splitLoop out cur True False (escRunes rs @ rest) = splitLoop out (cur @ rs) True False rest"
  by (induction rs arbitrary: cur) (auto simp: escRunes_def)

lemma splitLoop_quoteRunes:
  "splitLoop out [] False False (quoteRunes rs @ rest) = splitLoop out rs False False rest"
  using splitLoop_plain [of rs out "[]" rest] splitLoop_quoted [of out "[]" rs "34 # rest"]
  by (auto simp: quoteRunes_def escRunes_def)

fun joinRunes :: "rune list list \<Rightarrow> rune list" where
  "joinRunes [] = []"
| "joinRunes [x] = x"
| "joinRunes (x # y # xs) = x @ 32 # joinRunes (y # xs)"

lemma joinArgs_runes: "joinArgs (map string_of_runes rss) = string_of_runes (joinRunes (map quoteRunes rss))"
proof -
  have "join_str '' '' (map string_of_runes xs) = string_of_runes (joinRunes xs)" for xs
    by (induction xs rule: joinRunes.induct) (auto simp: string_of_runes_def enc_ascii special_chars)
  moreover have "map quoteArg (map string_of_runes rss) = map string_of_runes (map quoteRunes rss)"
    by (simp add: quoteArg_runes)
  ultimately show ?thesis unfolding joinArgs_def by metis
qed

lemma splitLoop_joined:
  "rss \<noteq> [] \<Longrightarrow> list_all (\<lambda>rs. rs \<noteq> []) rss \<Longrightarrow>
   splitLoop out [] False False (joinRunes (map quoteRunes rss)) =
     (out @ map string_of_runes (butlast rss), last rss, False)"
proof (induction rss arbitrary: out rule: joinRunes.induct)
  case (2 rs)
  show ?case using splitLoop_quoteRunes [of out rs "[]"] by simp
next
  case (3 rs qs rss)
  have "splitLoop out [] False False (quoteRunes rs @ 32 # joinRunes (map quoteRunes (qs # rss))) =
      splitLoop (out @ [string_of_runes rs]) [] False False (joinRunes (map quoteRunes (qs # rss)))"
    using 3 by (simp add: splitLoop_quoteRunes isBlank_def)
  then show ?case using 3 by simp
qed simp

lemma valid_quoteRunes: "list_all valid_rune rs \<Longrightarrow> list_all valid_rune (quoteRunes rs)"
  by (auto simp: quoteRunes_def list_all_iff valid_rune_def surrogate_def)

lemma valid_joinRunes: "list_all (list_all valid_rune) rss \<Longrightarrow> list_all valid_rune (joinRunes rss)"
  by (induction rss rule: joinRunes.induct) (auto simp: valid_rune_def surrogate_def)

lemma splitArgs_joinRunes:
  assumes "rss \<noteq> []" "list_all (\<lambda>rs. rs \<noteq> [] \<and> list_all valid_rune rs) rss"
  shows "splitArgs (joinArgs (map string_of_runes rss)) = Inr (map string_of_runes rss)"
proof -
  let ?j = "joinRunes (map quoteRunes rss)"
  have "list_all valid_rune ?j"
    using assms(2) by (intro valid_joinRunes, induction rss) (auto intro: valid_quoteRunes)
  from runes_string_of_runes [OF this, of "[]"] have "runes (string_of_runes ?j) = ?j" by simp
  moreover have "splitLoop [] [] False False ?j = (map string_of_runes (butlast rss), last rss, False)"
    using splitLoop_joined [of rss "[]"] assms by (auto simp: list_all_iff)
  moreover have "last rss \<noteq> []" using assms by (auto simp: list_all_iff)
  moreover have "map string_of_runes (butlast rss) @ [string_of_runes (last rss)] = map string_of_runes rss"
    using assms(1) by (metis append_butlast_last_id list.simps(8,9) map_append)
  ultimately show ?thesis using assms(1) unfolding joinArgs_runes splitArgs_def by simp
qed

section \<open>Where executables are bound\<close>

text \<open>A component of a cleaned absolute path: a plain file name.\<close>

definition plainName :: "string \<Rightarrow> bool" where
  "plainName x \<longleftrightarrow> x \<noteq> '''' \<and> x \<noteq> ''.'' \<and> x \<noteq> ''..'' \<and> CHR ''/'' \<notin> set x"

lemma split_on_parts: "list_all (\<lambda>x. c \<notin> set x) (split_on c s)"
  by (induction s) (auto split: list.split)

lemma cleanComps_rooted:
  "list_all plainName acc \<Longrightarrow> list_all (\<lambda>x. CHR ''/'' \<notin> set x) xs \<Longrightarrow> list_all plainName (cleanComps True acc xs)"
proof (induction xs arbitrary: acc)
  case (Cons x xs)
  then have xs: "list_all (\<lambda>x. CHR ''/'' \<notin> set x) xs" by simp
  consider "x = '''' \<or> x = ''.''" | "x = ''..''" | "plainName x" using Cons.prems by (auto simp: plainName_def)
  then show ?case
  proof cases
    case 1
    with Cons.IH [OF Cons.prems(1) xs] show ?thesis by auto
  next
    case 2
    show ?thesis
    proof (cases acc)
      case Nil
      with 2 Cons.IH [of "[]"] xs show ?thesis by simp
    next
      case acc: (Cons a as)
      with 2 Cons.IH [of as] Cons.prems xs show ?thesis by (simp add: plainName_def)
    qed
  next
    case 3
    then have "cleanComps True acc (x # xs) = cleanComps True (x # acc) xs" by (simp add: plainName_def)
    with Cons.IH [of "x # acc"] Cons.prems(1) 3 xs show ?thesis by simp
  qed
qed (simp add: list_all_iff)

lemma pathClean_rooted:
  assumes "pathRooted p"
  obtains cs where "list_all plainName cs" "pathClean p = ''/'' @ join_str ''/'' cs"
  using assms cleanComps_rooted [of "[]" "split_on CHR ''/'' p"] split_on_parts [of "CHR ''/''" p]
  by (auto simp: pathClean_def Let_def)

lemma last_join: "cs \<noteq> [] \<Longrightarrow> last cs \<noteq> [] \<Longrightarrow> last (join_str sep cs) = last (last cs)"
proof (induction sep cs rule: join_str.induct)
  case (3 sep x y xs)
  then have "join_str sep (y # xs) \<noteq> []"
    by (induction sep "y # xs" arbitrary: y xs rule: join_str.induct) (auto split: if_splits)
  with 3 show ?case by (auto split: if_splits)
qed simp_all

lemma pathBase_rooted:
  assumes "list_all plainName cs"
  shows "pathBase (''/'' @ join_str ''/'' cs) = (if cs = [] then ''/'' else last cs)"
proof (cases "cs = []")
  case True
  then show ?thesis by (simp add: pathBase_def dropTrailingSlashes_def)
next
  case False
  let ?p = "''/'' @ join_str ''/'' cs"
  have l: "plainName (last cs)" using assms False by (auto simp: list_all_iff)
  have ne: "join_str ''/'' cs \<noteq> []"
    using assms False by (cases cs; cases "tl cs") (auto simp: plainName_def)
  have "last ?p = last (last cs)" using False l ne last_join [of cs "''/''"] by (simp add: plainName_def)
  moreover have "last (last cs) \<noteq> CHR ''/''" using l by (auto simp: plainName_def) (metis last_in_set)
  ultimately have "hd (rev ?p) \<noteq> CHR ''/''" by (simp only: hd_rev not_False_eq_True)
  then have "dropWhile (\<lambda>c. c = CHR ''/'') (rev ?p) = rev ?p" by (simp only: dropWhile_eq_self_iff simp_thms)
  then have "dropTrailingSlashes ?p = ?p"
    unfolding dropTrailingSlashes_def by (simp only: rev_rev_ident)
  moreover have "split_on CHR ''/'' (join_str ''/'' cs) = cs"
    using False assms by (intro split_on_join) (auto simp: list_all_iff plainName_def)
  then have "split_on CHR ''/'' ?p = [] # cs" by simp
  ultimately show ?thesis using False l by (simp add: pathBase_def plainName_def)
qed

lemma warp_join: "plainName b \<Longrightarrow> pathJoin warpBinDir b = ''/warp/'' @ b"
proof -
  assume b: "plainName b"
  have "split_on CHR ''/'' (''/warp/'' @ b) = [[], ''warp''] @ split_on CHR ''/'' b" by simp
  also have "split_on CHR ''/'' b = [b]"
    using split_on_join [of "[b]" "CHR ''/''"] b by (simp add: plainName_def)
  finally have "cleanComps True [] (split_on CHR ''/'' (''/warp/'' @ b)) = [''warp'', b]"
    using b by (simp add: plainName_def)
  then show ?thesis using b by (simp add: pathJoin_def warpBinDir_def pathClean_def pathRooted_def plainName_def)
qed

lemma prepareWarpExecutable_target:
  assumes "prepareWarpExecutable lookPath wd cmd = Inr (source, target)" "\<And>d. wd = Inr d \<Longrightarrow> pathRooted d"
  shows "pathRooted source \<and> (\<exists>b. plainName b \<and> b = pathBase source \<and> target = ''/warp/'' @ b)"
proof -
  from assms(1) obtain resolved where a: "pathAbs wd resolved = Inr source"
    and t: "target = pathJoin warpBinDir (pathBase source)" and nb: "pathBase source \<noteq> ''/''"
    by (auto simp: prepareWarpExecutable_def Let_def split: sum.splits if_splits)
  have "\<exists>p. pathRooted p \<and> source = pathClean p"
  proof (cases "pathRooted resolved")
    case True
    with a show ?thesis by (auto simp: pathAbs_def)
  next
    case False
    with a assms(2) obtain d where d: "pathRooted d" "source = pathJoin d resolved"
      by (auto simp: pathAbs_def split: sum.splits)
    then show ?thesis by (auto simp: pathJoin_def pathRooted_def)
  qed
  then obtain p where p: "pathRooted p" "source = pathClean p" by blast
  from pathClean_rooted [OF p(1)] p(2) obtain cs where cs: "list_all plainName cs" "source = ''/'' @ join_str ''/'' cs"
    by metis
  then have b: "pathBase source = (if cs = [] then ''/'' else last cs)" using pathBase_rooted by simp
  with nb cs(1) have "plainName (pathBase source)" by (auto simp: list_all_iff split: if_splits)
  with t warp_join cs(2) show ?thesis by (auto simp: pathRooted_def)
qed

text \<open>What \<open>seen\<close> and \<open>binds\<close> have in common throughout.\<close>

definition bindsInv :: "(string \<rightharpoonup> string) \<times> bind_mount list \<Rightarrow> bool" where
  "bindsInv st \<longleftrightarrow> distinct (map bmTarget (snd st)) \<and>
     (\<forall>t v. fst st t = Some v \<longleftrightarrow> (\<exists>b \<in> set (snd st). bmTarget b = t \<and> bmSource b = v))"

lemma addBind_inv:
  assumes "bindsInv st" "addBind b st = Inr st'"
  shows "bindsInv st' \<and> (\<forall>x. b = Some x \<longrightarrow> fst st' (bmTarget x) = Some (bmSource x)) \<and>
     (\<forall>t v. fst st t = Some v \<longrightarrow> fst st' t = Some v)"
proof (cases b)
  case None
  with assms show ?thesis by (simp add: addBind_def)
next
  case (Some x)
  show ?thesis
  proof (cases "fst st (bmTarget x)")
    case None
    have fresh: "bmTarget x \<notin> set (map bmTarget (snd st))"
      using assms(1) None unfolding bindsInv_def by force
    have st': "st' = ((fst st)(bmTarget x \<mapsto> bmSource x), snd st @ [x])" using assms(2) Some None by (simp add: addBind_def)
    have "(fst st' t = Some v) \<longleftrightarrow> (\<exists>b \<in> set (snd st'). bmTarget b = t \<and> bmSource b = v)" for t v
      using assms(1) fresh st' by (auto simp: bindsInv_def image_iff)
    moreover have "distinct (map bmTarget (snd st'))" using assms(1) fresh st' by (simp add: bindsInv_def)
    ultimately have "bindsInv st'" unfolding bindsInv_def by blast
    then show ?thesis using st' Some None by simp
  next
    case (Some v)
    with assms \<open>b = Some x\<close> show ?thesis by (auto simp: addBind_def split: if_splits)
  qed
qed

section \<open>Properties\<close>



text \<open>
  Empty arguments are lost. \<open>quoteArg\<close> writes an empty argument as a pair of quotes, but
  \<open>splitArgs\<close> never returns an empty argument, so the round trip drops it.
\<close>

lemma joinArgs_drops_empty:
  "splitArgs (joinArgs [''warp-svc'', '''', ''-v'']) = Inr [''warp-svc'', ''-v'']"
  by code_simp

text \<open>
  An executable is bound directly under \<open>/warp\<close>. Whatever \<open>LookPath\<close> returns for a command,
  a path with \<open>..\<close> or with any number of slashes included, the target is \<open>/warp/\<close> followed by one
  plain file name, the last component of the absolute source path; it cannot point elsewhere.
\<close>

lemma prepareWarpExecutable_in_warp:
  assumes "prepareWarpExecutable lookPath wd cmd = Inr (source, target)" "\<And>d. wd = Inr d \<Longrightarrow> pathRooted d"
  shows "\<exists>b. target = ''/warp/'' @ b \<and> b = pathBase source \<and> CHR ''/'' \<notin> set b \<and> b \<notin> {'''', ''.'', ''..''}"
  using prepareWarpExecutable_target [OF assms] by (auto simp: plainName_def)

lemma prepareWarpExecutable_in_warp_witness:
  "prepareWarpExecutable (\<lambda>c. Inr (''../opt//'' @ c)) (Inr ''/home/u'') ''warp-cli'' = Inr (''/home/opt/warp-cli'', ''/warp/warp-cli'') \<and>
   (\<exists>b. ''/warp/warp-cli'' = ''/warp/'' @ b \<and> b = pathBase ''/home/opt/warp-cli'' \<and> CHR ''/'' \<notin> set b \<and> b \<notin> {'''', ''.'', ''..''})"
proof -
  have p: "prepareWarpExecutable (\<lambda>c. Inr (''../opt//'' @ c)) (Inr ''/home/u'') ''warp-cli'' = Inr (''/home/opt/warp-cli'', ''/warp/warp-cli'')"
    by code_simp
  have "pathRooted d" if "Inr ''/home/u'' = (Inr d :: goerr + string)" for d using that by (auto simp: pathRooted_def)
  from prepareWarpExecutable_in_warp [OF p this] p show ?thesis by blast
qed



end
