(* ===== verification/NetNS.thy ===== *)
theory NetNS
  imports Kernel WarpCmd "HOL-Library.Sublist"
begin

text \<open>
  \<open>netns.go\<close>: the network and mount namespaces the program creates, the thread that keeps them
  alive, the file system visible inside them, and the ways to run code there. The lemmas: a
  namespace that could not be created leaves nothing behind, closing one releases everything
  and can be repeated, and the file system of a sandbox is exactly the documented one, whatever
  the host has mounted.
\<close>

section \<open>Types\<close>

datatype root_mode = NetNSRootSandbox | NetNSRootHost

record netns_options =
  RootMode :: root_mode
  Nameserver :: string
  ExtraEtcBinds :: "string list"
  ExtraBinds :: "bind_mount list"

text \<open>
  \<open>NetNS\<close>. A descriptor field that is 0 (not open) is \<open>None\<close>; \<open>stopCh\<close> is \<open>stopped\<close>. The anchor thread
  is known by its identity and the namespaces it has entered, which \<open>/proc/<tid>/ns\<close> names.
\<close>

record netns =
  NetFD :: "nat option"
  MntFD :: "nat option"
  stagingDir :: string
  stopped :: bool
  anchorTid :: nat
  anchorNet :: nat
  anchorMnt :: nat

section \<open>Files\<close>

text \<open>\<open>os.FileMode\<close> to the mode of the system call: only the nine permission bits of a plain number count.\<close>

definition syscallMode :: "nat \<Rightarrow> nat" where
  "syscallMode m = m mod 512"

text \<open>\<open>os.IsExist\<close>: \<open>EEXIST\<close> or \<open>ENOTEMPTY\<close>.\<close>

definition isExist :: "goerr \<Rightarrow> bool" where
  "isExist e \<longleftrightarrow> e = Errno 17 \<or> e = Errno 39"

fun dirLoop :: "string \<Rightarrow> nat \<Rightarrow> string" where
  "dirLoop p 0 = ''.''"
| "dirLoop p (Suc i) =
     (if p ! i = CHR ''/'' then (if i = 0 then ''/'' else take i p) else dirLoop p i)"

definition filepath_Dir :: "string \<Rightarrow> string" where
  "filepath_Dir p = dirLoop p (length p)"

definition createCharDevice :: "string \<Rightarrow> nat \<Rightarrow> nat \<Rightarrow> nat \<Rightarrow> unit act" where
  "createCharDevice path mode major minor =
     thenK (tryK (kdo (Mknod path (syscallMode mode) major minor))) (\<lambda>r.
     thenK (case r of
              Inl e \<Rightarrow> if \<not> isExist e then failK (Wrapf ''mknod %s: %w'' [AStr path] e) else retK ()
            | Inr _ \<Rightarrow> retK ()) (\<lambda>_.
     wrapK ''chmod %s: %w'' [AStr path] (kdo (Chmod path (syscallMode mode)))))"

definition devNodes :: "(string \<times> nat \<times> nat \<times> nat) list" where
  "devNodes = [(''/dev/null'', 1, 3, 438), (''/dev/zero'', 1, 5, 438), (''/dev/random'', 1, 8, 438),
     (''/dev/urandom'', 1, 9, 438), (''/dev/net/tun'', 10, 200, 438)]"

definition devLinks :: "(string \<times> string) list" where
  "devLinks = [(''/dev/stdin'', ''/proc/self/fd/0''), (''/dev/stdout'', ''/proc/self/fd/1''),
     (''/dev/stderr'', ''/proc/self/fd/2'')]"

definition setupMinimalDev :: "string \<Rightarrow> unit act" where
  "setupMinimalDev dir =
     thenK (wrapK ''mkdir /dev/net: %w'' [] (kdo (MkdirAll (dir @ ''/dev/net'') 493))) (\<lambda>_.
     thenK (forK (\<lambda>(path, major, minor, mode). createCharDevice (dir @ path) mode major minor) devNodes) (\<lambda>_.
     forK (\<lambda>(from, to). wrapK ''symlink %s: %w'' [AStr from] (kdo (Symlink to (dir @ from)))) devLinks))"

text \<open>
  A missing source is skipped. A directory is made unless it exists; another file is created
  unless \<open>Stat\<close> finds it.
\<close>

definition applyBindMount :: "string \<Rightarrow> bind_mount \<Rightarrow> unit act" where
  "applyBindMount dir b =
     thenK (tryK (kdo (Lstat (bmSource b)))) (\<lambda>st.
     case st of
       Inl _ \<Rightarrow> retK ()
     | Inr _ \<Rightarrow>
         let dst = dir @ bmTarget b in
         thenK (wrapK ''mkdir parent of %s: %w'' [AStr (bmTarget b)] (kdo (MkdirAll (filepath_Dir dst) 493))) (\<lambda>_.
         thenK (\<lambda>s. (if isDirHost s (bmSource b)
                 then thenK (tryK (kdo (Mkdir dst 493))) (\<lambda>r.
                   case r of
                     Inl e \<Rightarrow> if \<not> isExist e then failK (Wrapf ''mkdir %s: %w'' [AStr (bmTarget b)] e) else retK ()
                   | Inr _ \<Rightarrow> retK ())
                 else thenK (tryK (kdo (StatFile dst))) (\<lambda>r.
                   case r of
                     Inl _ \<Rightarrow> wrapK ''touch %s: %w'' [AStr (bmTarget b)] (kdo (CreateFile dst))
                   | Inr _ \<Rightarrow> retK ())) s) (\<lambda>_.
         thenK (wrapK ''bind %s -> %s: %w'' [AStr (bmSource b), AStr (bmTarget b)]
                 (kdo (Mount (bmSource b) dst '''' [MS_BIND, MS_REC] ''''))) (\<lambda>_.
         if bmReadOnly b
         then wrapK ''remount %s ro: %w'' [AStr (bmTarget b)]
                (kdo (Mount '''' dst '''' [MS_BIND, MS_REMOUNT, MS_RDONLY, MS_REC] ''''))
         else retK ()))))"

definition rootDirs :: "string list" where
  "rootDirs = [''usr'', ''dev'', ''proc'', ''sys'', ''etc'', ''var'', ''tmp'', ''run'',
     ''root'', ''home'', ''opt'', ''srv'', ''mnt'', ''media'', ''.put_old'']"

definition rootLinks :: "(string \<times> string) list" where
  "rootLinks = [(''bin'', ''usr/bin''), (''sbin'', ''usr/sbin''), (''lib'', ''usr/lib''), (''lib64'', ''usr/lib64'')]"

definition resolvConf :: "string \<Rightarrow> string" where
  "resolvConf ns = ''nameserver '' @ ns @ [CHR 0x0A]"

definition etcBind :: "string \<Rightarrow> bind_mount" where
  "etcBind name = \<lparr>bmSource = ''/etc/'' @ name, bmTarget = ''/etc/'' @ name, bmReadOnly = True\<rparr>"

text \<open>The closure \<open>mk\<close> with the mode the loop chooses.\<close>

definition mkRootDir :: "string \<Rightarrow> string \<Rightarrow> unit act" where
  "mkRootDir dir d = wrapK ''mkdir %s: %w'' [AStr d]
     (kdo (Mkdir (dir @ ''/'' @ d) (syscallMode (if d = ''tmp'' then 1023 else 493))))"

definition setupSandboxRoot :: "string \<Rightarrow> netns_options \<Rightarrow> unit act" where
  "setupSandboxRoot dir opts =
     thenK (wrapK ''mount tmpfs root: %w'' [] (kdo (Mount ''tmpfs'' dir ''tmpfs'' [] ''mode=755''))) (\<lambda>_.
     thenK (forK (mkRootDir dir) rootDirs) (\<lambda>_.
     thenK (wrapK ''bind /usr: %w'' [] (kdo (Mount ''/usr'' (dir @ ''/usr'') '''' [MS_BIND, MS_REC] ''''))) (\<lambda>_.
     thenK (wrapK ''remount /usr ro: %w'' []
             (kdo (Mount '''' (dir @ ''/usr'') '''' [MS_BIND, MS_REMOUNT, MS_RDONLY, MS_REC] ''''))) (\<lambda>_.
     thenK (setupMinimalDev dir) (\<lambda>_.
     thenK (wrapK ''bind /proc: %w'' [] (kdo (Mount ''/proc'' (dir @ ''/proc'') '''' [MS_BIND, MS_REC] ''''))) (\<lambda>_.
     thenK (wrapK ''bind /sys: %w'' [] (kdo (Mount ''/sys'' (dir @ ''/sys'') '''' [MS_BIND, MS_REC] ''''))) (\<lambda>_.
     thenK (wrapK ''remount /sys ro: %w'' []
             (kdo (Mount '''' (dir @ ''/sys'') '''' [MS_BIND, MS_REMOUNT, MS_RDONLY, MS_REC] ''''))) (\<lambda>_.
     thenK (forK (\<lambda>(from, to). wrapK ''symlink %s: %w'' [AStr from] (kdo (Symlink to (dir @ ''/'' @ from)))) rootLinks) (\<lambda>_.
     thenK (wrapK ''write resolv.conf: %w'' []
             (kdo (WriteFile (dir @ ''/etc/resolv.conf'') (resolvConf (Nameserver opts)) 420))) (\<lambda>_.
     thenK (forK (\<lambda>name. applyBindMount dir (etcBind name)) (ExtraEtcBinds opts)) (\<lambda>_.
     thenK (forK (applyBindMount dir) (ExtraBinds opts)) (\<lambda>_.
     thenK (wrapK ''chdir %s: %w'' [AStr dir] (kdo (Chdir dir))) (\<lambda>_.
     thenK (wrapK ''pivot_root: %w'' [] (kdo (PivotRoot ''.'' ''.put_old''))) (\<lambda>_.
     thenK (wrapK ''chdir /: %w'' [] (kdo (Chdir ''/''))) (\<lambda>_.
     thenK (wrapK ''umount old root: %w'' [] (kdo (Umount ''/.put_old''))) (\<lambda>_.
     wrapK ''remove .put_old: %w'' [] (kdo (RemoveFile ''/.put_old''))))))))))))))))))"

definition setupHostRootResolvOverlay :: "string \<Rightarrow> netns_options \<Rightarrow> unit act" where
  "setupHostRootResolvOverlay dir opts =
     (let resolvPath = dir @ ''/resolv.conf'' in
      thenK (wrapK ''mkdir staging: %w'' [] (kdo (MkdirAll dir 493))) (\<lambda>_.
      thenK (wrapK ''write resolv overlay: %w'' [] (kdo (WriteFile resolvPath (resolvConf (Nameserver opts)) 420))) (\<lambda>_.
      thenK (wrapK ''stat /etc/resolv.conf: %w'' [] (kdo (StatFile ''/etc/resolv.conf''))) (\<lambda>_.
      thenK (wrapK ''bind resolv overlay: %w'' [] (kdo (Mount resolvPath ''/etc/resolv.conf'' '''' [MS_BIND] ''''))) (\<lambda>_.
      wrapK ''remount resolv overlay ro: %w'' []
        (kdo (Mount '''' ''/etc/resolv.conf'' '''' [MS_BIND, MS_REMOUNT, MS_RDONLY] '''')))))))"

section \<open>Creating and closing\<close>

definition unshareNet :: "unit act" where
  "unshareNet = thenK (kdo UnshareNet) (\<lambda>_. thenK freshId (\<lambda>n. modK (\<lambda>s. s\<lparr>curNet := n\<rparr>)))"

definition unshareMnt :: "unit act" where
  "unshareMnt = thenK (kdo UnshareMnt) (\<lambda>_. thenK freshId (\<lambda>n. modK (\<lambda>s. s\<lparr>curMnt := n\<rparr>)))"

text \<open>
  What the anchor does until it reports ready. On success the goroutine goes on to serve tasks
  until it is told to stop; that it is running is the resource \<open>Anchor\<close>. On an error it returns.
\<close>

definition anchor :: "string \<Rightarrow> netns_options \<Rightarrow> (nat \<times> nat \<times> nat) act" where
  "anchor dir opts =
     thenK (wrapK ''unshare newnet: %w'' [] unshareNet) (\<lambda>_.
     thenK (wrapK ''unshare newns: %w'' [] unshareMnt) (\<lambda>_.
     thenK (wrapK ''mount private root: %w'' [] (kdo (Mount '''' ''/'' '''' [MS_REC, MS_PRIVATE] ''''))) (\<lambda>_.
     thenK (if RootMode opts = NetNSRootHost then setupHostRootResolvOverlay dir opts else setupSandboxRoot dir opts) (\<lambda>_.
     \<lambda>s. (Ok (curTid s, curNet s, curMnt s), hold (Anchor (curTid s)) s)))))"

definition mkdirTemp :: "string act" where
  "mkdirTemp = (\<lambda>s. thenK (kdo (MkdirTemp ''mwarp-root-'')) (\<lambda>_. thenK freshId (\<lambda>i.
     let dir = tmpRoot s @ ''/mwarp-root-'' @ formatUint i
     in thenK (modK (hold (TempDir dir))) (\<lambda>_. retK dir))) s)"

text \<open>\<open>unix.Open(/proc/<tid>/ns/...)\<close>.\<close>

definition openNs :: "nat \<Rightarrow> nat act" where
  "openNs ns = thenK (kopen (OpenNs ns) Fd) (\<lambda>fd.
     thenK (modK (\<lambda>s. s\<lparr>nsOf := (nsOf s)(fd := ns)\<rparr>)) (\<lambda>_. retK fd))"

definition createNetNS :: "netns_options \<Rightarrow> netns act" where
  "createNetNS opts =
     thenK (wrapK ''mktemp staging: %w'' [] mkdirTemp) (\<lambda>dir.
     thenK (onErrK (spawn (anchor dir opts)) (release (TempDir dir)) id) (\<lambda>(tid, net, mnt).
     thenK (onErrK (openNs net) (release (TempDir dir) \<circ> release (Anchor tid)) (Wrapf ''open net ns: %w'' [])) (\<lambda>netfd.
     thenK (onErrK (openNs mnt) (release (TempDir dir) \<circ> release (Anchor tid) \<circ> release (Fd netfd))
             (Wrapf ''open mnt ns: %w'' [])) (\<lambda>mntfd.
     retK \<lparr>NetFD = Some netfd, MntFD = Some mntfd, stagingDir = dir, stopped = False,
        anchorTid = tid, anchorNet = net, anchorMnt = mnt\<rparr>))))"

definition releaseFd :: "nat option \<Rightarrow> kern \<Rightarrow> kern" where
  "releaseFd fd s = (case fd of None \<Rightarrow> s | Some fd \<Rightarrow> release (Fd fd) s)"

text \<open>\<open>Close\<close>, on the structure and on the system.\<close>

definition nsClosed :: "netns \<Rightarrow> netns" where
  "nsClosed n = n\<lparr>NetFD := None, MntFD := None, stopped := True, stagingDir := ''''\<rparr>"

definition nsClose :: "netns \<Rightarrow> kern \<Rightarrow> kern" where
  "nsClose n s =
     (let s = releaseFd (MntFD n) (releaseFd (NetFD n) s);
          s = (if stopped n then s else release (Anchor (anchorTid n)) s)
      in if stagingDir n \<noteq> '''' then release (TempDir (stagingDir n)) s else s)"

section \<open>Running code inside\<close>

definition fdNum :: "nat option \<Rightarrow> nat" where
  "fdNum fd = (case fd of None \<Rightarrow> 0 | Some fd \<Rightarrow> fd)"

definition setnsMnt :: "nat \<Rightarrow> unit act" where
  "setnsMnt fd = thenK (kdo (SetnsMnt fd)) (\<lambda>_. modK (\<lambda>s. s\<lparr>curMnt := nsOf s fd\<rparr>))"

definition setnsNet :: "nat \<Rightarrow> unit act" where
  "setnsNet fd = thenK (kdo (SetnsNet fd)) (\<lambda>_. modK (\<lambda>s. s\<lparr>curNet := nsOf s fd\<rparr>))"

definition netnsRun :: "netns \<Rightarrow> 'a act \<Rightarrow> 'a act" where
  "netnsRun n fn = spawn (
     thenK (wrapK ''unshare fs: %w'' [] (kdo UnshareFs)) (\<lambda>_.
     thenK (wrapK ''setns mnt: %w'' [] (setnsMnt (fdNum (MntFD n)))) (\<lambda>_.
     thenK (wrapK ''setns net: %w'' [] (setnsNet (fdNum (NetFD n)))) (\<lambda>_. fn))))"

definition netnsRunNet :: "netns \<Rightarrow> 'a act \<Rightarrow> 'a act" where
  "netnsRunNet n fn = spawn (
     thenK (wrapK ''setns net: %w'' [] (setnsNet (fdNum (NetFD n)))) (\<lambda>_. fn))"

definition netnsRunOnAnchor :: "netns \<Rightarrow> 'a act \<Rightarrow> 'a act" where
  "netnsRunOnAnchor n fn =
     (if stopped n then failK (Errorf ''netns closed'' [])
      else onThread (thenK (modK (\<lambda>s. s\<lparr>curNet := anchorNet n, curMnt := anchorMnt n, curTid := anchorTid n\<rparr>)) (\<lambda>_. fn)))"

section \<open>What a namespace holds\<close>

definition fdRes :: "nat option \<Rightarrow> res multiset" where
  "fdRes fd = (case fd of None \<Rightarrow> {#} | Some fd \<Rightarrow> {#Fd fd#})"

definition nsUses :: "netns \<Rightarrow> res multiset" where
  "nsUses n = fdRes (NetFD n) + fdRes (MntFD n) + (if stopped n then {#} else {#Anchor (anchorTid n)#}) +
     (if stagingDir n \<noteq> '''' then {#TempDir (stagingDir n)#} else {#})"

lemma unch_held_files [unch_rules]:
  "unch held (createCharDevice p m a b)" "unch held (setupMinimalDev dir)" "unch held (applyBindMount dir x)"
  "unch held (mkRootDir dir d)"
proof -
  show c: "unch held (createCharDevice p m a b)" for p m a b
    unfolding createCharDevice_def by (intro unch_rules) simp
  show "unch held (setupMinimalDev dir)"
    unfolding setupMinimalDev_def by (intro unch_rules c; simp)
  show "unch held (applyBindMount dir x)"
    unfolding applyBindMount_def Let_def by (intro unch_rules; simp)
  show "unch held (mkRootDir dir d)"
    unfolding mkRootDir_def by (intro unch_rules; simp)
qed

lemma unch_held_roots [unch_rules]:
  "unch held (setupSandboxRoot dir opts)" "unch held (setupHostRootResolvOverlay dir opts)"
  unfolding setupSandboxRoot_def setupHostRootResolvOverlay_def Let_def by (intro unch_rules; simp)+

lemma unch_held_ns [unch_rules]: "unch held unshareNet" "unch held unshareMnt" "unch held (setnsMnt fd)" "unch held (setnsNet fd)"
  unfolding unshareNet_def unshareMnt_def setnsMnt_def setnsNet_def by (intro unch_rules; simp)+

lemma anchor_owns: "owns {#} (anchor dir opts) (\<lambda>(tid, net, mnt). {#Anchor tid#})"
  unfolding anchor_def
  by (intro owns_thenK [where B = "\<lambda>_. {#}"] owns_quiet unch_rules; (rule ownsI)?; auto)

lemma mkdirTemp_owns: "owns {#} mkdirTemp (\<lambda>dir. {#TempDir dir#})"
proof -
  have "owns {#} (thenK (kdo (MkdirTemp ''mwarp-root-'')) (\<lambda>_. thenK freshId (\<lambda>i.
     let dir = r @ ''/mwarp-root-'' @ formatUint i in thenK (modK (hold (TempDir dir))) (\<lambda>_. retK dir))))
     (\<lambda>dir. {#TempDir dir#})" for r
    unfolding Let_def
  proof (intro owns_thenK)
    show "owns {#} (kdo (MkdirTemp ''mwarp-root-'')) (\<lambda>_. {#})" "owns {#} freshId (\<lambda>_. {#})" by (intro owns_quiet unch_rules)+
    show "owns {#} (modK (hold (TempDir d))) (\<lambda>_. {#TempDir d#})" for d by (rule ownsI) auto
    show "owns {#TempDir d#} (retK d) (\<lambda>dir. {#TempDir dir#})" for d by (rule owns_retK) simp
  qed
  then show ?thesis unfolding mkdirTemp_def by (rule owns_state)
qed

lemma mkdirTemp_dir: "mkdirTemp s = (Ok dir, s') \<Longrightarrow> dir = tmpRoot s @ ''/mwarp-root-'' @ formatUint (fresh s)"
  by (auto simp: mkdirTemp_def Let_def kdo_def logCall_def freshId_def elim!: thenK_OkE split: list.splits option.splits)

lemma openNs_owns: "owns {#} (openNs ns) (\<lambda>fd. {#Fd fd#})"
  unfolding openNs_def
proof (intro owns_thenK)
  show "owns {#} (kopen (OpenNs ns) Fd) (\<lambda>fd. {#Fd fd#})" by (rule owns_kopen)
  show "owns {#Fd fd#} (modK (\<lambda>s. s\<lparr>nsOf := (nsOf s)(fd := ns)\<rparr>)) (\<lambda>_. {#Fd fd#})" for fd by (rule ownsI) auto
  show "owns {#Fd fd#} (retK fd) (\<lambda>fd. {#Fd fd#})" for fd by (rule owns_retK) simp
qed

lemma openBoth_owns:
  assumes d: "dir \<noteq> ''''"
  shows "owns {#Anchor tid, TempDir dir#}
     (thenK (onErrK (openNs net) (release (TempDir dir) \<circ> release (Anchor tid)) (Wrapf ''open net ns: %w'' [])) (\<lambda>netfd.
      thenK (onErrK (openNs mnt) (release (TempDir dir) \<circ> release (Anchor tid) \<circ> release (Fd netfd))
             (Wrapf ''open mnt ns: %w'' [])) (\<lambda>mntfd.
      retK \<lparr>NetFD = Some netfd, MntFD = Some mntfd, stagingDir = dir, stopped = False,
        anchorTid = tid, anchorNet = net, anchorMnt = mnt\<rparr>))) nsUses"
proof (intro owns_thenK)
  have a: "frees (release (TempDir dir) \<circ> release (Anchor tid)) {#Anchor tid, TempDir dir#}"
    by (rule frees_comp_eq [OF frees_release frees_release]) simp
  show "owns {#Anchor tid, TempDir dir#}
      (onErrK (openNs net) (release (TempDir dir) \<circ> release (Anchor tid)) (Wrapf ''open net ns: %w'' []))
      (\<lambda>fd. {#Fd fd, Anchor tid, TempDir dir#})"
    by (rule owns_onErrK [OF openNs_owns a]) simp
  fix netfd :: nat
  have b: "frees (release (TempDir dir) \<circ> release (Anchor tid) \<circ> release (Fd netfd)) {#Fd netfd, Anchor tid, TempDir dir#}"
    by (rule frees_comp_eq [OF frees_release a]) simp
  show "owns {#Fd netfd, Anchor tid, TempDir dir#} (onErrK (openNs mnt)
      (release (TempDir dir) \<circ> release (Anchor tid) \<circ> release (Fd netfd)) (Wrapf ''open mnt ns: %w'' []))
      (\<lambda>fd. {#Fd fd, Fd netfd, Anchor tid, TempDir dir#})"
    by (rule owns_onErrK [OF openNs_owns b]) simp
  fix mntfd :: nat
  show "owns {#Fd mntfd, Fd netfd, Anchor tid, TempDir dir#}
      (retK \<lparr>NetFD = Some netfd, MntFD = Some mntfd, stagingDir = dir, stopped = False,
        anchorTid = tid, anchorNet = net, anchorMnt = mnt\<rparr>) nsUses"
    using d by (intro owns_retK) (simp add: nsUses_def fdRes_def)
qed

lemma createNetNS_owns: "owns {#} (createNetNS opts) nsUses"
  unfolding createNetNS_def
proof (rule owns_thenK [where B = "\<lambda>dir. {#TempDir dir#}"], goal_cases)
  case 1
  show ?case by (rule owns_onErrK [OF mkdirTemp_owns frees_id(1)]) simp
next
  case (2 dir s s')
  then have d: "dir \<noteq> ''''" by (auto elim!: onErrK_OkE dest: mkdirTemp_dir)
  have "owns {#TempDir dir#} (onErrK (spawn (anchor dir opts)) (release (TempDir dir)) id)
      (\<lambda>(tid, net, mnt). {#Anchor tid, TempDir dir#})"
    by (rule owns_onErrK [OF owns_spawn [OF anchor_owns] frees_release]) auto
  then show ?case
    by (rule owns_thenK) (auto split: prod.split intro: openBoth_owns [OF d])
qed

lemma frees_releaseFd: "frees (releaseFd fd) (fdRes fd)"
  by (cases fd) (simp_all add: frees_def releaseFd_def fdRes_def)

lemma nsClose_frees: "frees (nsClose n) (nsUses n)"
proof -
  let ?a = "\<lambda>s. if stopped n then s else release (Anchor (anchorTid n)) s"
  let ?t = "\<lambda>s. if stagingDir n \<noteq> '''' then release (TempDir (stagingDir n)) s else s"
  have "frees ?a (if stopped n then {#} else {#Anchor (anchorTid n)#})"
    "frees ?t (if stagingDir n \<noteq> '''' then {#TempDir (stagingDir n)#} else {#})"
    by (simp_all add: frees_def)
  from frees_comp [OF frees_comp [OF frees_comp [OF frees_releaseFd frees_releaseFd] this(1)] this(2)]
  have "frees (?t \<circ> (?a \<circ> (releaseFd (MntFD n) \<circ> releaseFd (NetFD n)))) (nsUses n)"
    by (simp add: nsUses_def)
  moreover have "?t \<circ> (?a \<circ> (releaseFd (MntFD n) \<circ> releaseFd (NetFD n))) = nsClose n"
    by (rule ext) (simp add: nsClose_def Let_def)
  ultimately show ?thesis by simp
qed

interpretation namespace: managed "createNetNS opts" nsClose nsUses for opts
  by unfold_locales (rule createNetNS_owns, rule nsClose_frees)

lemma nsClose_again: "nsClose (nsClosed n) s = s"
  by (simp add: nsClose_def nsClosed_def releaseFd_def)

section \<open>The mount table\<close>

text \<open>
  What \<open>mount(2)\<close>, \<open>pivot_root(2)\<close> and \<open>umount(2)\<close> document of the calls used here, on the table of a mount
  namespace (newest first) and the working directory. A bind or file system mount adds an entry,
  a remount changes the flags of the top one at its target. \<open>pivot_root\<close> makes the working
  directory the root, whose mounts lose their prefix, and puts everything else below
  the second argument; a lazy unmount detaches a whole subtree.
\<close>

datatype mnt = Mnt (msrc: string) (mdst: string) (mro: bool)

definition under :: "string \<Rightarrow> string \<Rightarrow> bool" where
  "under d p \<longleftrightarrow> p = d \<or> is_prefix (d @ ''/'') p"

fun remount :: "string \<Rightarrow> bool \<Rightarrow> mnt list \<Rightarrow> mnt list" where
  "remount dst ro [] = []"
| "remount dst ro (m # ms) = (if mdst m = dst then Mnt (msrc m) dst ro # ms else m # remount dst ro ms)"

definition pivot :: "string \<Rightarrow> string \<Rightarrow> mnt \<Rightarrow> mnt" where
  "pivot d old m =
     (if mdst m = d then Mnt (msrc m) ''/'' (mro m)
      else if under d (mdst m) then Mnt (msrc m) (drop (length d) (mdst m)) (mro m)
      else Mnt (msrc m) (''/'' @ old @ (if mdst m = ''/'' then '''' else mdst m)) (mro m))"

fun mountStep :: "kcall \<Rightarrow> string \<times> mnt list \<Rightarrow> string \<times> mnt list" where
  "mountStep (Mount src dst fs flags data) (cwd, ms) =
     (if MS_PRIVATE \<in> set flags then (cwd, ms)
      else if MS_REMOUNT \<in> set flags then (cwd, remount dst (MS_RDONLY \<in> set flags) ms)
      else (cwd, Mnt src dst (MS_RDONLY \<in> set flags) # ms))"
| "mountStep (Chdir d) (cwd, ms) = (d, ms)"
| "mountStep (PivotRoot new old) (cwd, ms) = (cwd, map (pivot cwd old) ms)"
| "mountStep (Umount p) (cwd, ms) = (cwd, filter (\<lambda>m. \<not> under p (mdst m)) ms)"
| "mountStep c st = st"

text \<open>The table of a mount namespace that started as a copy of \<open>host\<close>, after the calls made in it.\<close>

definition callsIn :: "nat \<Rightarrow> (nat \<times> nat \<times> kcall) list \<Rightarrow> kcall list" where
  "callsIn mnt cs = map (\<lambda>(n, m, c). c) (filter (\<lambda>(n, m, c). m = mnt) cs)"

definition mountTable :: "mnt list \<Rightarrow> nat \<Rightarrow> kern \<Rightarrow> mnt list" where
  "mountTable host mnt s = snd (fold mountStep (callsIn mnt (did s)) (''/'', host))"

text \<open>A run of \<open>m\<close> from the table \<open>st\<close> ends with one that satisfies \<open>Q\<close>.\<close>

definition tables :: "string \<times> mnt list \<Rightarrow> 'a act \<Rightarrow> (string \<times> mnt list \<Rightarrow> bool) \<Rightarrow> bool" where
  "tables st m Q \<longleftrightarrow> emits m (\<lambda>_ cs. Q (fold mountStep cs st))"

lemma tables_step:
  assumes "tables (mountStep c st) (f ()) Q"
  shows "tables st (thenK (onErrK (kdo c) h g) f) Q" "tables st (thenK (kdo c) f) Q"
  using assms by (auto simp: tables_def intro!: makes_step)

lemma tables_to: "mountStep c st = st' \<Longrightarrow> tables st' (f ()) Q \<Longrightarrow> tables st (thenK (onErrK (kdo c) h g) f) Q"
  using tables_step(1) by blast

lemma tables_last:
  assumes "Q (mountStep c st)"
  shows "tables st (onErrK (kdo c) h g) Q" "tables st (kdo c) Q"
  using assms by (auto simp: tables_def intro!: emits_onErrK emits_mono [OF emits_kdo])

lemma tables_thenK:
  assumes "tables st m R" "\<And>x st'. R st' \<Longrightarrow> tables st' (f x) Q"
  shows "tables st (thenK m f) Q"
proof -
  have "emits (thenK m f) (\<lambda>y cs. Q (fold mountStep cs st))"
  proof (rule emitsI)
    fix s y t assume "thenK m f s = (Ok y, t)"
    then obtain x s' where 1: "m s = (Ok x, s')" "f x s' = (Ok y, t)" by (blast elim: thenK_OkE)
    obtain a where a: "R (fold mountStep a st)" "did s' = did s @ at s a" "place s' = place s"
      using emitsD [OF assms(1) [unfolded tables_def] 1(1)] .
    obtain b where b: "Q (fold mountStep b (fold mountStep a st))" "did t = did s' @ at s' b" "place t = place s'"
      using emitsD [OF assms(2) [OF a(1), unfolded tables_def] 1(2)] .
    have "did t = did s @ at s (a @ b)" using a b at_place [OF a(3)] by simp
    moreover have "Q (fold mountStep (a @ b) st)" using b(1) by simp
    ultimately show "place t = place s \<and> (\<exists>cs. Q (fold mountStep cs st) \<and> did t = did s @ at s cs)"
      using a b by metis
  qed
  then show ?thesis by (simp add: tables_def)
qed

lemma tables_retK: "Q st \<Longrightarrow> tables st (retK x) Q"
  by (simp add: tables_def emits_retK del: retK_apply)

lemma tables_failK: "tables st (failK e) Q"
  by (simp add: tables_def emits_never del: failK_apply)

lemma tables_tryK:
  assumes "tables st m Q" "\<And>s e s'. m s = (Err e, s') \<Longrightarrow> place s' = place s \<and> did s' = did s" "Q st"
  shows "tables st (tryK m) Q"
  unfolding tables_def
proof (rule emitsI)
  fix s r s' assume "tryK m s = (Ok r, s')"
  then consider x where "m s = (Ok x, s')" | e where "m s = (Err e, s')"
    by (cases m s rule: act_cases) (auto simp: tryK_def)
  then show "place s' = place s \<and> (\<exists>cs. Q (fold mountStep cs st) \<and> did s' = did s @ at s cs)"
  proof cases
    case 1
    with assms(1) show ?thesis by (auto simp: tables_def emits_def)
  next
    case 2
    with assms(2,3) show ?thesis by (auto intro: exI [of _ "[]"])
  qed
qed

lemma kdo_Err: "kdo c s = (Err e, s') \<Longrightarrow> place s' = place s \<and> did s' = did s"
  by (auto simp: kdo_def place_def split: list.splits option.splits)

lemma tables_try_kdo: "mountStep c st = st \<Longrightarrow> Q st \<Longrightarrow> tables st (tryK (kdo c)) Q"
  by (rule tables_tryK) (auto intro: tables_last dest: kdo_Err)

lemma tables_forK_same:
  assumes "\<And>x. x \<in> set xs \<Longrightarrow> tables st (f x) (\<lambda>st'. st' = st)"
  shows "tables st (forK f xs) (\<lambda>st'. st' = st)"
  using assms
proof (induction xs)
  case (Cons x xs)
  then show ?case by (auto intro!: tables_thenK [where R = "\<lambda>st'. st' = st"])
qed (simp add: tables_retK del: retK_apply)

section \<open>The file system of a sandbox\<close>

definition bindMnt :: "string \<Rightarrow> bind_mount \<Rightarrow> mnt" where
  "bindMnt dir b = Mnt (bmSource b) (dir @ bmTarget b) (bmReadOnly b)"

lemma tables_createCharDevice: "tables st (createCharDevice p m a b) (\<lambda>st'. st' = st)"
proof -
  obtain cwd ms where st: "st = (cwd, ms)" by fastforce
  show ?thesis
    unfolding createCharDevice_def st
    by (rule tables_thenK [where R = "\<lambda>st'. st' = (cwd, ms)", OF tables_try_kdo], simp_all split del: if_split)
      (intro tables_thenK [where R = "\<lambda>st'. st' = (cwd, ms)"] tables_last,
        auto split: sum.split intro: tables_retK tables_failK simp del: retK_apply failK_apply)
qed

lemma tables_setupMinimalDev: "tables st (setupMinimalDev dir) (\<lambda>st'. st' = st)"
proof -
  obtain cwd ms where st: "st = (cwd, ms)" by fastforce
  have "tables (cwd, ms) (forK (\<lambda>(path, major, minor, mode). createCharDevice (dir @ path) mode major minor) devNodes) (\<lambda>st'. st' = (cwd, ms))"
    by (rule tables_forK_same) (auto intro: tables_createCharDevice)
  moreover have "tables (cwd, ms) (forK (\<lambda>(from, to). wrapK ''symlink %s: %w'' [AStr from] (kdo (Symlink to (dir @ from)))) devLinks) (\<lambda>st'. st' = (cwd, ms))"
    by (rule tables_forK_same) (auto intro!: tables_last)
  ultimately show ?thesis
    unfolding setupMinimalDev_def st
    by (intro tables_step) (auto intro!: tables_thenK [where R = "\<lambda>st'. st' = (cwd, ms)"])
qed

lemma tables_applyBindMount:
  "tables (cwd, ms) (applyBindMount dir b) (\<lambda>st. st = (cwd, ms) \<or> st = (cwd, bindMnt dir b # ms))"
proof -
  let ?S = "\<lambda>st. st = (cwd, ms)" and ?dst = "dir @ bmTarget b"
  define q :: "unit act" where "q = thenK (wrapK ''bind %s -> %s: %w'' [AStr (bmSource b), AStr (bmTarget b)]
         (kdo (Mount (bmSource b) ?dst '''' [MS_BIND, MS_REC] ''''))) (\<lambda>_.
         if bmReadOnly b
         then wrapK ''remount %s ro: %w'' [AStr (bmTarget b)]
                (kdo (Mount '''' ?dst '''' [MS_BIND, MS_REMOUNT, MS_RDONLY, MS_REC] ''''))
         else retK ())"
  have q: "tables (cwd, ms) q (\<lambda>st. st = (cwd, bindMnt dir b # ms))"
    unfolding q_def
    by (intro tables_step) (auto simp: bindMnt_def simp del: retK_apply intro!: tables_last tables_retK)
  have 1: "tables (cwd, ms) (thenK (tryK (kdo (Mkdir ?dst 493))) (\<lambda>r. case r of
      Inl e \<Rightarrow> if \<not> isExist e then failK (Wrapf ''mkdir %s: %w'' [AStr (bmTarget b)] e) else retK () | Inr _ \<Rightarrow> retK ())) ?S"
    by (rule tables_thenK [where R = ?S, OF tables_try_kdo])
      (auto split: sum.split simp del: retK_apply failK_apply intro: tables_retK tables_failK)
  have 2: "tables (cwd, ms) (thenK (tryK (kdo (StatFile ?dst))) (\<lambda>r. case r of
      Inl _ \<Rightarrow> wrapK ''touch %s: %w'' [AStr (bmTarget b)] (kdo (CreateFile ?dst)) | Inr _ \<Rightarrow> retK ())) ?S"
    by (rule tables_thenK [where R = ?S, OF tables_try_kdo])
      (auto split: sum.split simp del: retK_apply failK_apply intro!: tables_retK tables_last)
  have "tables (cwd, ms) (\<lambda>s. (if isDirHost s (bmSource b) then m1 else m2) s) ?S"
    if "tables (cwd, ms) m1 ?S" "tables (cwd, ms) m2 ?S" for m1 m2 :: "unit act"
    using that by (simp add: tables_def emits_def)
  note mk = this [OF 1 2]
  show ?thesis
    unfolding applyBindMount_def Let_def q_def [symmetric]
  proof (rule tables_thenK [where R = ?S, OF tables_try_kdo], simp, simp, goal_cases)
    case (1 r st')
    show ?case
    proof (cases r)
      case (Inr x)
      show ?thesis
        unfolding Inr 1 sum.case
        by (intro tables_step, unfold mountStep.simps, rule tables_thenK [OF mk],
            auto intro: tables_thenK simp: tables_def intro!: emits_mono [OF q [unfolded tables_def]])
    qed (use 1 in \<open>simp add: tables_retK del: retK_apply\<close>)
  qed
qed

lemma forK_map: "forK f (map g xs) = forK (\<lambda>x. f (g x)) xs"
  by (induction xs) auto

lemma tables_binds:
  "tables (cwd, ms) (forK (applyBindMount dir) bs)
     (\<lambda>st. \<exists>xs. subseq xs bs \<and> st = (cwd, rev (map (bindMnt dir) xs) @ ms))"
proof (induction bs arbitrary: ms)
  case Nil
  show ?case by (simp add: tables_retK del: retK_apply)
next
  case (Cons b bs)
  have 1: "tables (cwd, ms) (forK (applyBindMount dir) bs)
     (\<lambda>st. \<exists>xs. subseq xs (b # bs) \<and> st = (cwd, rev (map (bindMnt dir) xs) @ ms))"
    using Cons.IH [of ms] by (auto simp: tables_def elim!: emits_mono intro: list_emb_Cons)
  have "\<exists>ys. subseq ys (b # bs) \<and> rev (map (bindMnt dir) xs) @ bindMnt dir b # ms = rev (map (bindMnt dir) ys) @ ms"
    if "subseq xs bs" for xs
    using that by (intro exI [of _ "b # xs"]) simp
  then have 2: "tables (cwd, bindMnt dir b # ms) (forK (applyBindMount dir) bs)
     (\<lambda>st. \<exists>xs. subseq xs (b # bs) \<and> st = (cwd, rev (map (bindMnt dir) xs) @ ms))"
    using Cons.IH [of "bindMnt dir b # ms"] by (auto simp: tables_def elim!: emits_mono)
  show ?case
    unfolding forK.simps by (rule tables_thenK [OF tables_applyBindMount]) (use 1 2 in auto)
qed

text \<open>
  The documented layout: a tmpfs root, \<open>/usr\<close> and \<open>/sys\<close> read-only, \<open>/proc\<close>, and the binds
  that were asked for.
\<close>

definition sandboxMounts :: "bind_mount list \<Rightarrow> mnt list" where
  "sandboxMounts bs = rev (map (bindMnt '''') bs) @
     [Mnt ''/sys'' ''/sys'' True, Mnt ''/proc'' ''/proc'' False, Mnt ''/usr'' ''/usr'' True, Mnt ''tmpfs'' ''/'' False]"

definition allBinds :: "netns_options \<Rightarrow> bind_mount list" where
  "allBinds opts = map etcBind (ExtraEtcBinds opts) @ ExtraBinds opts"

text \<open>A bind target that lies below the new root and not below the old one.\<close>

definition goodTarget :: "bind_mount \<Rightarrow> bool" where
  "goodTarget b \<longleftrightarrow> pathRooted (bmTarget b) \<and> \<not> under ''/.put_old'' (bmTarget b)"

lemma pathRooted_iff: "pathRooted p \<longleftrightarrow> (\<exists>q. p = CHR ''/'' # q)"
  by (cases p) (auto simp: pathRooted_def)

lemma pivot_in: "pathRooted t \<Longrightarrow> pivot d old (Mnt s (d @ t) ro) = Mnt s t ro"
  by (auto simp: pivot_def under_def pathRooted_iff is_prefix_iff)

lemma pivot_root: "pivot d old (Mnt s d ro) = Mnt s ''/'' ro"
  by (simp add: pivot_def)

lemma pivot_out:
  "pathRooted (mdst m) \<Longrightarrow> \<not> under d (mdst m) \<Longrightarrow> under ''/.put_old'' (mdst (pivot d ''.put_old'' m))"
  by (auto simp: pivot_def under_def is_prefix_iff pathRooted_iff)

lemma subseq_appendI: "subseq xs as \<Longrightarrow> subseq ys bs \<Longrightarrow> subseq (xs @ ys) (as @ bs)"
  by (rule list_emb_append_mono)

lemma tables_allBinds:
  assumes "\<And>xs. subseq xs (allBinds opts) \<Longrightarrow> tables (cwd, rev (map (bindMnt dir) xs) @ ms) f Q"
  shows "tables (cwd, ms) (thenK (forK (\<lambda>name. applyBindMount dir (etcBind name)) (ExtraEtcBinds opts)) (\<lambda>_.
     thenK (forK (applyBindMount dir) (ExtraBinds opts)) (\<lambda>_. f))) Q"
proof (rule tables_thenK)
  show "tables (cwd, ms) (forK (\<lambda>name. applyBindMount dir (etcBind name)) (ExtraEtcBinds opts))
     (\<lambda>st. \<exists>xs. subseq xs (map etcBind (ExtraEtcBinds opts)) \<and> st = (cwd, rev (map (bindMnt dir) xs) @ ms))"
    using tables_binds [of cwd ms dir "map etcBind (ExtraEtcBinds opts)"] by (simp add: forK_map)
  fix st assume "\<exists>xs. subseq xs (map etcBind (ExtraEtcBinds opts)) \<and> st = (cwd, rev (map (bindMnt dir) xs) @ ms)"
  then obtain xs where xs: "subseq xs (map etcBind (ExtraEtcBinds opts))" "st = (cwd, rev (map (bindMnt dir) xs) @ ms)" by blast
  show "tables st (thenK (forK (applyBindMount dir) (ExtraBinds opts)) (\<lambda>_. f)) Q"
    unfolding xs(2)
  proof (rule tables_thenK [OF tables_binds])
    fix st' assume "\<exists>ys. subseq ys (ExtraBinds opts) \<and> st' = (cwd, rev (map (bindMnt dir) ys) @ rev (map (bindMnt dir) xs) @ ms)"
    then obtain ys where ys: "subseq ys (ExtraBinds opts)"
      "st' = (cwd, rev (map (bindMnt dir) ys) @ rev (map (bindMnt dir) xs) @ ms)" by blast
    have "subseq (xs @ ys) (allBinds opts)" using subseq_appendI xs(1) ys(1) by (simp add: allBinds_def)
    from assms [OF this] show "tables st' f Q" unfolding ys(2) by simp
  qed
qed

lemma tables_keep: "tables st m (\<lambda>st'. st' = st) \<Longrightarrow> tables st f Q \<Longrightarrow> tables st (thenK m (\<lambda>_. f)) Q"
  by (rule tables_thenK [where R = "\<lambda>st'. st' = st"]) simp_all

lemma pivot_sandbox:
  assumes "\<And>m. m \<in> set host \<Longrightarrow> pathRooted (mdst m) \<and> \<not> under dir (mdst m)" "\<And>b. b \<in> set bs \<Longrightarrow> goodTarget b"
  shows "filter (\<lambda>m. \<not> under ''/.put_old'' (mdst m)) (map (pivot dir ''.put_old'')
     (rev (map (bindMnt dir) bs) @ [Mnt ''/sys'' (dir @ ''/sys'') True, Mnt ''/proc'' (dir @ ''/proc'') False,
        Mnt ''/usr'' (dir @ ''/usr'') True, Mnt ''tmpfs'' dir False] @ host)) = sandboxMounts bs"
proof -
  have h: "filter (\<lambda>m. \<not> under ''/.put_old'' (mdst m)) (map (pivot dir ''.put_old'') host) = []"
    using assms(1) pivot_out by (auto simp: filter_empty_conv)
  have "pivot dir ''.put_old'' (bindMnt dir b) = bindMnt '''' b \<and> \<not> under ''/.put_old'' (bmTarget b)" if "b \<in> set bs" for b
    using assms(2) [OF that] by (simp add: bindMnt_def goodTarget_def pivot_in)
  then have "filter (\<lambda>m. \<not> under ''/.put_old'' (mdst m)) (map (pivot dir ''.put_old'') (rev (map (bindMnt dir) bs))) =
      rev (map (bindMnt '''') bs)"
    by (auto simp: rev_map [symmetric] map_idI filter_id_conv bindMnt_def)
  moreover have "pivot dir ''.put_old'' (Mnt ''/sys'' (dir @ ''/sys'') True) = Mnt ''/sys'' ''/sys'' True"
    "pivot dir ''.put_old'' (Mnt ''/proc'' (dir @ ''/proc'') False) = Mnt ''/proc'' ''/proc'' False"
    "pivot dir ''.put_old'' (Mnt ''/usr'' (dir @ ''/usr'') True) = Mnt ''/usr'' ''/usr'' True"
    by (intro pivot_in; simp add: pathRooted_def)+
  ultimately show ?thesis
    using h by (simp add: sandboxMounts_def pivot_root under_def is_prefix_def)
qed

lemma tables_setupSandboxRoot:
  assumes "\<And>m. m \<in> set host \<Longrightarrow> pathRooted (mdst m) \<and> \<not> under dir (mdst m)"
    "\<And>b. b \<in> set (allBinds opts) \<Longrightarrow> goodTarget b"
  shows "tables (''/'', host) (setupSandboxRoot dir opts)
     (\<lambda>st. \<exists>bs. subseq bs (allBinds opts) \<and> st = (''/'', sandboxMounts bs))" (is "tables _ _ ?Q")
proof -
  have dirs: "tables st (forK (mkRootDir dir) rootDirs) (\<lambda>st'. st' = st)" for st
    by (rule tables_forK_same) (cases st, auto simp: mkRootDir_def intro!: tables_last)
  have links: "tables st (forK (\<lambda>(from, to). wrapK ''symlink %s: %w'' [AStr from] (kdo (Symlink to (dir @ ''/'' @ from)))) rootLinks) (\<lambda>st'. st' = st)" for st
    by (rule tables_forK_same) (cases st, auto intro!: tables_last)
  have fin: "tables (''/'', rev (map (bindMnt dir) bs) @ Mnt ''/sys'' (dir @ ''/sys'') True # Mnt ''/proc'' (dir @ ''/proc'') False #
        Mnt ''/usr'' (dir @ ''/usr'') True # Mnt ''tmpfs'' dir False # host)
     (thenK (wrapK ''chdir %s: %w'' [AStr dir] (kdo (Chdir dir))) (\<lambda>_.
      thenK (wrapK ''pivot_root: %w'' [] (kdo (PivotRoot ''.'' ''.put_old''))) (\<lambda>_.
      thenK (wrapK ''chdir /: %w'' [] (kdo (Chdir ''/''))) (\<lambda>_.
      thenK (wrapK ''umount old root: %w'' [] (kdo (Umount ''/.put_old''))) (\<lambda>_.
      wrapK ''remove .put_old: %w'' [] (kdo (RemoveFile ''/.put_old''))))))) ?Q" if bs: "subseq bs (allBinds opts)" for bs
  proof -
    have "goodTarget b" if "b \<in> set bs" for b using assms(2) bs that by (blast elim: list_emb_set)
    from pivot_sandbox [OF assms(1) this, simplified append.simps] bs show ?thesis
      by (intro tables_to [OF refl] tables_last) (auto simp only: mountStep.simps)
  qed
  show ?thesis
    unfolding setupSandboxRoot_def
    by (rule tables_to, simp, rule tables_keep [OF dirs],
        rule tables_to, simp, rule tables_to, simp, rule tables_keep [OF tables_setupMinimalDev],
        rule tables_to, simp, rule tables_to, simp, rule tables_to, simp, rule tables_keep [OF links],
        rule tables_to, simp, rule tables_allBinds, erule fin)
qed

lemma tables_setupHostRoot:
  "tables (''/'', host) (setupHostRootResolvOverlay dir opts)
     (\<lambda>st. st = (''/'', Mnt (dir @ ''/resolv.conf'') ''/etc/resolv.conf'' True # host))"
  unfolding setupHostRootResolvOverlay_def Let_def
  by (rule tables_to, simp, rule tables_to, simp, rule tables_to, simp, rule tables_to, simp, rule tables_last, simp)

text \<open>Identities are handed out in order, so a new namespace has a number no call was made in.\<close>

definition wfKern :: "kern \<Rightarrow> bool" where
  "wfKern s \<longleftrightarrow> curMnt s < fresh s \<and> list_all (\<lambda>(n, m, c). m < fresh s) (did s)"

lemma kdo_Ok: "kdo c s = (Ok x, s') \<Longrightarrow> did s' = did s @ [(curNet s, curMnt s, c)] \<and> place s' = place s \<and> fresh s' = fresh s"
  by (auto simp: kdo_def logCall_def place_def split: list.splits option.splits)

lemma mkdirTemp_Ok:
  "mkdirTemp s = (Ok dir, s') \<Longrightarrow> dir = tmpRoot s @ ''/mwarp-root-'' @ formatUint (fresh s) \<and>
     did s' = did s @ [(curNet s, curMnt s, MkdirTemp ''mwarp-root-'')] \<and> place s' = place s \<and> fresh s' = Suc (fresh s)"
  by (auto simp: mkdirTemp_def Let_def freshId_def place_def hold_def elim!: thenK_OkE dest!: kdo_Ok)

lemma openNs_Ok: "openNs ns s = (Ok fd, s') \<Longrightarrow> did s' = did s @ [(curNet s, curMnt s, OpenNs ns)] \<and> place s' = place s"
  by (auto simp: openNs_def kopen_def freshId_def place_def hold_def elim!: thenK_OkE dest!: kdo_Ok)

text \<open>The calls of the anchor, as the state after it shows them.\<close>

lemma anchor_Ok:
  assumes "anchor dir opts s = (Ok (tid, net, mnt), s')"
    and t: "tables st (if RootMode opts = NetNSRootHost then setupHostRootResolvOverlay dir opts else setupSandboxRoot dir opts) Q"
  shows "\<exists>cs. did s' = did s @ [(curNet s, curMnt s, UnshareNet), (fresh s, curMnt s, UnshareMnt),
      (fresh s, mnt, Mount '''' ''/'' '''' [MS_REC, MS_PRIVATE] '''')] @ map (\<lambda>c. (fresh s, mnt, c)) cs \<and>
      Q (fold mountStep cs st) \<and> tid = curTid s \<and> net = fresh s \<and> mnt = Suc (fresh s)"
proof -
  let ?m = "if RootMode opts = NetNSRootHost then setupHostRootResolvOverlay dir opts else setupSandboxRoot dir opts"
  from assms(1) obtain s1 s2 s3 s4 where
    1: "unshareNet s = (Ok (), s1)" and 2: "unshareMnt s1 = (Ok (), s2)"
    and 3: "kdo (Mount '''' ''/'' '''' [MS_REC, MS_PRIVATE] '''') s2 = (Ok (), s3)"
    and 4: "?m s3 = (Ok (), s4)"
    and 5: "s' = hold (Anchor (curTid s4)) s4" "tid = curTid s4" "net = curNet s4" "mnt = curMnt s4"
    unfolding anchor_def by (auto elim!: thenK_OkE onErrK_OkE)
  have a: "did s1 = did s @ [(curNet s, curMnt s, UnshareNet)]" "curNet s1 = fresh s" "curMnt s1 = curMnt s"
    "curTid s1 = curTid s" "fresh s1 = Suc (fresh s)"
    using 1 by (auto simp: unshareNet_def freshId_def place_def elim!: thenK_OkE dest!: kdo_Ok)
  have b: "did s2 = did s1 @ [(curNet s1, curMnt s1, UnshareMnt)]" "curNet s2 = curNet s1" "curMnt s2 = fresh s1"
    "curTid s2 = curTid s1"
    using 2 by (auto simp: unshareMnt_def freshId_def place_def elim!: thenK_OkE dest!: kdo_Ok)
  note c = kdo_Ok [OF 3]
  obtain cs where d: "Q (fold mountStep cs st)" "did s4 = did s3 @ at s3 cs" "place s4 = place s3"
    using emitsD [OF t [unfolded tables_def] 4] by blast
  have p: "curNet s4 = fresh s" "curMnt s4 = Suc (fresh s)" "curNet s3 = fresh s" "curMnt s3 = Suc (fresh s)" "curTid s4 = curTid s"
    using a b c d(3) by (auto simp: place_def)
  have "did s' = did s @ [(curNet s, curMnt s, UnshareNet), (fresh s, curMnt s, UnshareMnt),
      (fresh s, mnt, Mount '''' ''/'' '''' [MS_REC, MS_PRIVATE] '''')] @ map (\<lambda>c. (fresh s, mnt, c)) cs"
    using a b c d(2) p 5 by (simp add: at_def)
  with d(1) p 5 show ?thesis by auto
qed

lemma createNetNS_table:
  assumes "createNetNS opts s = (Ok n, s')" and wf: "wfKern s"
    and t: "tables (''/'', host) (if RootMode opts = NetNSRootHost
        then setupHostRootResolvOverlay (stagingDir n) opts else setupSandboxRoot (stagingDir n) opts) (\<lambda>st. P (snd st))"
  shows "P (mountTable host (anchorMnt n) s')"
proof -
  from assms(1) obtain dir s1 tid net mnt s2 fd s3 fd' where
    1: "mkdirTemp s = (Ok dir, s1)" and 2: "spawn (anchor dir opts) s1 = (Ok (tid, net, mnt), s2)"
    and 3: "openNs net s2 = (Ok fd, s3)" and 4: "openNs mnt s3 = (Ok fd', s')"
    and n: "n = \<lparr>NetFD = Some fd, MntFD = Some fd', stagingDir = dir, stopped = False,
        anchorTid = tid, anchorNet = net, anchorMnt = mnt\<rparr>"
    unfolding createNetNS_def by (auto elim!: thenK_OkE onErrK_OkE split: prod.splits)
  note m = mkdirTemp_Ok [OF 1]
  from 2 obtain t where
    a: "anchor dir opts (s1\<lparr>fresh := Suc (fresh s1), curTid := fresh s1, capsOf := (capsOf s1)(fresh s1 := capsOf s1 (curTid s1))\<rparr>)
        = (Ok (tid, net, mnt), t)" (is "anchor dir opts ?s = _")
    and s2: "did s2 = did t" "curMnt s2 = curMnt s1"
    by (auto simp: spawn_def onThread_def freshId_def thenK_def split: prod.splits)
  from anchor_Ok [OF a t [unfolded n netns.select_convs]] obtain cs where
    cs: "did t = did ?s @ [(curNet ?s, curMnt ?s, UnshareNet), (fresh ?s, curMnt ?s, UnshareMnt),
      (fresh ?s, mnt, Mount '''' ''/'' '''' [MS_REC, MS_PRIVATE] '''')] @ map (\<lambda>c. (fresh ?s, mnt, c)) cs"
    "P (snd (fold mountStep cs (''/'', host)))" "mnt = Suc (fresh ?s)" by auto
  note o = openNs_Ok [OF 3] openNs_Ok [OF 4]
  have lt: "curMnt s < mnt" "\<forall>(a, k, c) \<in> set (did s). k < mnt"
    using wf cs(3) m by (auto simp: wfKern_def list_all_iff)
  then have "callsIn mnt (did s) = []" by (auto simp: callsIn_def filter_empty_conv)
  moreover have "curMnt s3 = curMnt s" "curMnt s2 = curMnt s" "curMnt s1 = curMnt s"
    using o s2 m by (auto simp: place_def)
  ultimately have "callsIn mnt (did s') = Mount '''' ''/'' '''' [MS_REC, MS_PRIVATE] '''' # cs"
    using o s2(1) cs(1) m lt(1) by (simp add: callsIn_def filter_map comp_def)
  then show ?thesis using cs(2) n by (simp add: mountTable_def)
qed

lemma createNetNS_safe: "safe (createNetNS opts)"
proof -
  have c: "safe (createCharDevice p m a b)" for p m a b
    unfolding createCharDevice_def by (intro safe_rules)
  have d: "safe (setupMinimalDev dir)" for dir unfolding setupMinimalDev_def by (intro safe_rules c)
  have b: "safe (applyBindMount dir b)" for dir b
    unfolding applyBindMount_def Let_def by (intro safe_rules)
  have r: "safe (mkRootDir dir d)" for dir d unfolding mkRootDir_def by (intro safe_rules)
  have u: "safe unshareNet" "safe unshareMnt" unfolding unshareNet_def unshareMnt_def by (intro safe_rules)+
  have h: "safe (setupHostRootResolvOverlay dir opts)" for dir
    unfolding setupHostRootResolvOverlay_def Let_def by (intro safe_rules)
  have l: "safe (forK (\<lambda>(from, to). wrapK ''symlink %s: %w'' [AStr from] (kdo (Symlink to (dir @ ''/'' @ from)))) rootLinks)" for dir
    by (intro safe_forK safe_cases safe_onErrK safe_kdo)
  have s: "safe (setupSandboxRoot dir opts)" for dir
    unfolding setupSandboxRoot_def by (intro safe_thenK safe_onErrK safe_kdo d l safe_forK r b)
  have "safe (\<lambda>s. (Ok (curTid s, curNet s, curMnt s), hold (Anchor (curTid s)) s))" by (simp add: safe_def)
  then have "safe (anchor dir opts)" for dir
    unfolding anchor_def by (intro safe_thenK safe_onErrK safe_kdo safe_cases(1) u h s)

  moreover have "safe (thenK (kdo (MkdirTemp ''mwarp-root-'')) (\<lambda>_. thenK freshId (\<lambda>i.
     let dir = t @ ''/mwarp-root-'' @ formatUint i in thenK (modK (hold (TempDir dir))) (\<lambda>_. retK dir))))" for t
    unfolding Let_def by (intro safe_rules)
  then have "safe mkdirTemp" unfolding mkdirTemp_def by (simp add: safe_def)
  ultimately show ?thesis
    unfolding createNetNS_def openNs_def by (intro safe_thenK safe_onErrK safe_spawn safe_kopen safe_cases safe_basic)
qed

lemma createNetNS_runs: "runs (createNetNS opts)"
proof -
  have c: "runs (createCharDevice p m a b)" for p m a b
    unfolding createCharDevice_def by (rule runs_then_tryK) (auto intro!: runs_rules simp del: retK_apply)
  have d: "runs (setupMinimalDev dir)" for dir unfolding setupMinimalDev_def by (intro runs_rules c)
  have "runs (if isd then thenK (tryK (kdo (Mkdir dst 493))) (\<lambda>r. case r of
        Inl e \<Rightarrow> if \<not> isExist e then failK (Wrapf ''mkdir %s: %w'' [AStr t] e) else retK () | Inr _ \<Rightarrow> retK ())
      else thenK (tryK (kdo (StatFile dst))) (\<lambda>r. case r of
        Inl _ \<Rightarrow> wrapK ''touch %s: %w'' [AStr t] (kdo (CreateFile dst)) | Inr _ \<Rightarrow> retK ()))" for isd dst t
    by (intro runs_cases(1) runs_then_tryK runs_basic) (simp_all add: runs_basic del: retK_apply)
  then have m: "runs (\<lambda>s. (if isDirHost s x then thenK (tryK (kdo (Mkdir dst 493))) (\<lambda>r. case r of
        Inl e \<Rightarrow> if \<not> isExist e then failK (Wrapf ''mkdir %s: %w'' [AStr t] e) else retK () | Inr _ \<Rightarrow> retK ())
      else thenK (tryK (kdo (StatFile dst))) (\<lambda>r. case r of
        Inl _ \<Rightarrow> wrapK ''touch %s: %w'' [AStr t] (kdo (CreateFile dst)) | Inr _ \<Rightarrow> retK ())) s)" for x dst t
    unfolding runs_def by blast
  have b: "runs (applyBindMount dir b)" for dir b
    unfolding applyBindMount_def Let_def
    by (intro runs_then_tryK runs_basic, unfold sum.case) (intro runs_thenK runs_onErrK m runs_cases(1) runs_basic)
  have r: "runs (mkRootDir dir d)" for dir d unfolding mkRootDir_def by (intro runs_rules)
  have u: "runs unshareNet" "runs unshareMnt" unfolding unshareNet_def unshareMnt_def by (intro runs_rules; simp)+
  have h: "runs (setupHostRootResolvOverlay dir opts)" for dir
    unfolding setupHostRootResolvOverlay_def Let_def by (intro runs_rules)
  have l: "runs (forK (\<lambda>(from, to). wrapK ''symlink %s: %w'' [AStr from] (kdo (Symlink to (dir @ ''/'' @ from)))) rootLinks)" for dir
    by (intro runs_forK runs_cases runs_onErrK runs_basic)
  have s: "runs (setupSandboxRoot dir opts)" for dir
    unfolding setupSandboxRoot_def by (intro runs_thenK runs_onErrK runs_basic d l runs_forK r b)
  have "runs (\<lambda>s. (Ok (curTid s, curNet s, curMnt s), hold (Anchor (curTid s)) s))" by (simp add: runs_def hold_def)
  then have "runs (anchor dir opts)" for dir
    unfolding anchor_def by (intro runs_thenK runs_onErrK runs_basic runs_cases(1) u h s)
  moreover have "runs (thenK (kdo (MkdirTemp ''mwarp-root-'')) (\<lambda>_. thenK freshId (\<lambda>i.
     let dir = t @ ''/mwarp-root-'' @ formatUint i in thenK (modK (hold (TempDir dir))) (\<lambda>_. retK dir))))" for t
    unfolding Let_def by (intro runs_rules) (simp add: hold_def)
  then have "runs mkdirTemp" unfolding mkdirTemp_def by (simp add: runs_def)
  moreover have "runs (openNs ns)" for ns unfolding openNs_def by (intro runs_rules) simp
  ultimately show ?thesis
    unfolding createNetNS_def by (intro runs_thenK runs_onErrK runs_spawn runs_cases runs_basic)
qed

lemma netnsRun_safe [safe_rules]: "safe m \<Longrightarrow> safe (netnsRun n m)"
  unfolding netnsRun_def setnsMnt_def setnsNet_def by (intro safe_rules)

lemma netnsRun_runs [runs_rules]: "runs m \<Longrightarrow> runs (netnsRun n m)"
  unfolding netnsRun_def setnsMnt_def setnsNet_def by (intro runs_rules) simp_all

section \<open>The parent of a path\<close>

text \<open>\<open>filepath.Dir\<close>, which cleans what is before the last slash.\<close>

definition pathDir :: "string \<Rightarrow> string" where
  "pathDir p = (case last_index_byte CHR ''/'' p of None \<Rightarrow> pathClean '''' | Some i \<Rightarrow> pathClean (take (Suc i) p))"

lemma dirLoop_no_slash: "k \<le> length b \<Longrightarrow> CHR ''/'' \<notin> set b \<Longrightarrow>
    dirLoop (a @ CHR ''/'' # b) (Suc (length a) + k) = (if a = [] then ''/'' else a)"
proof (induction k)
  case (Suc k)
  then have "(a @ CHR ''/'' # b) ! (Suc (length a) + k) = b ! k" by (simp add: nth_append)
  moreover have "b ! k \<noteq> CHR ''/''" using Suc.prems nth_mem [of k b] by (metis Suc_le_lessD)
  ultimately show ?case using Suc by simp
qed (simp add: nth_append)

lemma filepath_Dir_last: "CHR ''/'' \<notin> set b \<Longrightarrow> filepath_Dir (a @ CHR ''/'' # b) = (if a = [] then ''/'' else a)"
  using dirLoop_no_slash [of "length b" b a] by (simp add: filepath_Dir_def)

lemma pathDir_last: "CHR ''/'' \<notin> set b \<Longrightarrow> pathDir (a @ CHR ''/'' # b) = pathClean (a @ ''/'')"
  by (simp add: pathDir_def last_index_byte_append)

lemma split_on_snoc: "split_on c (s @ [c]) = split_on c s @ [[]]"
  by (induction s) (auto split: list.split)

lemma cleanComps_plain: "list_all plainName xs \<Longrightarrow> cleanComps True acc (xs @ [[]]) = rev acc @ xs"
  by (induction xs arbitrary: acc) (auto simp: plainName_def)

lemma join_snoc: "xs \<noteq> [] \<Longrightarrow> join_str sep (xs @ [x]) = join_str sep xs @ sep @ x"
  by (induction sep xs rule: join_str.induct) auto

lemma pathClean_join_slash:
  assumes "list_all plainName cs" "cs \<noteq> []"
  shows "pathClean (''/'' @ join_str ''/'' cs @ ''/'') = ''/'' @ join_str ''/'' cs"
proof -
  have "split_on CHR ''/'' (join_str ''/'' cs) = cs"
    using assms by (intro split_on_join) (auto simp: list_all_iff plainName_def)
  then have "split_on CHR ''/'' (''/'' @ join_str ''/'' cs @ ''/'') = [] # cs @ [[]]"
    using split_on_snoc [of "CHR ''/''" "join_str ''/'' cs"] by simp
  then show ?thesis using cleanComps_plain [OF assms(1), of "[]"] by (simp add: pathClean_def pathRooted_def)
qed

lemma filepath_Dir_clean:
  assumes "pathRooted p"
  shows "filepath_Dir (pathClean p) = pathDir (pathClean p)"
proof -
  obtain cs where cs: "list_all plainName cs" "pathClean p = ''/'' @ join_str ''/'' cs" using pathClean_rooted [OF assms] .
  have root: "filepath_Dir (CHR ''/'' # b) = pathDir (CHR ''/'' # b)" if "CHR ''/'' \<notin> set b" for b
  proof -
    have "pathClean ''/'' = ''/''" by code_simp
    then show ?thesis using filepath_Dir_last [OF that, of "[]"] pathDir_last [OF that, of "[]"] by simp
  qed
  consider "cs = []" | x where "cs = [x]" | ys x where "ys \<noteq> []" "cs = ys @ [x]"
    by (metis append_Nil rev_exhaust)
  then show ?thesis
  proof cases
    case 3
    have x: "CHR ''/'' \<notin> set x" "list_all plainName ys" using cs(1) 3 by (auto simp: plainName_def)
    have "pathClean p = (''/'' @ join_str ''/'' ys) @ CHR ''/'' # x" using cs(2) 3 by (simp add: join_snoc)
    then show ?thesis
      using filepath_Dir_last [OF x(1), of "''/'' @ join_str ''/'' ys"] pathDir_last [OF x(1), of "''/'' @ join_str ''/'' ys"]
        pathClean_join_slash [OF x(2) 3(1)] by simp
  qed (use cs root in \<open>auto simp: plainName_def\<close>)
qed

section \<open>Properties\<close>



definition startKern :: kern where
  "startKern = \<lparr>outcomes = [], fresh = 10, held = {#}, tuns = {}, curNet = 1, curMnt = 2, curTid = 3,
     nsOf = (\<lambda>_. 0), capsOf = (\<lambda>_. rootCaps), did = [], isDirHost = (\<lambda>_. False), capsHost = oldKernel, tmpRoot = ''/tmp''\<rparr>"

definition sampleOpts :: netns_options where
  "sampleOpts = \<lparr>RootMode = NetNSRootSandbox, Nameserver = ''8.8.8.8'', ExtraEtcBinds = [],
     ExtraBinds = [\<lparr>bmSource = ''/opt/warp-svc'', bmTarget = ''/warp/warp-svc'', bmReadOnly = True\<rparr>]\<rparr>"


text \<open>
  \<open>filepath_Dir\<close> computes what \<open>filepath.Dir\<close> computes, on every cleaned absolute path.
\<close>

lemma filepath_Dir_is_Dir:
  assumes "pathRooted p"
  shows "filepath_Dir (pathClean p) = pathDir (pathClean p)"
  using assms by (rule filepath_Dir_clean)

lemma filepath_Dir_is_Dir_witness:
  "filepath_Dir (pathClean ''/etc/../warp//bin/x'') = pathDir (pathClean ''/etc/../warp//bin/x'') \<and>
   pathClean ''/etc/../warp//bin/x'' = ''/warp/bin/x''"
proof
  show "filepath_Dir (pathClean ''/etc/../warp//bin/x'') = pathDir (pathClean ''/etc/../warp//bin/x'')"
    by (rule filepath_Dir_is_Dir) (simp add: pathRooted_def)
  show "pathClean ''/etc/../warp//bin/x'' = ''/warp/bin/x''" by code_simp
qed

text \<open>On a path that is not clean the two differ, although the comment says they are the same.\<close>

lemma filepath_Dir_unclean: "filepath_Dir ''/a//b'' = ''/a/'' \<and> pathDir ''/a//b'' = ''/a''"
  by code_simp

text \<open>
  The mode 01777 the loop gives \<open>/tmp\<close> loses its sticky bit: \<open>os.FileMode\<close> keeps that bit elsewhere,
  and only the permission bits of the number reach \<open>mkdir(2)\<close>.
\<close>

lemma tmp_not_sticky: "mkRootDir dir ''tmp'' = wrapK ''mkdir %s: %w'' [AStr ''tmp''] (kdo (Mkdir (dir @ ''/tmp'') 511))"
  by (simp add: mkRootDir_def syscallMode_def)

end
