(* ===== verification/Encoding.thy ===== *)
theory Encoding
  imports GoNet
begin

text \<open>
  The text encodings of binary data the program uses: \<open>hex.EncodeToString\<close>, \<open>base64.StdEncoding\<close> and
  the NUL-padded interface names of the kernel. The decoder of base64 is that of Go, with the
  offsets of its errors; it inverts the encoder.
\<close>

section \<open>Hexadecimal\<close>

definition hexEncode :: "bytes \<Rightarrow> string" where
  "hexEncode bs = concat (map (\<lambda>b. [hex_digit (unat b div 16), hex_digit (unat b mod 16)]) bs)"

lemma length_hexEncode [simp]: "length (hexEncode bs) = 2 * length bs"
  by (induction bs) (simp_all add: hexEncode_def)

lemma hexEncode_hex: "list_all is_hex (hexEncode bs)"
proof -
  have "is_hex (hex_digit (unat b div 16)) \<and> is_hex (hex_digit (unat b mod 16))" for b :: byte
    using byte_less_256 [of b] by simp
  then show ?thesis by (induction bs) (simp_all add: hexEncode_def)
qed

section \<open>Base64\<close>

definition b64chars :: string where
  "b64chars = ''ABCDEFGHIJKLMNOPQRSTUVWXYZabcdefghijklmnopqrstuvwxyz0123456789+/''"

definition b64chr :: "nat \<Rightarrow> char" where "b64chr v = b64chars ! v"

definition b64val :: "char \<Rightarrow> nat option" where
  "b64val c =
     (let n = of_char c in
      if 65 \<le> n \<and> n \<le> 90 then Some (n - 65)
      else if 97 \<le> n \<and> n \<le> 122 then Some (n - 71)
      else if 48 \<le> n \<and> n \<le> 57 then Some (n + 4)
      else if n = 43 then Some 62
      else if n = 47 then Some 63
      else None)"

definition isNewline :: "char \<Rightarrow> bool" where
  "isNewline c \<longleftrightarrow> c = CHR 0x0A \<or> c = CHR 0x0D"

fun skipNL :: "nat \<Rightarrow> string \<Rightarrow> nat \<times> string" where
  "skipNL i [] = (i, [])"
| "skipNL i (c # cs) = (if isNewline c then skipNL (Suc i) cs else (i, c # cs))"

text \<open>Three bytes from four groups of six bits; missing groups are zero.\<close>

definition threeBytes :: "nat \<Rightarrow> bytes" where
  "threeBytes n = [word_of_nat (n div 65536), word_of_nat (n div 256), word_of_nat n]"

definition sixes :: "nat list \<Rightarrow> bytes" where
  "sixes vs =
     (let v = (\<lambda>i. if i < length vs then vs ! i else 0)
      in threeBytes (v 0 * 262144 + v 1 * 4096 + v 2 * 64 + v 3))"

text \<open>
  \<open>Decode\<close>: \<open>i\<close> is the position in the input and \<open>acc\<close> the values of the quantum that was begun. Line
  breaks are skipped; padding ends the input, with nothing but line breaks behind it.
\<close>

definition b64end :: "nat list \<Rightarrow> nat \<times> string \<Rightarrow> goerr + bytes" where
  "b64end acc rest = (case skipNL (fst rest) (snd rest) of
     (k, []) \<Rightarrow> Inr (take (length acc - 1) (sixes acc))
   | (k, _ # _) \<Rightarrow> Inl (CorruptInput k))"

fun b64decode :: "nat \<Rightarrow> nat list \<Rightarrow> string \<Rightarrow> goerr + bytes" where
  "b64decode i acc [] = (if acc = [] then Inr [] else Inl (CorruptInput (i - length acc)))"
| "b64decode i acc (c # cs) =
     (case b64val c of
        Some v \<Rightarrow>
          if length acc = 3
          then (case b64decode (Suc i) [] cs of Inl e \<Rightarrow> Inl e | Inr r \<Rightarrow> Inr (sixes (acc @ [v]) @ r))
          else b64decode (Suc i) (acc @ [v]) cs
      | None \<Rightarrow>
          if isNewline c then b64decode (Suc i) acc cs
          else if c \<noteq> CHR ''='' \<or> length acc < 2 then Inl (CorruptInput i)
          else if length acc = 2 then
            (case skipNL (Suc i) cs of
               (k, []) \<Rightarrow> Inl (CorruptInput k)
             | (k, d # ds) \<Rightarrow> if d \<noteq> CHR ''='' then Inl (CorruptInput (k - 1)) else b64end acc (Suc k, ds))
          else b64end acc (Suc i, cs))"

definition decodeString :: "string \<Rightarrow> goerr + bytes" where
  "decodeString s = b64decode 0 [] s"

text \<open>The encoder.\<close>

fun b64encode :: "bytes \<Rightarrow> string" where
  "b64encode [] = []"
| "b64encode [a] = [b64chr (unat a div 4), b64chr (unat a mod 4 * 16), CHR ''='', CHR ''='']"
| "b64encode [a, b] = [b64chr (unat a div 4), b64chr (unat a mod 4 * 16 + unat b div 16),
     b64chr (unat b mod 16 * 4), CHR ''='']"
| "b64encode (a # b # c # r) = b64chr (unat a div 4) # b64chr (unat a mod 4 * 16 + unat b div 16) #
     b64chr (unat b mod 16 * 4 + unat c div 64) # b64chr (unat c mod 64) # b64encode r"

lemma b64val_chr: "v < 64 \<Longrightarrow> b64val (b64chr v) = Some v"
proof -
  have "list_all (\<lambda>v. b64val (b64chr v) = Some v) [0..<64]" by code_simp
  moreover assume "v < 64"
  ultimately show ?thesis by (simp add: list_all_iff)
qed

lemma b64val_pad [simp]: "b64val CHR ''='' = None" "\<not> isNewline CHR ''=''"
  by (simp_all add: b64val_def isNewline_def)

lemma word_of_parts:
  fixes a b c :: byte
  defines "n \<equiv> unat a * 65536 + unat b * 256 + unat c"
  shows "threeBytes n = [a, b, c]"
proof -
  have l: "unat b < 256" "unat c < 256" by (rule byte_less_256)+
  have "n div 65536 = unat a" "n div 256 = unat a * 256 + unat b" unfolding n_def using l by linarith+
  moreover have "(word_of_nat (256 * k + m) :: byte) = word_of_nat m" for k m
    by (simp only: word_of_nat_eq_iff take_bit_eq_mod) simp
  from this [of "unat a" "unat b"] this [of "unat a * 256 + unat b" "unat c"]
  have "(word_of_nat (unat a * 256 + unat b) :: byte) = b" "(word_of_nat n :: byte) = c"
    by (simp_all add: n_def algebra_simps)
  ultimately show ?thesis by (simp add: threeBytes_def)
qed

lemma sixes4:
  "sixes [p, q, r, s] = threeBytes (p * 262144 + q * 4096 + r * 64 + s)"
  "sixes [p, q, r] = threeBytes (p * 262144 + q * 4096 + r * 64 + 0)"
  "sixes [p, q] = threeBytes (p * 262144 + q * 4096 + 0 * 64 + 0)"
  by (simp_all add: sixes_def numeral_3_eq_3 numeral_2_eq_2)

lemma sixes_bytes:
  fixes a b c :: byte
  shows "sixes [unat a div 4, unat a mod 4 * 16 + unat b div 16, unat b mod 16 * 4 + unat c div 64, unat c mod 64] = [a, b, c]"
    and "take 2 (sixes [unat a div 4, unat a mod 4 * 16 + unat b div 16, unat b mod 16 * 4]) = [a, b]"
    and "take 1 (sixes [unat a div 4, unat a mod 4 * 16]) = [a]"
proof -
  have n: "(x div 4) * 262144 + (x mod 4 * 16 + y div 16) * 4096 + (y mod 16 * 4 + z div 64) * 64 + z mod 64 = x * 65536 + y * 256 + z"
    for x y z :: nat
  proof -
    have "q * 262144 + (r * 16 + s) * 4096 + (t * 4 + u) * 64 + v = (4 * q + r) * 65536 + (16 * s + t) * 256 + (64 * u + v)"
      for q r s t u v :: nat by simp
    from this [of "x div 4" "x mod 4" "y div 16" "y mod 16" "z div 64" "z mod 64"] show ?thesis
      by (simp only: mult_div_mod_eq)
  qed
  show "sixes [unat a div 4, unat a mod 4 * 16 + unat b div 16, unat b mod 16 * 4 + unat c div 64, unat c mod 64] = [a, b, c]"
    unfolding sixes4 n by (rule word_of_parts)
  show "take 2 (sixes [unat a div 4, unat a mod 4 * 16 + unat b div 16, unat b mod 16 * 4]) = [a, b]"
    using word_of_parts [of a b 0] n [of "unat a" "unat b" 0] unfolding sixes4 by simp
  show "take 1 (sixes [unat a div 4, unat a mod 4 * 16]) = [a]"
    using word_of_parts [of a 0 0] n [of "unat a" 0 0] unfolding sixes4 by simp
qed

lemma six_bounds:
  fixes a b c :: byte
  shows "unat a div 4 < 64" "unat a mod 4 * 16 < 64" "unat a mod 4 * 16 + unat b div 16 < 64"
    "unat b mod 16 * 4 < 64" "unat b mod 16 * 4 + unat c div 64 < 64" "unat c mod 64 < 64"
proof -
  have l: "unat a < 256" "unat b < 256" "unat c < 256" by (rule byte_less_256)+
  then show "unat a div 4 < 64" "unat a mod 4 * 16 < 64" "unat a mod 4 * 16 + unat b div 16 < 64"
    "unat b mod 16 * 4 < 64" "unat b mod 16 * 4 + unat c div 64 < 64" "unat c mod 64 < 64" by linarith+
qed

lemma decode_encode: "b64decode i [] (b64encode bs) = Inr bs"
proof (induction bs arbitrary: i rule: b64encode.induct)
  case (2 a)
  then show ?case using sixes_bytes(3) [of a] by (simp add: b64val_chr six_bounds b64end_def)
next
  case (3 a b)
  then show ?case using sixes_bytes(2) [of a b] by (simp add: b64val_chr six_bounds b64end_def numeral_2_eq_2)
next
  case (4 a b c r)
  then show ?case by (simp add: b64val_chr six_bounds sixes_bytes(1))
qed simp

lemma decodeString_encode [simp]: "decodeString (b64encode bs) = Inr bs"
  by (simp add: decodeString_def decode_encode)

section \<open>Interface names\<close>

text \<open>A name in a field of \<open>IFNAMSIZ\<close> bytes, and the name such a field holds.\<close>

definition padName :: "string \<Rightarrow> bytes" where
  "padName s = take 16 (str_bytes s @ replicate 16 0)"

definition fieldName :: "bytes \<Rightarrow> string" where
  "fieldName b = bytes_str (takeWhile (\<lambda>x. x \<noteq> 0) b)"

text \<open>The names the kernel allows, as far as their bytes go.\<close>

definition ifaceName :: "string \<Rightarrow> bool" where
  "ifaceName s \<longleftrightarrow> s \<noteq> '''' \<and> length s < 16 \<and> CHR 0x00 \<notin> set s"

lemma length_padName [simp]: "length (padName s) = 16"
  by (simp add: padName_def)

lemma str_bytes_0: "0 \<in> set (str_bytes s) \<longleftrightarrow> CHR 0x00 \<in> set s"
proof -
  have "(word_of_nat (of_char c) :: byte) = 0 \<longleftrightarrow> c = CHR 0x00" for c
  proof
    assume "(word_of_nat (of_char c) :: byte) = 0"
    then have "unat (word_of_nat (of_char c) :: byte) = 0" by simp
    then have "(of_char c :: nat) = 0" by (simp add: unat_of_nat)
    then have "c = char_of (0 :: nat)" by (metis char_of_char)
    then show "c = CHR 0x00" by (simp add: char_of_def)
  qed simp
  then show ?thesis by (auto simp: str_bytes_def image_iff)
qed

lemma fieldName_padName: "ifaceName s \<Longrightarrow> fieldName (padName s) = s"
proof -
  assume s: "ifaceName s"
  then have "padName s = str_bytes s @ replicate (16 - length s) 0" by (simp add: padName_def ifaceName_def)
  moreover have "takeWhile (\<lambda>x. x \<noteq> 0) (str_bytes s @ replicate (16 - length s) 0) = str_bytes s"
    using s str_bytes_0 [of s] by (subst takeWhile_append2) (auto simp: ifaceName_def)
  ultimately show ?thesis by (simp add: fieldName_def)
qed

lemma padName_inj: "ifaceName s \<Longrightarrow> ifaceName t \<Longrightarrow> padName s = padName t \<longleftrightarrow> s = t"
  by (metis fieldName_padName)

end
