(* ===== verification/Egress.thy ===== *)
theory Egress
  imports TunDev
begin

text \<open>
  \<open>egress.go\<close>: the second namespace, joined to the first by a veth pair, and the packet filter rules of
  the first one that let its traffic leave through the WARP interface only. The rules are given
  the meaning nftables documents, over any other tables that are present. The lemmas: the guard
  drops what would leave elsewhere and nothing else, what leaves is masqueraded, and a failure
  at any step closes the new namespace.
\<close>

section \<open>Names and addresses\<close>

definition egressVethWarp :: string where "egressVethWarp = ''mw-warp''"
definition egressVethEdge :: string where "egressVethEdge = ''mw-egress''"
definition egressWarpAddr4 :: string where "egressWarpAddr4 = ''169.254.42.1/30''"
definition egressEdgeAddr4 :: string where "egressEdgeAddr4 = ''169.254.42.2/30''"
definition egressEdgeGW4 :: string where "egressEdgeGW4 = ''169.254.42.1''"
definition egressWarpAddr6 :: string where "egressWarpAddr6 = ''fd42:42:42::1/64''"
definition egressEdgeAddr6 :: string where "egressEdgeAddr6 = ''fd42:42:42::2/64''"
definition egressEdgeGW6 :: string where "egressEdgeGW6 = ''fd42:42:42::1''"

definition writeSysctl :: "string \<Rightarrow> string \<Rightarrow> unit act" where
  "writeSysctl path v = kdo (WriteFile path v 420)"

definition addLinkAddr :: "string \<Rightarrow> string \<Rightarrow> unit act" where
  "addLinkAddr link cidr = thenK (kdo (NlParseAddr cidr)) (\<lambda>_. kdo (AddrAdd link cidr))"

section \<open>Packet filter rules\<close>

text \<open>A name that does not fit panics.\<close>

definition ifname :: "string \<Rightarrow> bytes act" where
  "ifname s =
     (if length s \<ge> 16 then panicK ''ifname %q exceeds IFNAMSIZ-1 (%d)'' else retK (padName s))"

definition installForwardGuard :: "string \<Rightarrow> unit act" where
  "installForwardGuard warpIface =
     thenK (wrapK ''nftables.New: %w'' [] (kdo NftNew)) (\<lambda>_.
     thenK (ifname egressVethWarp) (\<lambda>veth.
     thenK (ifname warpIface) (\<lambda>warp.
     wrapK ''nft forward guard flush: %w'' [] (kdo (NftFlush
       [AddTable FamINet ''mwarp_forward_guard'',
        FlushTable FamINet ''mwarp_forward_guard'',
        AddChain FamINet ''mwarp_forward_guard'' ''forward'' KindFilter HookForward,
        AddRule FamINet ''mwarp_forward_guard'' ''forward''
          [NMeta IIFNAME 1, NCmpEq 1 veth, NMeta OIFNAME 1, NCmpNeq 1 warp, NDrop]])))))"

definition installMasqueradeFamily :: "nftfam \<Rightarrow> string \<Rightarrow> string \<Rightarrow> unit act" where
  "installMasqueradeFamily family tableName warpIface =
     thenK (wrapK ''nftables.New: %w'' [] (kdo NftNew)) (\<lambda>_.
     thenK (ifname warpIface) (\<lambda>warp.
     wrapK ''nft masquerade %s flush: %w'' [AStr tableName] (kdo (NftFlush
       [AddTable family tableName,
        FlushTable family tableName,
        AddChain family tableName ''postrouting'' KindNAT HookPostrouting,
        AddRule family tableName ''postrouting'' [NMeta OIFNAME 1, NCmpEq 1 warp, NMasq]]))))"

definition installMasquerade :: "string \<Rightarrow> unit act" where
  "installMasquerade warpIface =
     thenK (installMasqueradeFamily FamIPv4 ''mwarp_egress_v4'' warpIface) (\<lambda>_.
     installMasqueradeFamily FamIPv6 ''mwarp_egress_v6'' warpIface)"

definition installWarpForwardingRules :: "string \<Rightarrow> unit act" where
  "installWarpForwardingRules warpIface =
     thenK (installForwardGuard warpIface) (\<lambda>_. installMasquerade warpIface)"

section \<open>The namespace\<close>

text \<open>The function run in the first namespace. A link is known by its name and namespace.\<close>

definition vethSetup :: "netns \<Rightarrow> unit act" where
  "vethSetup egress =
     thenK (tryK (kdo (LinkByName egressVethWarp))) (\<lambda>old.
     thenK (case old of Inl _ \<Rightarrow> retK () | Inr _ \<Rightarrow> thenK (tryK (kdo (LinkDel egressVethWarp))) (\<lambda>_. retK ())) (\<lambda>_.
     thenK (wrapK ''veth add: %w'' [] (kdo (VethAdd egressVethWarp 1420 egressVethEdge))) (\<lambda>_.
     thenK (wrapK ''locate peer: %w'' [] (kdo (LinkByName egressVethEdge))) (\<lambda>_.
     thenK (wrapK ''move peer to egress: %w'' [] (kdo (LinkSetNsFd egressVethEdge (fdNum (NetFD egress))))) (\<lambda>_.
     thenK (wrapK ''locate warp-side: %w'' [] (kdo (LinkByName egressVethWarp))) (\<lambda>_.
     thenK (wrapK ''addr add warp-side ipv4: %w'' [] (addLinkAddr egressVethWarp egressWarpAddr4)) (\<lambda>_.
     thenK (wrapK ''addr add warp-side ipv6: %w'' [] (addLinkAddr egressVethWarp egressWarpAddr6)) (\<lambda>_.
     thenK (wrapK ''warp-side up: %w'' [] (kdo (LinkSetUp egressVethWarp))) (\<lambda>_.
     thenK (wrapK ''ip_forward: %w'' [] (writeSysctl ''/proc/sys/net/ipv4/ip_forward'' ''1'')) (\<lambda>_.
     thenK (wrapK ''ipv6 forwarding: %w'' [] (writeSysctl ''/proc/sys/net/ipv6/conf/all/forwarding'' ''1'')) (\<lambda>_.
     thenK (tryK (writeSysctl (''/proc/sys/net/ipv6/conf/'' @ egressVethWarp @ ''/forwarding'') ''1'')) (\<lambda>_.
     thenK (tryK (writeSysctl ''/proc/sys/net/ipv4/conf/all/rp_filter'' ''2'')) (\<lambda>_.
     thenK (tryK (writeSysctl (''/proc/sys/net/ipv4/conf/'' @ egressVethWarp @ ''/rp_filter'') ''2'')) (\<lambda>_.
     retK ()))))))))))))))"

definition edgeSetup :: "unit act" where
  "edgeSetup =
     thenK (tryK (kdo (LinkByName ''lo''))) (\<lambda>lo.
     thenK (case lo of Inl _ \<Rightarrow> retK () | Inr _ \<Rightarrow> thenK (tryK (kdo (LinkSetUp ''lo''))) (\<lambda>_. retK ())) (\<lambda>_.
     thenK (wrapK ''egress: locate veth: %w'' [] (kdo (LinkByName egressVethEdge))) (\<lambda>_.
     thenK (wrapK ''egress: addr add ipv4: %w'' [] (addLinkAddr egressVethEdge egressEdgeAddr4)) (\<lambda>_.
     thenK (wrapK ''egress: addr add ipv6: %w'' [] (addLinkAddr egressVethEdge egressEdgeAddr6)) (\<lambda>_.
     thenK (wrapK ''egress: link up: %w'' [] (kdo (LinkSetUp egressVethEdge))) (\<lambda>_.
     thenK (wrapK ''egress: default route ipv4: %w'' [] (kdo (RouteReplace (Route egressVethEdge None (Some egressEdgeGW4))))) (\<lambda>_.
     wrapK ''egress: default route ipv6: %w'' [] (kdo (RouteReplace (Route egressVethEdge None (Some egressEdgeGW6))))))))))) "

definition createEgressNS :: "netns \<Rightarrow> string \<Rightarrow> string \<Rightarrow> netns act" where
  "createEgressNS warpNS resolvNameserver warpIface =
     thenK (wrapK ''create egress netns: %w'' []
       (createNetNS \<lparr>RootMode = NetNSRootHost, Nameserver = resolvNameserver, ExtraEtcBinds = [], ExtraBinds = []\<rparr>)) (\<lambda>egress.
     thenK (onErrK (netnsRun warpNS (vethSetup egress)) (nsClose egress) id) (\<lambda>_.
     thenK (onErrK (netnsRun warpNS (installWarpForwardingRules warpIface)) (nsClose egress)
       (Wrapf ''warp forwarding rules: %w'' [])) (\<lambda>_.
     thenK (onErrK (netnsRun egress edgeSetup) (nsClose egress) id) (\<lambda>_.
     retK egress))))"

section \<open>What it holds\<close>

lemma unch_netnsRun [unch_rules]: "unch held m \<Longrightarrow> unch held (netnsRun n m)"
  unfolding netnsRun_def by (intro unch_rules) simp_all

lemma unch_held_egress [unch_rules]:
  "unch held (ifname n)" "unch held (installWarpForwardingRules w)" "unch held (vethSetup e)" "unch held edgeSetup"
proof -
  show i: "unch held (ifname n)" for n unfolding ifname_def by (intro unch_rules)
  show "unch held (installWarpForwardingRules w)"
    unfolding installWarpForwardingRules_def installForwardGuard_def installMasquerade_def installMasqueradeFamily_def
    by (intro unch_rules i; simp)
  show "unch held (vethSetup e)" "unch held edgeSetup"
    unfolding vethSetup_def edgeSetup_def addLinkAddr_def writeSysctl_def by (intro unch_rules; simp)+
qed

lemma createEgressNS_owns: "owns {#} (createEgressNS w r i) nsUses"
  unfolding createEgressNS_def
proof (intro owns_thenK)
  show "owns {#} (wrapK ''create egress netns: %w'' []
       (createNetNS \<lparr>RootMode = NetNSRootHost, Nameserver = r, ExtraEtcBinds = [], ExtraBinds = []\<rparr>)) nsUses"
    by (rule owns_onErrK [OF namespace.start_owns frees_id(1)]) simp
  fix e
  have quiet: "owns (nsUses e) (onErrK m (nsClose e) g) (\<lambda>_. nsUses e)" if "unch held m" for m :: "unit act" and g
    by (rule owns_onErrK [OF owns_quiet [OF that] nsClose_frees]) simp
  show "owns (nsUses e) (onErrK (netnsRun w (vethSetup e)) (nsClose e) id) (\<lambda>_. nsUses e)"
    "owns (nsUses e) (onErrK (netnsRun w (installWarpForwardingRules i)) (nsClose e) (Wrapf ''warp forwarding rules: %w'' [])) (\<lambda>_. nsUses e)"
    "owns (nsUses e) (onErrK (netnsRun e edgeSetup) (nsClose e) id) (\<lambda>_. nsUses e)"
    by (intro quiet unch_rules)+
  show "owns (nsUses e) (retK e) nsUses" by (rule owns_retK) simp
qed

interpretation egress: managed "createEgressNS w r i" nsClose nsUses for w r i
  by unfold_locales (rule createEgressNS_owns, rule nsClose_frees)

section \<open>What the packet filter does\<close>

text \<open>
  A chain with the table it is in. A batch is applied as the kernel documents it: an added table
  or chain that exists is left as it is (of a chain, if type and hook agree: otherwise the batch
  is refused), flushing a table empties its chains, a rule is added at the end.
\<close>

record chain =
  ctable :: "nftfam \<times> string"
  cname :: string
  ckind :: nftkind
  chook :: nfthook
  crules :: "nftexpr list list"

fun nftCmd :: "chain list \<Rightarrow> nftcmd \<Rightarrow> chain list" where
  "nftCmd R (AddTable f t) = R"
| "nftCmd R (FlushTable f t) = map (\<lambda>c. if ctable c = (f, t) then c\<lparr>crules := []\<rparr> else c) R"
| "nftCmd R (AddChain f t n k h) =
     (if \<exists>c \<in> set R. ctable c = (f, t) \<and> cname c = n then R
      else R @ [\<lparr>ctable = (f, t), cname = n, ckind = k, chook = h, crules = []\<rparr>])"
| "nftCmd R (AddRule f t n es) =
     map (\<lambda>c. if ctable c = (f, t) \<and> cname c = n then c\<lparr>crules := crules c @ [es]\<rparr> else c) R"

text \<open>A packet by its interfaces and its family. The names are loaded in a field of 16 bytes.\<close>

record packet =
  iif :: string
  oif :: string
  v6 :: bool

datatype verdict = VDrop | VAccept | VMasq

fun runRule :: "packet \<Rightarrow> (nat \<Rightarrow> bytes) \<Rightarrow> nftexpr list \<Rightarrow> verdict option" where
  "runRule p r [] = None"
| "runRule p r (NMeta k i # es) = runRule p (r(i := padName (case k of IIFNAME \<Rightarrow> iif p | OIFNAME \<Rightarrow> oif p))) es"
| "runRule p r (NCmpEq i b # es) = (if r i = b then runRule p r es else None)"
| "runRule p r (NCmpNeq i b # es) = (if r i \<noteq> b then runRule p r es else None)"
| "runRule p r (NDrop # es) = Some VDrop"
| "runRule p r (NAccept # es) = Some VAccept"
| "runRule p r (NMasq # es) = Some VMasq"

text \<open>The first rule with a verdict decides; the policy of a base chain is to accept.\<close>

fun runChain :: "packet \<Rightarrow> nftexpr list list \<Rightarrow> verdict" where
  "runChain p [] = VAccept"
| "runChain p (es # rs) = (case runRule p (\<lambda>_. []) es of Some v \<Rightarrow> v | None \<Rightarrow> runChain p rs)"

definition inFam :: "nftfam \<Rightarrow> packet \<Rightarrow> bool" where
  "inFam f p = (case f of FamIPv4 \<Rightarrow> \<not> v6 p | FamIPv6 \<Rightarrow> v6 p | FamINet \<Rightarrow> True)"

definition sees :: "nfthook \<Rightarrow> packet \<Rightarrow> chain \<Rightarrow> bool" where
  "sees h p c \<longleftrightarrow> chook c = h \<and> inFam (fst (ctable c)) p"

text \<open>A packet is forwarded when no chain of the hook drops it: accepting it is not final.\<close>

definition forwarded :: "chain list \<Rightarrow> packet \<Rightarrow> bool" where
  "forwarded R p \<longleftrightarrow> (\<forall>c \<in> set R. sees HookForward p c \<longrightarrow> runChain p (crules c) \<noteq> VDrop)"

definition masqueraded :: "chain list \<Rightarrow> packet \<Rightarrow> bool" where
  "masqueraded R p \<longleftrightarrow> (\<exists>c \<in> set R. ckind c = KindNAT \<and> sees HookPostrouting p c \<and> runChain p (crules c) = VMasq)"

text \<open>The tables of the program, and the rules of everything else.\<close>

definition ownTables :: "(nftfam \<times> string) list" where
  "ownTables = [(FamINet, ''mwarp_forward_guard''), (FamIPv4, ''mwarp_egress_v4''), (FamIPv6, ''mwarp_egress_v6'')]"

definition others :: "chain list \<Rightarrow> chain list" where
  "others R = filter (\<lambda>c. ctable c \<notin> set ownTables) R"

text \<open>What a previous run may have left in these tables: chains of the type and at the hook the program gives them.\<close>

definition compatible :: "chain list \<Rightarrow> bool" where
  "compatible R \<longleftrightarrow> (\<forall>c \<in> set R.
     (ctable c = (FamINet, ''mwarp_forward_guard'') \<and> cname c = ''forward'' \<longrightarrow> ckind c = KindFilter \<and> chook c = HookForward) \<and>
     (ctable c \<in> {(FamIPv4, ''mwarp_egress_v4''), (FamIPv6, ''mwarp_egress_v6'')} \<and> cname c = ''postrouting''
       \<longrightarrow> ckind c = KindNAT \<and> chook c = HookPostrouting))"

definition guardRule :: "string \<Rightarrow> nftexpr list" where
  "guardRule w = [NMeta IIFNAME 1, NCmpEq 1 (padName egressVethWarp), NMeta OIFNAME 1, NCmpNeq 1 (padName w), NDrop]"

definition masqRule :: "string \<Rightarrow> nftexpr list" where
  "masqRule w = [NMeta OIFNAME 1, NCmpEq 1 (padName w), NMasq]"

definition ownBatch :: "nftfam \<Rightarrow> string \<Rightarrow> string \<Rightarrow> nftkind \<Rightarrow> nfthook \<Rightarrow> nftexpr list \<Rightarrow> nftcmd list" where
  "ownBatch f t n k h es = [AddTable f t, FlushTable f t, AddChain f t n k h, AddRule f t n es]"

definition ownBatches :: "string \<Rightarrow> nftcmd list list" where
  "ownBatches w =
    [ownBatch FamINet ''mwarp_forward_guard'' ''forward'' KindFilter HookForward (guardRule w),
     ownBatch FamIPv4 ''mwarp_egress_v4'' ''postrouting'' KindNAT HookPostrouting (masqRule w),
     ownBatch FamIPv6 ''mwarp_egress_v6'' ''postrouting'' KindNAT HookPostrouting (masqRule w)]"

lemma guardRule_drops:
  assumes "ifaceName w" "ifaceName (iif p)" "ifaceName (oif p)"
  shows "runChain p [guardRule w] = (if iif p = egressVethWarp \<and> oif p \<noteq> w then VDrop else VAccept)"
proof -
  have "ifaceName egressVethWarp" by code_simp
  then show ?thesis using assms padName_inj by (simp add: guardRule_def)
qed

lemma masqRule_masquerades:
  assumes "ifaceName w" "ifaceName (oif p)"
  shows "runChain p [masqRule w] = (if oif p = w then VMasq else VAccept)"
  using assms padName_inj by (simp add: masqRule_def)

text \<open>
  A batch replaces the rules of its table: one chain has the new rule, the others of the table
  have none, and the other tables are unchanged.
\<close>

definition given :: "nftfam \<Rightarrow> string \<Rightarrow> string \<Rightarrow> nftexpr list \<Rightarrow> chain \<Rightarrow> chain" where
  "given f t n es c = (if ctable c = (f, t) then c\<lparr>crules := (if cname c = n then [es] else [])\<rparr> else c)"

lemma given_simps [simp]:
  "ctable (given f t n es c) = ctable c" "cname (given f t n es c) = cname c"
  "ckind (given f t n es c) = ckind c" "chook (given f t n es c) = chook c"
  "ctable c \<noteq> (f, t) \<Longrightarrow> given f t n es c = c"
  "ctable c = (f, t) \<Longrightarrow> crules (given f t n es c) = (if cname c = n then [es] else [])"
  by (simp_all add: given_def)

lemma ownBatch_effect:
  "foldl nftCmd R (ownBatch f t n k h es) =
     map (given f t n es) (if \<exists>c \<in> set R. ctable c = (f, t) \<and> cname c = n then R
       else R @ [\<lparr>ctable = (f, t), cname = n, ckind = k, chook = h, crules = []\<rparr>])"
proof -
  have ex: "(\<exists>c \<in> (\<lambda>c. if ctable c = (f, t) then c\<lparr>crules := []\<rparr> else c) ` set R. ctable c = (f, t) \<and> cname c = n)
      = (\<exists>c \<in> set R. ctable c = (f, t) \<and> cname c = n)"
    unfolding bex_simps by (rule bex_cong) auto
  show ?thesis by (auto simp: ownBatch_def ex given_def simp del: if_image_distrib)
qed

text \<open>A table whose only rule is \<open>es\<close>, in a chain of the type and at the hook given.\<close>

definition onlyRule :: "chain list \<Rightarrow> nftfam \<times> string \<Rightarrow> nftkind \<Rightarrow> nfthook \<Rightarrow> nftexpr list \<Rightarrow> bool" where
  "onlyRule R tab k h es \<longleftrightarrow>
     (\<forall>c \<in> set R. ctable c = tab \<longrightarrow> crules c = [] \<or> crules c = [es] \<and> ckind c = k \<and> chook c = h) \<and>
     (\<exists>c \<in> set R. ctable c = tab \<and> crules c = [es] \<and> ckind c = k \<and> chook c = h)"

definition agrees :: "chain list \<Rightarrow> nftfam \<times> string \<Rightarrow> string \<Rightarrow> nftkind \<Rightarrow> nfthook \<Rightarrow> bool" where
  "agrees R tab n k h \<longleftrightarrow> (\<forall>c \<in> set R. ctable c = tab \<and> cname c = n \<longrightarrow> ckind c = k \<and> chook c = h)"

lemma given_onlyRule:
  assumes "agrees xs (f, t) n k h" "\<exists>c \<in> set xs. ctable c = (f, t) \<and> cname c = n"
  shows "onlyRule (map (given f t n es) xs) (f, t) k h es"
  using assms by (auto simp: onlyRule_def agrees_def)

lemma ownBatch_onlyRule:
  assumes "agrees R (f, t) n k h"
  shows "onlyRule (foldl nftCmd R (ownBatch f t n k h es)) (f, t) k h es"
  unfolding ownBatch_effect by (rule given_onlyRule) (use assms in \<open>auto simp: agrees_def\<close>)

lemma onlyRule_forward:
  assumes "onlyRule R tab k h es"
  shows "(\<forall>c \<in> set R. ctable c = tab \<longrightarrow> sees H p c \<longrightarrow> runChain p (crules c) \<noteq> VDrop) \<longleftrightarrow>
     (h = H \<and> inFam (fst tab) p \<longrightarrow> runChain p [es] \<noteq> VDrop)"
  using assms unfolding onlyRule_def sees_def by (metis runChain.simps(1) verdict.distinct(1))

lemma onlyRule_masq:
  assumes "onlyRule R tab k h es"
  shows "(\<exists>c \<in> set R. ctable c = tab \<and> ckind c = KindNAT \<and> sees H p c \<and> runChain p (crules c) = VMasq) \<longleftrightarrow>
     k = KindNAT \<and> h = H \<and> inFam (fst tab) p \<and> runChain p [es] = VMasq"
  using assms unfolding onlyRule_def sees_def by (metis runChain.simps(1) verdict.distinct(5))

lemma ownBatch_other:
  assumes "tab \<noteq> (f, t)"
  shows "onlyRule (foldl nftCmd R (ownBatch f t n k h es)) tab k' h' es' \<longleftrightarrow> onlyRule R tab k' h' es'"
    "agrees (foldl nftCmd R (ownBatch f t n k h es)) tab n' k' h' \<longleftrightarrow> agrees R tab n' k' h'"
  using assms unfolding onlyRule_def agrees_def ownBatch_effect
  by (auto simp: given_def simp del: if_image_distrib split: if_splits)

lemma ownBatch_others:
  assumes "(f, t) \<in> set ownTables"
  shows "others (foldl nftCmd R (ownBatch f t n k h es)) = others R"
proof -
  have "filter (\<lambda>c. ctable c \<notin> set ownTables) (map (given f t n es) xs) = filter (\<lambda>c. ctable c \<notin> set ownTables) xs" for xs
    using assms by (induction xs) (auto simp: given_def)
  then show ?thesis using assms unfolding others_def ownBatch_effect by simp
qed

lemma ownBatches_effect:
  fixes w
  assumes "compatible R"
  defines "R' \<equiv> foldl nftCmd R (concat (ownBatches w))"
  shows "others R' = others R"
    "onlyRule R' (FamINet, ''mwarp_forward_guard'') KindFilter HookForward (guardRule w)"
    "onlyRule R' (FamIPv4, ''mwarp_egress_v4'') KindNAT HookPostrouting (masqRule w)"
    "onlyRule R' (FamIPv6, ''mwarp_egress_v6'') KindNAT HookPostrouting (masqRule w)"
proof -
  have a: "agrees R (FamINet, ''mwarp_forward_guard'') ''forward'' KindFilter HookForward"
    "agrees R (FamIPv4, ''mwarp_egress_v4'') ''postrouting'' KindNAT HookPostrouting"
    "agrees R (FamIPv6, ''mwarp_egress_v6'') ''postrouting'' KindNAT HookPostrouting"
    using assms(1) by (auto simp: agrees_def compatible_def)
  show "others R' = others R"
    unfolding R'_def ownBatches_def by (simp add: ownBatch_others ownTables_def)
  show "onlyRule R' (FamINet, ''mwarp_forward_guard'') KindFilter HookForward (guardRule w)"
    "onlyRule R' (FamIPv4, ''mwarp_egress_v4'') KindNAT HookPostrouting (masqRule w)"
    "onlyRule R' (FamIPv6, ''mwarp_egress_v6'') KindNAT HookPostrouting (masqRule w)"
    unfolding R'_def ownBatches_def using a by (simp_all add: ownBatch_onlyRule ownBatch_other)
qed

lemma ownTables_sees:
  assumes "compatible R" "ifaceName w" "ifaceName (iif p)" "ifaceName (oif p)"
  defines "R' \<equiv> foldl nftCmd R (concat (ownBatches w))"
  shows "forwarded R' p \<longleftrightarrow> forwarded (others R) p \<and> (iif p = egressVethWarp \<longrightarrow> oif p = w)"
    "masqueraded R' p \<longleftrightarrow> masqueraded (others R) p \<or> oif p = w"
proof -
  note e = ownBatches_effect [OF assms(1), of w, folded R'_def]
  note r = guardRule_drops [OF assms(2-4)] masqRule_masquerades [OF assms(2,4)]
  have set: "c \<in> set R' \<longleftrightarrow> c \<in> set (others R) \<or> c \<in> set R' \<and> ctable c \<in> set ownTables" for c
    using arg_cong [OF e(1), of "\<lambda>x. c \<in> set x"] by (auto simp: others_def)
  have own: "(\<forall>c \<in> set R'. ctable c \<in> set ownTables \<longrightarrow> sees HookForward p c \<longrightarrow> runChain p (crules c) \<noteq> VDrop) \<longleftrightarrow>
      (iif p = egressVethWarp \<longrightarrow> oif p = w)"
    using onlyRule_forward [OF e(2), of HookForward p] onlyRule_forward [OF e(3), of HookForward p]
      onlyRule_forward [OF e(4), of HookForward p] r
    by (simp add: ownTables_def inFam_def)
  have "forwarded R' p \<longleftrightarrow> forwarded (others R) p \<and>
      (\<forall>c \<in> set R'. ctable c \<in> set ownTables \<longrightarrow> sees HookForward p c \<longrightarrow> runChain p (crules c) \<noteq> VDrop)"
    unfolding forwarded_def using set by blast
  with own show "forwarded R' p \<longleftrightarrow> forwarded (others R) p \<and> (iif p = egressVethWarp \<longrightarrow> oif p = w)" by simp
  have own: "(\<exists>c \<in> set R'. ctable c \<in> set ownTables \<and> ckind c = KindNAT \<and> sees HookPostrouting p c \<and> runChain p (crules c) = VMasq) \<longleftrightarrow>
      oif p = w"
    using onlyRule_masq [OF e(2), of HookPostrouting p] onlyRule_masq [OF e(3), of HookPostrouting p]
      onlyRule_masq [OF e(4), of HookPostrouting p] r
    by (simp add: ownTables_def inFam_def) (metis verdict.distinct(5))
  have "masqueraded R' p \<longleftrightarrow> masqueraded (others R) p \<or>
      (\<exists>c \<in> set R'. ctable c \<in> set ownTables \<and> ckind c = KindNAT \<and> sees HookPostrouting p c \<and> runChain p (crules c) = VMasq)"
    unfolding masqueraded_def using set by blast
  with own show "masqueraded R' p \<longleftrightarrow> masqueraded (others R) p \<or> oif p = w" by simp
qed

section \<open>The calls that configure the two namespaces\<close>

fun netCfg :: "kcall \<Rightarrow> bool" where
  "netCfg (NftFlush b) = True"
| "netCfg (RouteReplace r) = True"
| "netCfg c = False"

text \<open>The filter batches and the routes of a run, with the network namespace each was made in.\<close>

definition netLog :: "kern \<Rightarrow> (nat \<times> kcall) list" where
  "netLog s = map (\<lambda>(n, m, c). (n, c)) (filter (\<lambda>(n, m, c). netCfg c) (did s))"

definition rulesIn :: "chain list \<Rightarrow> nat \<Rightarrow> kern \<Rightarrow> chain list" where
  "rulesIn R n s = foldl (\<lambda>R (m, c). case c of NftFlush b \<Rightarrow> if m = n then foldl nftCmd R b else R | _ \<Rightarrow> R) R (netLog s)"

definition routesIn :: "nat \<Rightarrow> kern \<Rightarrow> route list" where
  "routesIn n s = concat (map (\<lambda>(m, c). case c of RouteReplace r \<Rightarrow> if m = n then [r] else [] | _ \<Rightarrow> []) (netLog s))"

lemma unch_netLog [unch_rules]: "\<not> netCfg c \<Longrightarrow> unch netLog (kdo c)"
  by (rule unchI) (auto simp: kdo_def logCall_def netLog_def split: list.split option.split)

lemma unch_log_ops [unch_rules]:
  "unch netLog freshId" "unch did m \<Longrightarrow> unch did (onThread m)" "unch netLog m \<Longrightarrow> unch netLog (onThread m)"
  "unch nsOf m \<Longrightarrow> unch nsOf (onThread m)"
  by (auto simp: unch_def freshId_def netLog_def onThread_def split: prod.split) (metis snd_conv)+

lemma netLog_simps [simp]: "netLog (hold r s) = netLog s" "netLog (release r s) = netLog s"
  "netLog (s\<lparr>curNet := n\<rparr>) = netLog s" "netLog (s\<lparr>curMnt := n\<rparr>) = netLog s" "netLog (s\<lparr>nsOf := g\<rparr>) = netLog s"
  "netLog (s\<lparr>fresh := n\<rparr>) = netLog s" "netLog (s\<lparr>curTid := n, capsOf := g'\<rparr>) = netLog s"
  by (simp_all add: netLog_def hold_def release_def)

lemma unch_netLog_spawn [unch_rules]: "unch netLog m \<Longrightarrow> unch netLog (spawn m)" "unch nsOf m \<Longrightarrow> unch nsOf (spawn m)"
  unfolding spawn_def by (intro unch_rules; simp)+

lemma unch_netLog_files [unch_rules]:
  "unch netLog (createCharDevice p m a b)" "unch netLog (setupMinimalDev dir)" "unch netLog (applyBindMount dir x)"
  "unch netLog (mkRootDir dir d)"
proof -
  show c: "unch netLog (createCharDevice p m a b)" for p m a b
    unfolding createCharDevice_def by (intro unch_rules; simp)
  show "unch netLog (setupMinimalDev dir)"
    unfolding setupMinimalDev_def by (intro unch_rules c; simp)
  show "unch netLog (applyBindMount dir x)"
    unfolding applyBindMount_def Let_def by (intro unch_rules; simp)
  show "unch netLog (mkRootDir dir d)"
    unfolding mkRootDir_def by (intro unch_rules; simp)
qed

lemma unch_netLog_anchor [unch_rules]: "unch netLog (anchor dir opts)"
proof -
  have "unch netLog (setupHostRootResolvOverlay dir opts)" "unch netLog (setupSandboxRoot dir opts)"
    unfolding setupHostRootResolvOverlay_def setupSandboxRoot_def Let_def by (intro unch_rules; simp)+
  moreover have "unch netLog unshareNet" "unch netLog unshareMnt"
    unfolding unshareNet_def unshareMnt_def by (intro unch_rules; simp)+
  moreover have "unch netLog (\<lambda>s. (Ok (curTid s, curNet s, curMnt s), hold (Anchor (curTid s)) s))"
    by (simp add: unch_def)
  ultimately show ?thesis unfolding anchor_def by (intro unch_rules; simp)
qed

lemma unch_netLog_createNetNS [unch_rules]: "unch netLog (createNetNS opts)"
proof -
  have "unch netLog mkdirTemp" unfolding mkdirTemp_def Let_def unch_def
    by (rule allI, rule unch_def [THEN iffD1, rule_format], intro unch_rules; simp)
  moreover have "unch netLog (openNs ns)" for ns unfolding openNs_def kopen_def by (intro unch_rules; simp)
  ultimately show ?thesis unfolding createNetNS_def by (intro unch_rules; simp)
qed

definition configures :: "'a act \<Rightarrow> kcall list \<Rightarrow> bool" where
  "configures m L \<longleftrightarrow> emits m (\<lambda>_ cs. filter netCfg cs = L)"

named_theorems cfg_rules \<open>the configuring calls an operation makes\<close>

lemma cfg_thenK [cfg_rules]: "configures m A \<Longrightarrow> (\<And>x. configures (f x) B) \<Longrightarrow> A @ B = L \<Longrightarrow> configures (thenK m f) L"
  unfolding configures_def by (rule emits_mono [OF emits_thenK]) auto

lemma cfg_onErrK [cfg_rules]: "configures m L \<Longrightarrow> configures (onErrK m h g) L"
  unfolding configures_def by (rule emits_onErrK)

lemma cfg_kdo [cfg_rules]: "configures (kdo c) (if netCfg c then [c] else [])"
  unfolding configures_def by (rule emits_mono [OF emits_kdo]) auto

lemma cfg_retK [cfg_rules]: "configures (retK x) []"
  unfolding configures_def by (rule emits_retK) simp

lemma cfg_panicK: "configures (panicK p) L"
  unfolding configures_def by (rule emits_never)

lemma cfg_try_kdo [cfg_rules]: "\<not> netCfg c \<Longrightarrow> configures (tryK (kdo c)) []"
  unfolding configures_def
proof (rule emitsI)
  fix s x s' assume c: "\<not> netCfg c" and "tryK (kdo c) s = (Ok x, s')"
  then have "place s' = place s" "did s' = did s @ at s [c] \<or> did s' = did s @ at s []"
    by (auto simp: tryK_def kdo_def logCall_def at_def place_def split: list.splits option.splits)
  then show "place s' = place s \<and> (\<exists>cs. filter netCfg cs = [] \<and> did s' = did s @ at s cs)"
    using c by (metis filter.simps)
qed

lemma cfg_sum [cfg_rules]:
  "(\<And>e. configures (m e) L) \<Longrightarrow> (\<And>x. configures (k x) L) \<Longrightarrow> configures (case r of Inl e \<Rightarrow> m e | Inr x \<Rightarrow> k x) L"
  by (simp split: sum.split)

lemma kdo_Ok_nsOf: "kdo c s = (Ok x, s') \<Longrightarrow> did s' = did s @ [(curNet s, curMnt s, c)] \<and> nsOf s' = nsOf s"
  by (auto simp: kdo_def logCall_def split: list.splits option.splits)

text \<open>In the namespaces of the descriptors of \<open>n\<close>.\<close>

lemma cfg_netnsRun:
  assumes "configures m L" "netnsRun n m s = (Ok x, s')"
  shows "netLog s' = netLog s @ map (Pair (nsOf s (fdNum (NetFD n)))) L"
proof -
  from assms(2) obtain s1 s2 where 1: "m s1 = (Ok x, s2)" "netLog s' = netLog s2" "netLog s1 = netLog s"
      "curNet s1 = nsOf s (fdNum (NetFD n))"
    unfolding netnsRun_def spawn_def onThread_def
    by (auto simp: freshId_def setnsMnt_def setnsNet_def netLog_def dest!: kdo_Ok_nsOf elim!: thenK_OkE onErrK_OkE split: prod.splits)
  obtain cs where "filter netCfg cs = L" "did s2 = did s1 @ at s1 cs"
    using assms(1) 1(1) unfolding configures_def by (blast elim: emitsD)
  then have "netLog s2 = netLog s1 @ map (Pair (curNet s1)) L"
    by (auto simp: netLog_def at_def filter_map comp_def)
  with 1 show ?thesis by simp
qed

lemma ifname_short: "length w < 16 \<Longrightarrow> ifname w = retK (padName w)"
  by (simp add: ifname_def)

lemma cfg_installWarpForwardingRules:
  assumes "ifaceName w"
  shows "configures (installWarpForwardingRules w) (map NftFlush (ownBatches w))"
proof -
  have w: "ifname w = retK (padName w)" "ifname egressVethWarp = retK (padName egressVethWarp)"
    using assms by (auto simp: ifaceName_def egressVethWarp_def intro!: ifname_short)
  have "configures (installForwardGuard w) [NftFlush (ownBatches w ! 0)]"
    unfolding installForwardGuard_def w thenK_retK
    by (rule cfg_rules)+ (simp add: ownBatches_def ownBatch_def guardRule_def)
  moreover have "configures (installMasquerade w) [NftFlush (ownBatches w ! 1), NftFlush (ownBatches w ! 2)]"
    unfolding installMasquerade_def installMasqueradeFamily_def w thenK_retK
    by (rule cfg_rules | simp add: ownBatches_def ownBatch_def masqRule_def)+
  ultimately show ?thesis unfolding installWarpForwardingRules_def by (rule cfg_thenK) (simp add: ownBatches_def)
qed

definition edgeRoutes :: "route list" where
  "edgeRoutes = [Route egressVethEdge None (Some egressEdgeGW4), Route egressVethEdge None (Some egressEdgeGW6)]"

lemma cfg_edgeSetup: "configures edgeSetup (map RouteReplace edgeRoutes)"
  unfolding edgeSetup_def addLinkAddr_def by (rule cfg_rules | simp add: edgeRoutes_def)+

lemma createEgressNS_fine:
  assumes "length w < 16"
  shows "safe (createEgressNS ns r w)" "runs (createEgressNS ns r w)"
proof -
  have w: "ifname w = retK (padName w)" "ifname egressVethWarp = retK (padName egressVethWarp)"
    using assms by (auto simp: egressVethWarp_def intro!: ifname_short)
  have v: "safe (vethSetup e)" "safe edgeSetup" "runs (vethSetup e)" "runs edgeSetup" for e
    unfolding vethSetup_def edgeSetup_def addLinkAddr_def writeSysctl_def by (intro safe_rules runs_rules)+
  have i: "safe (installWarpForwardingRules w)" "runs (installWarpForwardingRules w)"
    unfolding installWarpForwardingRules_def installForwardGuard_def installMasquerade_def installMasqueradeFamily_def w thenK_retK
    by (intro safe_rules runs_rules)+
  show "safe (createEgressNS ns r w)"
    unfolding createEgressNS_def by (intro safe_thenK safe_onErrK createNetNS_safe netnsRun_safe v i safe_basic)
  show "runs (createEgressNS ns r w)"
    unfolding createEgressNS_def by (intro runs_thenK runs_onErrK createNetNS_runs netnsRun_runs v i runs_basic)
qed

lemma unch_netLog_veth [unch_rules]: "unch netLog (vethSetup e)"
  unfolding vethSetup_def addLinkAddr_def writeSysctl_def by (intro unch_rules; simp)

lemma unch_netLog_netnsRun [unch_rules]: "unch netLog m \<Longrightarrow> unch netLog (netnsRun n m)" "unch nsOf m \<Longrightarrow> unch nsOf (netnsRun n m)"
  unfolding netnsRun_def setnsMnt_def setnsNet_def by (intro unch_rules; simp)+

lemma unch_nsOf_egress [unch_rules]:
  "unch nsOf (installWarpForwardingRules w)" "unch nsOf (vethSetup e)" "unch nsOf edgeSetup"
  unfolding installWarpForwardingRules_def installForwardGuard_def installMasquerade_def installMasqueradeFamily_def ifname_def
    vethSetup_def edgeSetup_def addLinkAddr_def writeSysctl_def
  by (intro unch_rules; simp)+

text \<open>What a successful \<open>CreateEgressNS\<close> has configured, and where.\<close>

lemma createEgressNS_log:
  assumes "createEgressNS ns r w s = (Ok eg, s')" "ifaceName w"
  shows "netLog s' = netLog s @ map (\<lambda>b. (nsOf s' (fdNum (NetFD ns)), NftFlush b)) (ownBatches w) @
     map (\<lambda>r. (nsOf s' (fdNum (NetFD eg)), RouteReplace r)) edgeRoutes"
proof -
  from assms(1) obtain s1 s2 s3 where
    1: "createNetNS \<lparr>RootMode = NetNSRootHost, Nameserver = r, ExtraEtcBinds = [], ExtraBinds = []\<rparr> s = (Ok eg, s1)"
    and 2: "netnsRun ns (vethSetup eg) s1 = (Ok (), s2)"
    and 3: "netnsRun ns (installWarpForwardingRules w) s2 = (Ok (), s3)"
    and 4: "netnsRun eg edgeSetup s3 = (Ok (), s')"
    unfolding createEgressNS_def by (auto elim!: thenK_OkE onErrK_OkE)
  have "netLog s1 = netLog s" by (rule unchD [OF unch_netLog_createNetNS 1])
  moreover have "netLog s2 = netLog s1" by (rule unchD [OF unch_netLog_netnsRun(1) [OF unch_netLog_veth] 2])
  moreover have "nsOf s3 = nsOf s2" by (rule unchD [OF unch_netLog_netnsRun(2) [OF unch_nsOf_egress(1)] 3])
  moreover have "nsOf s' = nsOf s3" by (rule unchD [OF unch_netLog_netnsRun(2) [OF unch_nsOf_egress(3)] 4])
  ultimately show ?thesis
    using cfg_netnsRun [OF cfg_installWarpForwardingRules [OF assms(2)] 3] cfg_netnsRun [OF cfg_edgeSetup 4] by simp
qed

section \<open>Properties\<close>

text \<open>
  Traffic of the egress namespace leaves through the WARP interface or not at all. Once
  \<open>CreateEgressNS\<close> has returned, the warp namespace, whatever rules \<open>R\<close> it had (another program's tables,
  and chains a previous run left in the tables of this one), forwards a packet that came in from
  the egress veth only if it leaves by the WARP interface; any other packet is treated as the
  other tables treat it; a packet that leaves by the WARP interface is masqueraded, for IPv4 and
  IPv6; and the routes made in the egress namespace are the two default routes to the warp side.
\<close>

lemma egress_confined:
  assumes "createEgressNS ns r w s = (Ok eg, s')" "ifaceName w"
    and "n = nsOf s' (fdNum (NetFD ns))" "compatible (rulesIn R n s)" "ifaceName (iif p)" "ifaceName (oif p)"
  shows "(forwarded (rulesIn R n s') p \<longleftrightarrow>
      forwarded (others (rulesIn R n s)) p \<and> (iif p = egressVethWarp \<longrightarrow> oif p = w)) \<and>
    (masqueraded (rulesIn R n s') p \<longleftrightarrow> masqueraded (others (rulesIn R n s)) p \<or> oif p = w) \<and>
    routesIn (nsOf s' (fdNum (NetFD eg))) s' = routesIn (nsOf s' (fdNum (NetFD eg))) s @
      [Route egressVethEdge None (Some egressEdgeGW4), Route egressVethEdge None (Some egressEdgeGW6)]"
proof (intro conjI)
  note l = createEgressNS_log [OF assms(1,2)]
  have "rulesIn R n s' = foldl nftCmd (rulesIn R n s) (concat (ownBatches w))"
    unfolding rulesIn_def l by (simp add: assms(3) ownBatches_def edgeRoutes_def)
  then show "forwarded (rulesIn R n s') p \<longleftrightarrow>
      forwarded (others (rulesIn R n s)) p \<and> (iif p = egressVethWarp \<longrightarrow> oif p = w)"
    "masqueraded (rulesIn R n s') p \<longleftrightarrow> masqueraded (others (rulesIn R n s)) p \<or> oif p = w"
    using ownTables_sees [OF assms(4,2,5,6)] by simp_all
  show "routesIn (nsOf s' (fdNum (NetFD eg))) s' = routesIn (nsOf s' (fdNum (NetFD eg))) s @
      [Route egressVethEdge None (Some egressEdgeGW4), Route egressVethEdge None (Some egressEdgeGW6)]"
    unfolding routesIn_def l by (simp add: ownBatches_def edgeRoutes_def)
qed

lemma startKern_outcomes: "outcomes startKern = []"
  by (simp add: startKern_def)

definition sampleNS :: netns where
  "sampleNS = \<lparr>NetFD = Some 7, MntFD = Some 8, stagingDir = '''', stopped = False, anchorTid = 3, anchorNet = 4, anchorMnt = 5\<rparr>"

lemma egress_confined_witness:
  "\<exists>eg s'. createEgressNS sampleNS ''9.9.9.9'' ''CloudflareWARP'' startKern = (Ok eg, s') \<and>
     \<not> forwarded (rulesIn [] (nsOf s' 7) s') \<lparr>iif = ''mw-warp'', oif = ''eth0'', v6 = False\<rparr> \<and>
     forwarded (rulesIn [] (nsOf s' 7) s') \<lparr>iif = ''mw-warp'', oif = ''CloudflareWARP'', v6 = False\<rparr> \<and>
     masqueraded (rulesIn [] (nsOf s' 7) s') \<lparr>iif = ''mw-warp'', oif = ''CloudflareWARP'', v6 = True\<rparr>"
proof -
  have "runs (createEgressNS sampleNS ''9.9.9.9'' ''CloudflareWARP'')" by (rule createEgressNS_fine(2)) simp
  then obtain eg s' where ok: "createEgressNS sampleNS ''9.9.9.9'' ''CloudflareWARP'' startKern = (Ok eg, s')"
    by (rule runsE) (rule startKern_outcomes)
  have n: "ifaceName ''CloudflareWARP''" "ifaceName ''mw-warp''" "ifaceName ''eth0''" by code_simp+
  have e: "rulesIn [] k startKern = []" for k by (simp add: rulesIn_def netLog_def startKern_def)
  note c = egress_confined [OF ok n(1) refl, of "[]", unfolded e]
  show ?thesis
    using ok n c [of "\<lparr>iif = ''mw-warp'', oif = ''eth0'', v6 = False\<rparr>"] c [of "\<lparr>iif = ''mw-warp'', oif = ''CloudflareWARP'', v6 = False\<rparr>"]
      c [of "\<lparr>iif = ''mw-warp'', oif = ''CloudflareWARP'', v6 = True\<rparr>"]
    by (simp add: compatible_def others_def forwarded_def masqueraded_def sampleNS_def fdNum_def egressVethWarp_def)
qed

text \<open>
  When the egress namespace cannot be set up, whatever step fails, nothing of it is left: the
  namespace it had created is closed again. On success only the namespace is held.
\<close>

lemma createEgressNS_no_leak:
  "case createEgressNS ns r w s of
     (Returned (Inr eg), s') \<Rightarrow> held s' = nsUses eg + held s \<and> held (nsClose eg s') = held s
   | (Returned (Inl e), s') \<Rightarrow> held s' = held s
   | (Crashed p, s') \<Rightarrow> length w \<ge> 16"
proof (cases "createEgressNS ns r w" s rule: act_cases)
  case (Ok eg s')
  then show ?thesis using owns_Ok [OF egress.start_owns Ok] egress.start_stop [OF Ok] by simp
next
  case (Err e s')
  then show ?thesis using owns_Err [OF egress.start_owns Err] by simp
next
  case (Crashed p s')
  then have "\<not> safe (createEgressNS ns r w)" by (auto simp: safe_def)
  then have "\<not> length w < 16" using createEgressNS_fine(1) by blast
  then show ?thesis using Crashed by simp
qed

end
