(* ===== verification/TcpBind.thy ===== *)
theory TcpBind
  imports Bind Socks5
begin

text \<open>
  \<open>tcpbind.go\<close>: WireGuard datagrams over one TCP connection, each behind a 16-bit length.
  The methods of \<open>TCPBind\<close> are programs of atomic actions (a critical section of \<open>b.mu\<close>, a
  dial, a read, a write), so that each is run alone and against the others. The lemmas give
  the framing (what is sent is what is received, in order, whatever the payloads), the
  reconnection, the state of the bind over its life, and what any interleaving of senders,
  receivers and \<open>Close\<close> preserves; and the two schedules that break what the comments of the
  source promise.
\<close>

section \<open>State\<close>

text \<open>
  The mutable fields of \<open>TCPBind\<close>, and the network its connections live in. The fields that
  never change, \<open>address\<close> and \<open>dialer\<close>, are arguments.
\<close>

record tcp_bind =
  bopen :: bool
  bconn :: "nat option"
  connGen :: uint64
  writeMu :: bool \<comment> \<open>held\<close>
  tnet :: net

definition newTCPBind :: "net \<Rightarrow> tcp_bind" where
  "newTCPBind n = \<lparr>bopen = False, bconn = None, connGen = 0, writeMu = False, tnet = n\<rparr>"

definition onNet :: "(net, 'a) sem \<Rightarrow> (tcp_bind, 'a) sem" where
  "onNet m = (\<lambda>b. case m (tnet b) of (r, n) \<Rightarrow> (r, b\<lparr>tnet := n\<rparr>))"

section \<open>Dialing\<close>

text \<open>The first critical section of \<open>dial\<close>; the result says whether to go on.\<close>

definition dialBegin :: "uint64 \<Rightarrow> (tcp_bind, bool) sem" where
  "dialBegin staleGen = (\<lambda>b.
     if \<not> bopen b then (Inl ErrClosed, b)
     else if staleGen \<noteq> 0 \<and> staleGen \<noteq> connGen b then (Inr False, b)
     else case bconn b of
         None \<Rightarrow> (Inr True, b)
       | Some c \<Rightarrow> (Inr True, b\<lparr>tnet := c_close c (tnet b), bconn := None\<rparr>))"

text \<open>The second one.\<close>

definition dialPublish :: "nat \<Rightarrow> (tcp_bind, unit) sem" where
  "dialPublish c = (\<lambda>b.
     if \<not> bopen b then (Inl ErrClosed, b\<lparr>tnet := c_close c (tnet b)\<rparr>)
     else (Inr (), b\<lparr>bconn := Some c, connGen := connGen b + 1\<rparr>))"

type_synonym dialfn = "string \<Rightarrow> string \<Rightarrow> (net, nat) sem"

definition tcpDial :: "dialfn \<Rightarrow> string \<Rightarrow> uint64 \<Rightarrow> (tcp_bind, unit) prog" where
  "tcpDial dial address staleGen =
     thenP (atom (dialBegin staleGen)) (\<lambda>go.
     if \<not> go then Done (Inr ())
     else thenP (atom (onNet (dial ''tcp'' address))) (\<lambda>c. atom (dialPublish c)))"

section \<open>Open and Close\<close>

definition openBegin :: "(tcp_bind, uint64) sem" where
  "openBegin = (\<lambda>b. if bopen b then (Inl ErrBindAlreadyOpen, b) else (Inr (connGen b), b\<lparr>bopen := True\<rparr>))"

definition tcpOpen :: "dialfn \<Rightarrow> string \<Rightarrow> (tcp_bind, unit) prog" where
  "tcpOpen dial address =
     thenP (atom openBegin) (\<lambda>gen.
     bindP (tcpDial dial address gen) (\<lambda>r.
     case r of
       Inl e \<Rightarrow> thenP (atom (modS (\<lambda>b. b\<lparr>bopen := False\<rparr>))) (\<lambda>_.
                Done (Inl (Wrapf ''tcpbind dial %s: %w'' [AStr address] e)))
     | Inr _ \<Rightarrow> Done (Inr ())))"

definition closeBind :: "tcp_bind \<Rightarrow> tcp_bind" where
  "closeBind b =
     (let b = b\<lparr>bopen := False\<rparr>
      in case bconn b of
           None \<Rightarrow> b
         | Some c \<Rightarrow> b\<lparr>tnet := c_close c (tnet b), bconn := None\<rparr>)"

definition tcpClose :: "(tcp_bind, unit) prog" where
  "tcpClose = atom (modS closeBind)"

section \<open>Sending\<close>

definition currentConn :: "(tcp_bind, nat option \<times> uint64 \<times> bool) prog" where
  "currentConn = atom (\<lambda>b. (Inr (bconn b, connGen b, bopen b), b))"

definition isOpen :: "(tcp_bind, bool) prog" where
  "isOpen = atom (\<lambda>b. (Inr (bopen b), b))"

text \<open>\<open>buf\<close>: the length prefix (\<open>uint16(len(p))\<close>, modulo \<open>2^16\<close>) and the payload.\<close>

definition frame :: "bytes \<Rightarrow> bytes" where
  "frame p = be16_put (word_of_nat (length p)) @ p"

text \<open>The loop over the attempts; \<open>time.Sleep\<close> is a step in which others may run.\<close>

primrec sendLoop :: "dialfn \<Rightarrow> string \<Rightarrow> nat \<Rightarrow> bytes \<Rightarrow> (tcp_bind, unit) prog" where
  "sendLoop dial address 0 buf = Done (Inl (Errorf ''tcpbind: send failed after retries'' []))"
| "sendLoop dial address (Suc k) buf =
     thenP currentConn (\<lambda>(c, gen, op).
     if \<not> op then Done (Inl ErrClosed)
     else case c of
       None \<Rightarrow>
         bindP (tcpDial dial address 0) (\<lambda>r.
         case r of
           Inl e \<Rightarrow> if errors_is e ErrClosed then Done (Inl e)
                    else thenP (atom (modS id)) (\<lambda>_. sendLoop dial address k buf)
         | Inr _ \<Rightarrow> sendLoop dial address k buf)
     | Some c \<Rightarrow>
         bindP (atom (onNet (c_write c buf))) (\<lambda>r.
         case r of
           Inl e \<Rightarrow> bindP (tcpDial dial address gen) (\<lambda>_. sendLoop dial address k buf)
         | Inr _ \<Rightarrow> Done (Inr ())))"

definition sendOne :: "dialfn \<Rightarrow> string \<Rightarrow> bytes \<Rightarrow> (tcp_bind, unit) prog" where
  "sendOne dial address p =
     thenP (await (\<lambda>b. \<not> writeMu b) (\<lambda>b. b\<lparr>writeMu := True\<rparr>)) (\<lambda>_.
     deferP (sendLoop dial address 3 (frame p)) (\<lambda>b. b\<lparr>writeMu := False\<rparr>))"

fun tcpSend :: "dialfn \<Rightarrow> string \<Rightarrow> bytes list \<Rightarrow> (tcp_bind, unit) prog" where
  "tcpSend dial address [] = Done (Inr ())"
| "tcpSend dial address (p # bufs) =
     (if length p > 65535
      then Done (Inl (Errorf ''tcpbind: packet too large (%d > 65535)'' [AInt (int (length p))]))
      else thenP (sendOne dial address p) (\<lambda>_. tcpSend dial address bufs))"

section \<open>Receiving\<close>

text \<open>
  The error path both reads share: \<open>net.ErrClosed\<close> once the bind is closed, else a reconnect
  (whose result is dropped) and the error.
\<close>

definition readFailed :: "dialfn \<Rightarrow> string \<Rightarrow> uint64 \<Rightarrow> goerr \<Rightarrow> (tcp_bind, 'a) prog" where
  "readFailed dial address gen e =
     thenP isOpen (\<lambda>op.
     if \<not> op then Done (Inl ErrClosed)
     else bindP (tcpDial dial address gen) (\<lambda>_. Done (Inl e)))"

text \<open>
  The rest of \<open>receive\<close> once a connection was read. It returns \<open>sizes[0]\<close> and the bytes of
  \<open>packets[0][:n]\<close>; \<open>buflen\<close> is \<open>len(packets[0])\<close>. A nil connection here is a method call
  on a nil interface.
\<close>

definition receiveOn ::
    "dialfn \<Rightarrow> string \<Rightarrow> nat \<Rightarrow> nat option \<Rightarrow> uint64 \<Rightarrow> (tcp_bind, nat \<times> bytes) prog" where
  "receiveOn dial address buflen mc gen =
     (case mc of
        None \<Rightarrow> Crash ''invalid memory address or nil pointer dereference''
      | Some c \<Rightarrow>
          bindP (atom (onNet (c_readFull c 2))) (\<lambda>r.
          case r of
            Inl e \<Rightarrow> readFailed dial address gen e
          | Inr hdr \<Rightarrow>
              let n = unat (be16_get hdr) in
              if n = 0 then Done (Inr (0, []))
              else if n > buflen then
                bindP (atom (onNet (c_readFull c n))) (\<lambda>_.
                Done (Inl (Errorf ''tcpbind: oversized frame %d > buffer %d'' [AInt (int n), AInt (int buflen)])))
              else
                bindP (atom (onNet (c_readFull c n))) (\<lambda>r.
                case r of
                  Inl e \<Rightarrow> readFailed dial address gen e
                | Inr p \<Rightarrow> Done (Inr (n, p)))))"

definition receive :: "dialfn \<Rightarrow> string \<Rightarrow> nat \<Rightarrow> (tcp_bind, nat \<times> bytes) prog" where
  "receive dial address buflen =
     thenP currentConn (\<lambda>(c, gen, op).
     if \<not> op then Done (Inl ErrClosed)
     else if c = None then
       thenP (tcpDial dial address 0) (\<lambda>_.
       thenP currentConn (\<lambda>(c, gen, op).
       if \<not> op then Done (Inl ErrClosed)
       else receiveOn dial address buflen c gen))
     else receiveOn dial address buflen c gen)"

section \<open>The endpoint\<close>

datatype tcpEndpoint = TcpEndpoint

definition tcpSetMark :: "uint32 \<Rightarrow> goerr option" where "tcpSetMark m = None"
definition tcpBatchSize :: nat where "tcpBatchSize = 1"

definition tcpParseEndpoint :: "string \<Rightarrow> goerr + tcpEndpoint" where
  "tcpParseEndpoint s = Inr TcpEndpoint"

definition tcpSrcToString :: "tcpEndpoint \<Rightarrow> string" where "tcpSrcToString e = ''''"
definition tcpDstToString :: "tcpEndpoint \<Rightarrow> string" where "tcpDstToString e = ''udp-over-tcp''"
definition tcpDstToBytes :: "tcpEndpoint \<Rightarrow> bytes" where "tcpDstToBytes e = [0, 0, 0, 0, 0, 0]"
definition tcpDstIP :: "tcpEndpoint \<Rightarrow> addr" where "tcpDstIP e = NoAddr"
definition tcpSrcIP :: "tcpEndpoint \<Rightarrow> addr" where "tcpSrcIP e = NoAddr"

text \<open>\<open>resolveTCPEndpoint\<close>; \<open>net.LookupHost\<close>, the system's resolver, is an argument.\<close>

definition resolveTCPEndpoint :: "(string \<Rightarrow> goerr + string list) \<Rightarrow> string \<Rightarrow> goerr + string" where
  "resolveTCPEndpoint lookupHost s =
     (case splitHostPort s of
        Inl e \<Rightarrow> Inl e
      | Inr (host, port) \<Rightarrow>
          (case parseUint16 port of
             Inl e \<Rightarrow> Inl (Wrapf ''invalid port %q: %w'' [AStr port] e)
           | Inr _ \<Rightarrow>
               if parseIP host \<noteq> None then Inr s
               else (case lookupHost host of
                   Inl e \<Rightarrow> Inl (Wrapf ''resolve %s: %w'' [AStr host] e)
                 | Inr [] \<Rightarrow> Inl (Errorf ''no addresses for %s'' [AStr host])
                 | Inr (a # as) \<Rightarrow> Inr (joinHostPort a port))))"

section \<open>The bind alone: resources and life cycle\<close>

text \<open>
  \<open>tcpInv n0 b\<close>, for a bind made when the network was \<open>n0\<close>: the connections that existed then
  are untouched, the current connection is one the bind dialed and is open, every other
  connection it dialed is closed, and a bind that is not open has none.
\<close>

definition tcpInv :: "net \<Rightarrow> tcp_bind \<Rightarrow> bool" where
  "tcpInv n0 b \<longleftrightarrow> fresh_only n0 (tnet b) \<and>
     (case bconn b of
        None \<Rightarrow> new_closed n0 (tnet b) {}
      | Some c \<Rightarrow> bopen b \<and> length (heap n0) \<le> c \<and> c < length (heap (tnet b)) \<and>
          \<not> isClosed (heap (tnet b) ! c) \<and> new_closed n0 (tnet b) {c})"

lemma onNet_eq: "m (tnet b) = (r, n) \<Longrightarrow> onNet m b = (r, b\<lparr>tnet := n\<rparr>)"
  by (simp add: onNet_def)

lemma tcpInv_io:
  assumes "tcpInv n0 b" "bconn b = Some c" "only c (tnet b) n" "same_open c (tnet b) n"
  shows "tcpInv n0 (b\<lparr>tnet := n\<rparr>)"
  using assms fresh_only_only [of n0 "tnet b" c n] new_closed_only [of n0 "tnet b" c n]
  by (auto simp: tcpInv_def same_open_def)

lemma tcpInv_simps [simp]:
  "tcpInv n0 (b\<lparr>writeMu := w\<rparr>) = tcpInv n0 b"
  "tcpInv n0 (b\<lparr>connGen := g\<rparr>) = tcpInv n0 b"
  "bconn b = None \<Longrightarrow> tcpInv n0 (b\<lparr>bopen := p\<rparr>) = tcpInv n0 b"
  unfolding tcpInv_def by (simp_all split: option.split)

lemma tcpInv_drop:
  assumes "tcpInv n0 b" "bconn b = Some c"
  shows "tcpInv n0 (b\<lparr>tnet := c_close c (tnet b), bconn := None\<rparr>)"
  using assms new_closed_close [of n0 "tnet b" c] fresh_only_only [OF _ keeps_only_close, of n0 "tnet b" c]
  by (simp add: tcpInv_def)

lemma tcpInv_closeBind: "tcpInv n0 b \<Longrightarrow> tcpInv n0 (closeBind b)"
proof (cases "bconn b")
  case None
  assume "tcpInv n0 b"
  with None show ?thesis by (simp add: closeBind_def Let_def)
next
  case (Some c)
  assume "tcpInv n0 b"
  from tcpInv_drop [OF this Some] have "tcpInv n0 (b\<lparr>tnet := c_close c (tnet b), bconn := None\<rparr>)" .
  then have "tcpInv n0 (b\<lparr>bopen := False, tnet := c_close c (tnet b), bconn := None\<rparr>)"
    by (simp add: tcpInv_def)
  with Some show ?thesis by (simp add: closeBind_def Let_def)
qed

definition hungUp :: "tcp_bind \<Rightarrow> tcp_bind" where
  "hungUp b = (case bconn b of None \<Rightarrow> b | Some c \<Rightarrow> b\<lparr>tnet := c_close c (tnet b), bconn := None\<rparr>)"

lemma hungUp_simps [simp]:
  "bopen (hungUp b) = bopen b" "connGen (hungUp b) = connGen b" "bconn (hungUp b) = None"
  "writeMu (hungUp b) = writeMu b"
  by (simp_all add: hungUp_def split: option.split)

lemma tcpInv_hungUp: "tcpInv n0 b \<Longrightarrow> tcpInv n0 (hungUp b)"
  by (simp add: hungUp_def tcpInv_drop split: option.split)

lemma dialBegin_go:
  "bopen b \<Longrightarrow> g = 0 \<or> g = connGen b \<Longrightarrow> dialBegin g b = (Inr True, hungUp b)"
  by (auto simp: dialBegin_def hungUp_def split: option.split)

text \<open>What every method but \<open>Open\<close> and \<open>Close\<close> keeps when it runs alone.\<close>

definition tcpKeep :: "net \<Rightarrow> bool \<Rightarrow> bool \<Rightarrow> tcp_bind \<Rightarrow> bool" where
  "tcpKeep n0 u w b \<longleftrightarrow> tcpInv n0 b \<and> bopen b = u \<and> writeMu b = w"

lemma spec_currentConn:
  "spec (tcpKeep n0 u w) currentConn
     (\<lambda>r b. tcpKeep n0 u w b \<and> r = Ok (bconn b, connGen b, bopen b))"
  unfolding currentConn_def by (rule spec_atom) simp

lemma pres_write:
  "spec (\<lambda>b. tcpKeep n0 u w b \<and> bconn b = Some c) (atom (onNet (c_write c buf))) (\<lambda>_. tcpKeep n0 u w)"
proof (rule spec_atom)
  fix b
  assume b: "tcpKeep n0 u w b \<and> bconn b = Some c"
  obtain r n where m: "c_write c buf (tnet b) = (r, n)" by fastforce
  have "tcpInv n0 (b\<lparr>tnet := n\<rparr>)"
    using b m by (intro tcpInv_io [of n0 b c]) (auto simp: tcpKeep_def intro: keepsD [OF keeps_only_write] keepsD [OF same_open_write])
  with b m show "case onNet (c_write c buf) b of (r, s') \<Rightarrow> tcpKeep n0 u w s'"
    by (simp add: onNet_def tcpKeep_def)
qed

lemma pres_read:
  "spec (\<lambda>b. tcpKeep n0 u w b \<and> bconn b = Some c) (atom (onNet (c_readFull c k)))
     (\<lambda>_ b. tcpKeep n0 u w b \<and> bconn b = Some c)"
proof (rule spec_atom)
  fix b
  assume b: "tcpKeep n0 u w b \<and> bconn b = Some c"
  obtain r n where m: "c_readFull c k (tnet b) = (r, n)" by fastforce
  have "tcpInv n0 (b\<lparr>tnet := n\<rparr>)"
    using b m by (intro tcpInv_io [of n0 b c]) (auto simp: tcpKeep_def intro: keepsD [OF keeps_only_readFull] keepsD [OF same_open_readFull])
  with b m show "case onNet (c_readFull c k) b of (r, s') \<Rightarrow> tcpKeep n0 u w s' \<and> bconn s' = Some c"
    by (simp add: onNet_def tcpKeep_def)
qed

context dialer
begin

text \<open>
  \<open>dial\<close> run alone: it fails at once on a closed bind, does nothing when the generation has
  moved on, and else replaces the connection.
\<close>

lemma tcpDial_closed: "\<not> bopen b \<Longrightarrow> runP (tcpDial dial address g) b = (Err ErrClosed, b)"
  by (simp add: tcpDial_def dialBegin_def runP_thenP)

lemma tcpDial_stale:
  "bopen b \<Longrightarrow> g \<noteq> 0 \<Longrightarrow> g \<noteq> connGen b \<Longrightarrow> runP (tcpDial dial address g) b = (Ok (), b)"
  by (simp add: tcpDial_def dialBegin_def runP_thenP)

lemma tcpDial_go:
  assumes "bopen b" "g = 0 \<or> g = connGen b"
  shows "runP (tcpDial dial address g) b =
     (case dial ''tcp'' address (tnet (hungUp b)) of
        (Inl e, n) \<Rightarrow> (Err e, (hungUp b)\<lparr>tnet := n\<rparr>)
      | (Inr c, n) \<Rightarrow> (Ok (), (hungUp b)\<lparr>tnet := n, bconn := Some c, connGen := connGen b + 1\<rparr>))"
  using dialBegin_go [OF assms] assms(1)
  by (simp add: tcpDial_def runP_thenP onNet_def dialPublish_def split: prod.split sum.split)

lemma tcpDial_spec:
  assumes "tcpInv n0 b" "runP (tcpDial dial address g) b = (r, b')"
  shows "tcpInv n0 b' \<and> bopen b' = bopen b \<and> writeMu b' = writeMu b \<and>
    (r = Ok () \<and> bconn b = None \<and> (g = 0 \<or> g = connGen b) \<longrightarrow> bconn b' \<noteq> None) \<and>
    (\<exists>x. r = Returned x)"
proof (cases "bopen b \<and> (g = 0 \<or> g = connGen b)")
  case True
  let ?h = "hungUp b"
  have inv: "tcpInv n0 ?h" by (rule tcpInv_hungUp [OF assms(1)])
  then have h: "fresh_only n0 (tnet ?h)" "new_closed n0 (tnet ?h) {}" by (simp_all add: tcpInv_def)
  obtain x n where d: "dial ''tcp'' address (tnet ?h) = (x, n)" by fastforce
  note f = dial_frame [OF d]
  have f0: "fresh_only n0 n" using h(1) f by (rule fresh_only_trans)
  show ?thesis
  proof (cases x)
    case (Inl e)
    with d f0 new_closed_trans [OF h(2) f dial_err_closed] assms(2) tcpDial_go [of b g address] True
    show ?thesis by (auto simp: tcpInv_def)
  next
    case (Inr c)
    with d have l: "length (heap (tnet ?h)) \<le> c" "live n c" "new_closed (tnet ?h) n {c}"
      using dial_live dial_closed by auto
    have "new_closed n0 n {c}" by (rule new_closed_trans [OF h(2) f l(3)])
    moreover have "length (heap n0) \<le> c" using h(1) l(1) by (simp add: fresh_only_def)
    ultimately show ?thesis
      using Inr d l(2) f0 assms(2) tcpDial_go [of b g address] True
      by (auto simp: tcpInv_def live_def)
  qed
next
  case False
  then show ?thesis using assms tcpDial_closed [of b address g] tcpDial_stale [of b g address] by auto
qed

lemma pres_tcpDial: "pres (tcpKeep n0 u w) (tcpDial dial address g)"
  by (rule specI) (use tcpDial_spec in \<open>auto simp: tcpKeep_def\<close>)

lemma tcpDial_returns: "\<exists>x b'. runP (tcpDial dial address g) b = (Returned x, b')"
proof (cases "bopen b \<and> (g = 0 \<or> g = connGen b)")
  case True
  then show ?thesis by (simp add: tcpDial_go split: prod.split sum.split)
next
  case False
  then show ?thesis by (cases "bopen b") (auto simp: tcpDial_closed tcpDial_stale)
qed

lemma sendLoop_returns: "\<exists>x b'. runP (sendLoop dial address k buf) b = (Returned x, b')"
proof (induction k arbitrary: b)
  case (Suc k)
  obtain x b1 where d0: "runP (tcpDial dial address 0) b = (Returned x, b1)" using tcpDial_returns by blast
  show ?case
  proof (cases "bconn b")
    case None
    then show ?thesis using Suc.IH d0 
      by (cases x) (auto simp: currentConn_def runP_thenP runP_bindP)
  next
    case (Some c)
    obtain y n where w: "c_write c buf (tnet b) = (y, n)" by fastforce
    obtain z b2 where "runP (tcpDial dial address (connGen b)) (b\<lparr>tnet := n\<rparr>) = (Returned z, b2)"
      using tcpDial_returns by blast
    with Some w Suc.IH show ?thesis
      by (cases y) (auto simp: currentConn_def runP_thenP runP_bindP onNet_def)
  qed
qed simp

lemma pres_sendLoop: "pres (tcpKeep n0 u w) (sendLoop dial address k buf)"
proof (induction k)
  case 0
  show ?case by (simp add: pres_Done)
next
  case (Suc k)
  have none: "pres (tcpKeep n0 u w) (bindP (tcpDial dial address 0) (\<lambda>r.
      case r of Inl e \<Rightarrow> if errors_is e ErrClosed then Done (Inl e)
                    else thenP (atom (modS id)) (\<lambda>_. sendLoop dial address k buf)
         | Inr _ \<Rightarrow> sendLoop dial address k buf))"
    using Suc.IH by (auto intro!: pres_bindP pres_tcpDial pres_thenP pres_atom pres_Done split: sum.split)
  have some: "spec (\<lambda>b. tcpKeep n0 u w b \<and> bconn b = Some c)
     (bindP (atom (onNet (c_write c buf))) (\<lambda>r.
         case r of Inl e \<Rightarrow> bindP (tcpDial dial address gen) (\<lambda>_. sendLoop dial address k buf)
         | Inr _ \<Rightarrow> Done (Inr ()))) (\<lambda>_. tcpKeep n0 u w)" for c gen
    using Suc.IH by (auto intro!: spec_bindP [OF pres_write] pres_bindP pres_tcpDial pres_Done split: sum.split)
  show ?case
    unfolding sendLoop.simps
  proof (rule spec_thenP [OF spec_currentConn], goal_cases)
    case (1 x)
    obtain c gen op where "x = (c, gen, op)" by (cases x)
    then show ?case
      by (cases c) (auto intro!: spec_Done spec_pre [OF none] spec_pre [OF some])
  qed auto
qed

lemma spec_sendOne: "pres (tcpKeep n0 u False) (sendOne dial address p)"
proof
  fix b r b'
  assume b: "tcpKeep n0 u False b" and r: "runP (sendOne dial address p) b = (r, b')"
  let ?b = "b\<lparr>writeMu := True\<rparr>"
  have b1: "tcpKeep n0 u True ?b" using b by (simp add: tcpKeep_def)
  obtain x t where x: "runP (sendLoop dial address 3 (frame p)) ?b = (x, t)" by fastforce
  have "tcpKeep n0 u True t" using specD [OF pres_sendLoop b1 x] .
  moreover have "\<exists>y. x = Returned y" using sendLoop_returns [of address 3 "frame p" ?b] x by auto
  moreover have "runP (await (\<lambda>b. \<not> writeMu b) (\<lambda>b. b\<lparr>writeMu := True\<rparr>)) b = (Ok (), ?b)"
    using b by (simp add: tcpKeep_def)
  ultimately show "tcpKeep n0 u False b'"
    using r x by (auto simp: sendOne_def thenP_Inr runP_deferP tcpKeep_def)
qed

lemma pres_tcpSend: "pres (tcpKeep n0 u False) (tcpSend dial address bufs)"
  by (induction bufs) (auto intro!: pres_Done pres_thenP spec_sendOne)

lemma pres_readFailed: "pres (tcpKeep n0 u w) (readFailed dial address gen e)"
  unfolding readFailed_def isOpen_def
  by (auto intro!: pres_thenP pres_atom pres_Done pres_bindP pres_tcpDial)

lemma pres_receiveOn:
  "spec (\<lambda>b. tcpKeep n0 u w b \<and> bconn b = mc) (receiveOn dial address buflen mc gen) (\<lambda>_. tcpKeep n0 u w)"
proof (cases mc)
  case None
  then show ?thesis by (auto simp: receiveOn_def intro: spec_Crash)
next
  case (Some c)
  have weak: "pres (tcpKeep n0 u w) m \<Longrightarrow> spec (\<lambda>b. tcpKeep n0 u w b \<and> bconn b = Some c) m (\<lambda>_. tcpKeep n0 u w)" for m :: "(tcp_bind, 'z) prog"
    by (erule spec_pre) auto
  show ?thesis
    unfolding Some receiveOn_def option.case
    by (rule spec_bindP [OF pres_read])
      (auto simp: Let_def split: sum.split intro!: spec_bindP [OF pres_read] spec_Done weak [OF pres_readFailed])
qed

lemma pres_receive: "pres (tcpKeep n0 u w) (receive dial address buflen)"
proof -
  have again: "pres (tcpKeep n0 u w)
     (thenP (tcpDial dial address 0) (\<lambda>_.
       thenP currentConn (\<lambda>(c, gen, op).
       if \<not> op then Done (Inl ErrClosed) else receiveOn dial address buflen c gen)))"
  proof (rule pres_thenP [OF pres_tcpDial], rule spec_thenP [OF spec_currentConn], goal_cases)
    case (1 _ x)
    then show ?case by (cases x) (auto intro!: spec_Done spec_pre [OF pres_receiveOn])
  qed auto
  show ?thesis
    unfolding receive_def
  proof (rule spec_thenP [OF spec_currentConn], goal_cases)
    case (1 x)
    then show ?case by (cases x) (auto intro!: spec_Done spec_pre [OF pres_receiveOn] spec_pre [OF again])
  qed auto
qed

lemma tcpOpen_twice: "bopen b \<Longrightarrow> runP (tcpOpen dial address) b = (Err ErrBindAlreadyOpen, b)"
  by (simp add: tcpOpen_def openBegin_def runP_thenP)

lemma tcpOpen_spec:
  assumes "tcpInv n0 b" "\<not> bopen b" "runP (tcpOpen dial address) b = (r, b')"
  shows "tcpInv n0 b' \<and> writeMu b' = writeMu b \<and> (bopen b' \<longleftrightarrow> r = Ok ())"
proof -
  let ?b = "b\<lparr>bopen := True\<rparr>"
  have n: "bconn b = None" using assms(1,2) by (auto simp: tcpInv_def split: option.splits)
  have i: "tcpInv n0 ?b" using assms(1) n by simp
  obtain x b1 where d: "runP (tcpDial dial address (connGen b)) ?b = (Returned x, b1)"
    using tcpDial_returns by blast
  have b1: "tcpInv n0 b1" "bopen b1" "writeMu b1 = writeMu b" using tcpDial_spec [OF i d] by simp_all
  show ?thesis
  proof (cases x)
    case (Inl e)
    have "bconn b1 = None"
      using d Inl n tcpDial_go [of ?b "connGen b" address] by (auto split: prod.splits sum.splits)
    then show ?thesis
      using assms(2,3) d Inl b1 by (auto simp: tcpOpen_def openBegin_def runP_thenP runP_bindP)
  next
    case (Inr u)
    then show ?thesis
      using assms(2,3) d b1 by (auto simp: tcpOpen_def openBegin_def runP_thenP runP_bindP)
  qed
qed

lemma closed_send:
  assumes "\<not> bopen b" "\<not> writeMu b" "runP (tcpSend dial address bufs) b = (r, b')"
  shows "b' = b \<and> (bufs \<noteq> [] \<and> length (hd bufs) \<le> 65535 \<longrightarrow> r = Err ErrClosed)"
proof (cases bufs)
  case Nil
  with assms show ?thesis by simp
next
  case (Cons p ps)
  have "runP (sendLoop dial address 3 (frame p)) (b\<lparr>writeMu := True\<rparr>) = (Err ErrClosed, b\<lparr>writeMu := True\<rparr>)"
    using assms(1) by (simp add: numeral_3_eq_3 currentConn_def runP_thenP)
  then have "runP (sendOne dial address p) b = (Err ErrClosed, b\<lparr>writeMu := True\<rparr>\<lparr>writeMu := False\<rparr>)"
    using assms(2) by (simp add: sendOne_def thenP_Inr runP_deferP)
  moreover have "b\<lparr>writeMu := True\<rparr>\<lparr>writeMu := False\<rparr> = b" using assms(2) by simp
  ultimately show ?thesis using assms(3) Cons by (auto simp: runP_thenP split: if_splits)
qed

lemma closed_recv: "\<not> bopen b \<Longrightarrow> runP (receive dial address n) b = (Err ErrClosed, b)"
  by (simp add: receive_def currentConn_def runP_thenP)

end

lemma tcpClose_spec:
  assumes "tcpInv n0 b" "runP tcpClose b = (r, b')"
  shows "r = Ok () \<and> tcpInv n0 b' \<and> \<not> bopen b' \<and> writeMu b' = writeMu b"
  using assms tcpInv_closeBind [OF assms(1)]
  by (auto simp: tcpClose_def closeBind_def Let_def split: option.splits)

lemma closed_close: "tcpInv n0 b \<Longrightarrow> \<not> bopen b \<Longrightarrow> runP tcpClose b = (Ok (), b)"
  by (auto simp: tcpClose_def closeBind_def tcpInv_def split: option.splits)

text \<open>\<open>TCPBind\<close> is a \<open>conn.Bind\<close>, over any dialer that keeps the contract.\<close>

context dialer
begin

lemma tcp_wg_bind:
  "wg_bind (tcpOpen dial address) tcpClose (tcpSend dial address) (receive dial address)
     bopen (\<lambda>b. tcpInv n0 b \<and> \<not> writeMu b)"
proof unfold_locales
  fix s :: tcp_bind
  assume s: "tcpInv n0 s \<and> \<not> writeMu s"
  show "bopen s \<Longrightarrow> runP (tcpOpen dial address) s = (Err ErrBindAlreadyOpen, s)" by (rule tcpOpen_twice)
  show "\<not> bopen s \<Longrightarrow> runP (tcpOpen dial address) s = (r, s') \<Longrightarrow>
      (tcpInv n0 s' \<and> \<not> writeMu s') \<and> (bopen s' \<longleftrightarrow> r = Ok ())" for r s'
    using tcpOpen_spec s by blast
  show "runP tcpClose s = (r, s') \<Longrightarrow> r = Ok () \<and> (tcpInv n0 s' \<and> \<not> writeMu s') \<and> \<not> bopen s'" for r s'
    using tcpClose_spec s by blast
  show "\<not> bopen s \<Longrightarrow> runP tcpClose s = (Ok (), s)" using closed_close s by blast
  show "runP (tcpSend dial address bufs) s = (r, s') \<Longrightarrow>
      (tcpInv n0 s' \<and> \<not> writeMu s') \<and> bopen s' = bopen s" for bufs r s'
    using specD [OF pres_tcpSend [of n0 "bopen s"], of s address bufs r s'] s by (simp add: tcpKeep_def)
  show "runP (receive dial address n) s = (r', s') \<Longrightarrow>
      (tcpInv n0 s' \<and> \<not> writeMu s') \<and> bopen s' = bopen s" for n r' s'
    using specD [OF pres_receive [of n0 "bopen s" False], of s address n r' s'] s by (simp add: tcpKeep_def)
  show "\<not> bopen s \<Longrightarrow> runP (tcpSend dial address bufs) s = (r, s') \<Longrightarrow>
      s' = s \<and> (bufs \<noteq> [] \<and> length (hd bufs) \<le> 65535 \<longrightarrow> r = Err ErrClosed)" for bufs r s'
    using closed_send s by blast
  show "\<not> bopen s \<Longrightarrow> runP (receive dial address n) s = (Err ErrClosed, s)" for n
    by (rule closed_recv)
qed

end

interpretation tcpDirect: wg_bind "tcpOpen netDial address" tcpClose "tcpSend netDial address"
    "receive netDial address" bopen "\<lambda>b. tcpInv n0 b \<and> \<not> writeMu b" for address n0
  by (rule direct.tcp_wg_bind)

interpretation tcpOuter: wg_bind "tcpOpen (dialContext netDial server ctx) address" tcpClose
    "tcpSend (dialContext netDial server ctx) address" "receive (dialContext netDial server ctx) address"
    bopen "\<lambda>b. tcpInv n0 b \<and> \<not> writeMu b" for server ctx address n0
  by (rule outer.socks.tcp_wg_bind)

section \<open>Framing\<close>

text \<open>What \<open>receive\<close> makes of a frame that carries \<open>p\<close>.\<close>

definition delivered :: "nat \<Rightarrow> bytes \<Rightarrow> (nat \<times> bytes) outcome" where
  "delivered buflen p =
     (if length p > buflen
      then Err (Errorf ''tcpbind: oversized frame %d > buffer %d'' [AInt (int (length p)), AInt (int buflen)])
      else Ok (length p, p))"

definition connected :: "tcp_bind \<Rightarrow> bool" where
  "connected b \<longleftrightarrow> bopen b \<and> (case bconn b of None \<Rightarrow> False | Some c \<Rightarrow> readable (tnet b) c)"

definition stream :: "tcp_bind \<Rightarrow> bytes" where
  "stream b = (case bconn b of None \<Rightarrow> [] | Some c \<Rightarrow> rx (heap (tnet b) ! c))"

definition setStream :: "bytes \<Rightarrow> tcp_bind \<Rightarrow> tcp_bind" where
  "setStream r b = (case bconn b of None \<Rightarrow> b | Some c \<Rightarrow> b\<lparr>tnet := setRx c r (tnet b)\<rparr>)"

lemma unat_length16: "length p \<le> 65535 \<Longrightarrow> unat (word_of_nat (length p) :: uint16) = length p"
  by (simp add: unat_of_nat)

lemma receive_frame:
  assumes "connected b" "length p \<le> 65535" "stream b = frame p @ r"
  shows "runP (receive dial address buflen) b = (delivered buflen p, setStream r b)"
proof -
  from assms(1) obtain c where c: "bopen b" "bconn b = Some c" and rd: "readable (tnet b) c"
    by (auto simp: connected_def split: option.splits)
  let ?h = "be16_put (word_of_nat (length p))"
  have rx: "rx (heap (tnet b) ! c) = ?h @ p @ r" using assms(3) c by (simp add: stream_def frame_def)
  have 1: "c_readFull c 2 (tnet b) = (Inr ?h, setRx c (p @ r) (tnet b))"
    using rd rx by (intro readFull_append) simp_all
  have 2: "c_readFull c (length p) (setRx c (p @ r) (tnet b)) = (Inr p, setRx c r (tnet b))"
    using readFull_append [of "setRx c (p @ r) (tnet b)" c p r] rd by simp
  have "runP (receive dial address buflen) b = runP (receiveOn dial address buflen (Some c) (connGen b)) b"
    using c by (simp add: receive_def currentConn_def runP_thenP)
  also have "\<dots> = (delivered buflen p, b\<lparr>tnet := setRx c r (tnet b)\<rparr>)"
    using 1 2 unat_length16 [OF assms(2)]
    by (cases "p = []") (auto simp: receiveOn_def runP_bindP onNet_def delivered_def Let_def)
  finally show ?thesis using c by (simp add: setStream_def)
qed

interpretation frames: stream_codec frame "\<lambda>p. length p \<le> 65535" "runP (receive dial address buflen)"
    "delivered buflen" connected stream setStream for dial address buflen
proof unfold_locales
  fix s :: tcp_bind and r q :: bytes
  show "setStream r (setStream q s) = setStream r s"
    by (auto simp: setStream_def split: option.split)
  assume s: "connected s"
  then show "connected (setStream r s)" "stream (setStream r s) = r"
    by (auto simp: connected_def setStream_def stream_def split: option.splits)
  show "setStream (stream s) s = s"
    using s by (auto simp: connected_def setStream_def stream_def setRx_id split: option.splits)
qed (rule receive_frame)

text \<open>A healthy connection takes the frames of the datagrams, whole and in order.\<close>

definition healthy :: "nat \<Rightarrow> tcp_bind \<Rightarrow> bool" where
  "healthy k b \<longleftrightarrow> bopen b \<and> \<not> writeMu b \<and> (case bconn b of None \<Rightarrow> False | Some c \<Rightarrow> writable (tnet b) c k)"

definition sentOn :: "tcp_bind \<Rightarrow> bytes list" where
  "sentOn b = (case bconn b of None \<Rightarrow> [] | Some c \<Rightarrow> tx (heap (tnet b) ! c))"

lemma sendLoop_ok:
  assumes "bopen b" "bconn b = Some c" "writable (tnet b) c (Suc k)"
  shows "runP (sendLoop dial address (Suc m) buf) b = (Ok (), b\<lparr>tnet := putTx c buf (tnet b)\<rparr>)"
  using assms by (simp add: currentConn_def runP_thenP runP_bindP onNet_def write_putTx [OF assms(3)])

lemma sendOne_ok:
  assumes "healthy (Suc k) b"
  shows "\<exists>b'. runP (sendOne dial address p) b = (Ok (), b') \<and> healthy k b' \<and> sentOn b' = sentOn b @ [frame p]"
proof -
  from assms obtain c where c: "bopen b" "\<not> writeMu b" "bconn b = Some c" and w: "writable (tnet b) c (Suc k)"
    by (auto simp: healthy_def split: option.splits)
  let ?b = "b\<lparr>writeMu := True\<rparr>" and ?n = "putTx c (frame p) (tnet b)"
  have "runP (sendLoop dial address 3 (frame p)) ?b = (Ok (), ?b\<lparr>tnet := ?n\<rparr>)"
    using c w unfolding numeral_3_eq_3 by (subst sendLoop_ok) auto
  then have "runP (sendOne dial address p) b = (Ok (), b\<lparr>writeMu := False, tnet := ?n\<rparr>)"
    using c by (simp add: sendOne_def thenP_Inr runP_deferP)
  moreover have "healthy k (b\<lparr>writeMu := False, tnet := ?n\<rparr>)"
    using c writable_putTx [OF w] by (simp add: healthy_def)
  moreover have "sentOn (b\<lparr>writeMu := False, tnet := ?n\<rparr>) = sentOn b @ [frame p]"
    using c writable_readable [OF w] by (simp add: sentOn_def)
  ultimately show ?thesis by blast
qed

lemma tcpSend_ok:
  assumes "healthy (length bufs) b" "list_all (\<lambda>p. length p \<le> 65535) bufs"
  shows "\<exists>b'. runP (tcpSend dial address bufs) b = (Ok (), b') \<and> sentOn b' = sentOn b @ map frame bufs"
  using assms
proof (induction bufs arbitrary: b)
  case (Cons p ps)
  then obtain b1 where b1: "runP (sendOne dial address p) b = (Ok (), b1)" "healthy (length ps) b1"
    "sentOn b1 = sentOn b @ [frame p]" using sendOne_ok [of "length ps" b dial address p] by auto
  then obtain b' where "runP (tcpSend dial address ps) b1 = (Ok (), b')" "sentOn b' = sentOn b1 @ map frame ps"
    using Cons.IH [of b1] Cons.prems by auto
  with b1 Cons.prems show ?case by (auto simp: thenP_Inr)
qed simp

text \<open>
  A connection on which the write fails is replaced, and the frame goes out whole as the
  first thing on the new one.
\<close>

context dialer
begin

lemma sendOne_reconnects:
  assumes "bopen b" "\<not> writeMu b" "bconn b = Some c" "c_write c (frame p) (tnet b) = (Inl e, n)"
    and "dial ''tcp'' address (c_close c n) = (Inr c', n')" "writable n' c' 1" "tx (heap n' ! c') = sent"
  shows "\<exists>b'. runP (sendOne dial address p) b = (Ok (), b') \<and> bconn b' = Some c' \<and>
    connGen b' = connGen b + 1 \<and> tx (heap (tnet b') ! c') = sent @ [frame p] \<and> \<not> writeMu b'"
proof -
  let ?b = "b\<lparr>writeMu := True\<rparr>"
  let ?b1 = "b\<lparr>writeMu := True, tnet := n', bconn := Some c', connGen := connGen b + 1\<rparr>"
  have "hungUp (?b\<lparr>tnet := n\<rparr>) = ?b\<lparr>tnet := c_close c n, bconn := None\<rparr>"
    using assms(3) by (simp add: hungUp_def)
  then have d: "runP (tcpDial dial address (connGen b)) (?b\<lparr>tnet := n\<rparr>) = (Ok (), ?b1)"
    using assms(1,5) by (subst tcpDial_go) auto
  have "runP (sendLoop dial address (Suc (Suc (Suc 0))) (frame p)) ?b =
      runP (sendLoop dial address (Suc (Suc 0)) (frame p)) ?b1"
    unfolding sendLoop.simps(2) [of dial address "Suc (Suc 0)"]
    using assms(1,3,4) d by (simp add: currentConn_def runP_thenP runP_bindP onNet_def del: sendLoop.simps)
  also have "\<dots> = (Ok (), ?b1\<lparr>tnet := putTx c' (frame p) n'\<rparr>)"
    using assms(1,6) by (subst sendLoop_ok [of _ c' 0]) auto
  finally have l: "runP (sendLoop dial address 3 (frame p)) ?b = (Ok (), ?b1\<lparr>tnet := putTx c' (frame p) n'\<rparr>)"
    unfolding numeral_3_eq_3 .
  then have "runP (sendOne dial address p) b = (Ok (), ?b1\<lparr>tnet := putTx c' (frame p) n', writeMu := False\<rparr>)"
    using assms(2) by (simp add: sendOne_def thenP_Inr runP_deferP)
  then show ?thesis using assms(7) writable_readable [OF assms(6)] by auto
qed

end

section \<open>Every interleaving\<close>

text \<open>A goroutine that makes one call; what \<open>receive\<close> delivered is kept.\<close>

definition tcpThread :: "dialfn \<Rightarrow> string \<Rightarrow> bind_call \<Rightarrow> (tcp_bind, (nat \<times> bytes) option) prog" where
  "tcpThread dial address c = (case c of
       COpen \<Rightarrow> thenP (tcpOpen dial address) (\<lambda>_. Done (Inr None))
     | CClose \<Rightarrow> thenP tcpClose (\<lambda>_. Done (Inr None))
     | CSend bufs \<Rightarrow> thenP (tcpSend dial address bufs) (\<lambda>_. Done (Inr None))
     | CRecv n \<Rightarrow> thenP (receive dial address n) (\<lambda>x. Done (Inr (Some x))))"

text \<open>
  A predicate kept by each of the atomic actions of the bind, with the datagrams in \<open>B\<close>, holds
  in every state that senders, receivers and closers can reach, however they interleave.
\<close>

locale tcp_actions =
  fixes dial :: dialfn and address :: string and I :: "tcp_bind \<Rightarrow> bool" and B :: "bytes set"
  assumes act_begin: "I b \<Longrightarrow> I (snd (dialBegin g b))"
    and act_dial: "I b \<Longrightarrow> I (snd (onNet (dial ''tcp'' address) b))"
    and act_publish: "I b \<Longrightarrow> I (snd (dialPublish c b))"
    and act_write: "p \<in> B \<Longrightarrow> I b \<Longrightarrow> I (snd (onNet (c_write c (frame p)) b))"
    and act_read: "I b \<Longrightarrow> I (snd (onNet (c_readFull c n) b))"
    and act_lock: "I b \<Longrightarrow> I (b\<lparr>writeMu := w\<rparr>)"
    and act_close: "I b \<Longrightarrow> I (closeBind b)"
begin

abbreviation okI :: "(tcp_bind, 'a) prog \<Rightarrow> bool" where "okI \<equiv> okP I (\<lambda>_. True)"

lemma okI_thenP: "okI m \<Longrightarrow> (\<And>x. okI (k x)) \<Longrightarrow> okI (thenP m k)"
  by (rule okP_thenP) auto

lemma okI_bindP: "okI m \<Longrightarrow> (\<And>r. okI (k r)) \<Longrightarrow> okI (bindP m k)"
  by (rule okP_bindP) auto

lemma okI_Done: "okI (Done r)"
  by (simp add: okDone)

lemma okI_dial: "okI (tcpDial dial address g)"
  unfolding tcpDial_def
  by (auto intro!: okI_thenP okP_atom okI_Done simp: act_begin act_dial act_publish)

lemma okI_current: "okI currentConn"
  unfolding currentConn_def by (auto intro!: okP_atom)

lemma okI_sendLoop: "p \<in> B \<Longrightarrow> okI (sendLoop dial address k (frame p))"
proof (induction k)
  case (Suc k)
  then have IH: "okI (sendLoop dial address k (frame p))" by simp
  have w: "okI (atom (onNet (c_write c (frame p))))" for c
    using Suc.prems by (auto intro!: okP_atom simp: act_write)
  show ?case
    by (auto intro!: okI_thenP okI_current okI_bindP okI_dial okI_Done w IH okP_atom
        split: option.split sum.split)
qed (simp add: okI_Done)

lemma okI_send: "set bufs \<subseteq> B \<Longrightarrow> okI (tcpSend dial address bufs)"
  by (induction bufs)
    (auto intro!: okI_Done okI_thenP okP_await okP_deferP okI_sendLoop simp: sendOne_def act_lock)

lemma okI_failed: "okI (readFailed dial address g e)"
  unfolding readFailed_def isOpen_def by (auto intro!: okI_thenP okP_atom okI_bindP okI_dial okI_Done)

lemma okI_receiveOn: "okI (receiveOn dial address n mc g)"
  unfolding receiveOn_def
  by (auto intro!: okI_bindP okP_atom okI_Done okI_failed okCrash simp: act_read Let_def
      split: option.split sum.split)

lemma okI_receive: "okI (receive dial address n)"
  unfolding receive_def by (auto intro!: okI_thenP okI_current okI_dial okI_receiveOn okI_Done)

lemma okI_thread:
  assumes "c \<noteq> COpen" "\<And>bufs. c = CSend bufs \<Longrightarrow> set bufs \<subseteq> B"
  shows "okI (tcpThread dial address c)"
  using assms
  by (cases c) (auto simp: tcpThread_def tcpClose_def act_close intro!: okI_thenP okI_Done okP_atom okI_send okI_receive)

lemma interleaved:
  assumes "psteps (b, map (tcpThread dial address) cs) (b', ts')" "I b"
    and "COpen \<notin> set cs" "\<And>bufs. CSend bufs \<in> set cs \<Longrightarrow> set bufs \<subseteq> B"
  shows "I b'"
proof -
  have "okI p" if "p \<in> set (map (tcpThread dial address) cs)" for p
    using that assms(3,4) by (auto intro!: okI_thread)
  with assms(1,2) have "I b' \<and> (\<forall>p\<in>set ts'. okI p)" by (rule psteps_ok)
  then show ?thesis by simp
qed

end

text \<open>No goroutine brings a connection back to a closed bind, or opens it.\<close>

definition quiet :: "bool \<Rightarrow> tcp_bind \<Rightarrow> bool" where
  "quiet u b \<longleftrightarrow> (bopen b \<longrightarrow> u) \<and> (\<not> bopen b \<longrightarrow> bconn b = None)"

interpretation quieting: tcp_actions dial address "quiet u" UNIV for dial address u
  by unfold_locales
    (auto simp: quiet_def dialBegin_def dialPublish_def onNet_def closeBind_def Let_def
      split: prod.split option.split)

text \<open>Every write the bind makes is one whole frame of a datagram it was given.\<close>

definition framed :: "bytes set \<Rightarrow> net \<Rightarrow> bool" where
  "framed B n \<longleftrightarrow> (\<forall>c \<in> set (heap n) \<union> {c. Inr c \<in> set (script n)}.
      wrCap c = None \<and> set (tx c) \<subseteq> frame ` B)"

lemma framed_upd:
  assumes "framed B n" "\<And>c. wrCap c = None \<and> set (tx c) \<subseteq> frame ` B \<Longrightarrow> wrCap (f c) = None \<and> set (tx (f c)) \<subseteq> frame ` B"
  shows "framed B (upd i f n)"
proof (cases "i < length (heap n)")
  case True
  then have "wrCap (heap n ! i) = None \<and> set (tx (heap n ! i)) \<subseteq> frame ` B"
    using assms(1) by (auto simp: framed_def)
  then have "wrCap (f (heap n ! i)) = None \<and> set (tx (f (heap n ! i))) \<subseteq> frame ` B" by (rule assms(2))
  then show ?thesis
    using assms(1) by (auto simp: framed_def upd_def dest!: set_update_subset_insert [THEN subsetD])
next
  case False
  with assms(1) show ?thesis by (simp add: framed_def upd_def list_update_beyond)
qed

lemma framed_close: "framed B n \<Longrightarrow> framed B (c_close c n)"
  unfolding c_close_def by (rule framed_upd) simp_all

lemma framed_read: "framed B n \<Longrightarrow> framed B (snd (c_readFull c k n))"
  unfolding c_readFull_def Let_def by (auto intro!: framed_upd)

lemma framed_write: "framed B n \<Longrightarrow> p \<in> B \<Longrightarrow> framed B (snd (c_write c (frame p) n))"
proof (cases "c < length (heap n)")
  case True
  assume f: "framed B n" and p: "p \<in> B"
  with True have "wrCap (heap n ! c) = None" by (auto simp: framed_def)
  with f p show ?thesis
    unfolding c_write_def Let_def by (auto intro!: framed_upd)
next
  case False
  assume "framed B n"
  with False show ?thesis by (simp add: c_write_def Let_def upd_def list_update_beyond)
qed

lemma framed_netDial: "framed B n \<Longrightarrow> framed B (snd (netDial nw a n))"
  by (auto simp: netDial_def framed_def Let_def split: list.split sum.split)

interpretation framing: tcp_actions netDial address "\<lambda>b. framed B (tnet b)" B for address B
proof unfold_locales
  fix b :: tcp_bind
  assume f: "framed B (tnet b)"
  then show "framed B (tnet (snd (dialBegin g b)))" for g
    by (simp add: dialBegin_def framed_close split: option.split)
  show "framed B (tnet (snd (onNet (netDial ''tcp'' address) b)))"
    using framed_netDial [OF f] by (simp add: onNet_def split: prod.split) (metis snd_conv)
  show "framed B (tnet (snd (dialPublish c b)))" for c
    using f by (simp add: dialPublish_def framed_close)
  show "p \<in> B \<Longrightarrow> framed B (tnet (snd (onNet (c_write c (frame p)) b)))" for p c
    using framed_write [OF f] by (simp add: onNet_def split: prod.split) (metis snd_conv)
  show "framed B (tnet (snd (onNet (c_readFull c n) b)))" for c n
    using framed_read [OF f] by (simp add: onNet_def split: prod.split) (metis snd_conv)
  show "framed B (tnet (b\<lparr>writeMu := w\<rparr>))" for w using f by simp
  show "framed B (tnet (closeBind b))"
    using f by (simp add: closeBind_def framed_close Let_def split: option.split)
qed

section \<open>Properties\<close>

lemma tcpInv_new: "tcpInv n0 (newTCPBind n0) \<and> \<not> writeMu (newTCPBind n0)"
  by (auto simp: tcpInv_def newTCPBind_def new_closed_def)

text \<open>
  C31: a TCP bind leaks nothing over its life. After any sequence of \<open>Open\<close>, \<open>Close\<close>, \<open>Send\<close> and
  \<open>receive\<close> calls, with whatever the network did to them, at most one of the connections it
  ever dialed is open, it is the bind's current one, it is there only while the bind is open,
  and the connections of others are untouched.
\<close>

theorem tcpBind_no_leak:
  "tcpInv n0 (fold (runCall (tcpOpen netDial address) tcpClose (tcpSend netDial address)
     (receive netDial address)) cs (newTCPBind n0))"
  using tcpDirect.calls_inv [OF tcpInv_new] by simp

text \<open>
  A TCP bind that dials through an outer SOCKS5 proxy leaks nothing either: after any sequence
  of calls at most one connection it dialed is open, although every (re)connection is a SOCKS5
  handshake that may fail half-way.
\<close>

lemma tcpBind_over_socks5_no_leak:
  "tcpInv n0 (fold (runCall (tcpOpen (dialContext netDial server ctx) address) tcpClose
     (tcpSend (dialContext netDial server ctx) address)
     (receive (dialContext netDial server ctx) address)) cs (newTCPBind n0))"
  using tcpOuter.calls_inv [OF tcpInv_new] by simp

text \<open>
  A closed bind is inert until it is reopened: whatever is sent or received on it in
  between changes nothing, and then \<open>Open\<close> does what it would have done right after the
  \<open>Close\<close>; it succeeds exactly when the bind is open afterwards.
\<close>

lemma tcpBind_reopen:
  assumes "tcpInv n0 b" "\<not> writeMu b" "COpen \<notin> set cs"
    and "call = runCall (tcpOpen netDial address) tcpClose (tcpSend netDial address) (receive netDial address)"
    and "runP (tcpOpen netDial address) (fold call (CClose # cs) b) = (r, b')"
  shows "runP (tcpOpen netDial address) (closeBind b) = (r, b') \<and> (bopen b' \<longleftrightarrow> r = Ok ())"
proof -
  have "runCall (tcpOpen netDial address) tcpClose (tcpSend netDial address) (receive netDial address) CClose b = closeBind b"
    by (simp add: runCall_def tcpClose_def)
  then show ?thesis
    using tcpDirect.reopen [of n0 b cs address r b'] assms by simp
qed

lemma tcpBind_reopen_witness:
  "let b = newTCPBind (peerNet [] [peerConn [] [], peerConn [] []]);
       call = runCall (tcpOpen netDial ''a:1'') tcpClose (tcpSend netDial ''a:1'') (receive netDial ''a:1'')
   in fst (runP (tcpOpen netDial ''a:1'') (fold call [CClose, CSend [[7]], CRecv 9] b)) = Ok ()"
proof -
  let ?b = "newTCPBind (peerNet [] [peerConn [] [], peerConn [] []])"
  let ?call = "runCall (tcpOpen netDial ''a:1'') tcpClose (tcpSend netDial ''a:1'') (receive netDial ''a:1'')"
  obtain r b' where o: "runP (tcpOpen netDial ''a:1'') (fold ?call [CClose, CSend [[7]], CRecv 9] ?b) = (r, b')"
    by fastforce
  have "runP (tcpOpen netDial ''a:1'') (closeBind ?b) = (r, b') \<and> (bopen b' \<longleftrightarrow> r = Ok ())"
    using tcpInv_new by (intro tcpBind_reopen [OF _ _ _ refl o]) auto
  moreover have "fst (runP (tcpOpen netDial ''a:1'') (closeBind ?b)) = Ok ()" by code_simp
  ultimately show ?thesis using o by (simp only: Let_def fst_conv)
qed

text \<open>
  C7: framing stays in step. From a stream that carries the frames of any datagrams, one
  \<open>receive\<close> per frame delivers each datagram in order, byte for byte; an empty one is
  delivered as empty, one larger than the buffer is reported and skipped whole, and in every
  case the stream is left exactly at the next frame.
\<close>

theorem receive_stream:
  assumes "connected b" "list_all (\<lambda>p. length p \<le> 65535) ps" "stream b = concat (map frame ps) @ r"
  shows "times (length ps) (runP (receive dial address buflen)) b = (map (delivered buflen) ps, setStream r b)"
  using assms by (rule frames.recvs_stream)

definition linkedBind :: "conn \<Rightarrow> tcp_bind" where
  "linkedBind c = \<lparr>bopen = True, bconn = Some 0, connGen = 1, writeMu = False, tnet = peerNet [c] []\<rparr>"

theorem receive_stream_witness:
  "fst (times 3 (runP (receive netDial ''a:1'' 2)) (linkedBind (peerConn [0, 1, 7, 0, 3, 1, 2, 3, 0, 0, 9] []))) =
     [Ok (1, [7]), Err (Errorf ''tcpbind: oversized frame %d > buffer %d'' [AInt 3, AInt 2]), Ok (0, [])]"
proof -
  let ?b = "linkedBind (peerConn [0, 1, 7, 0, 3, 1, 2, 3, 0, 0, 9] [])"
  have "connected ?b" by (simp add: connected_def linkedBind_def readable_def peerNet_def peerConn_def)
  moreover have "concat (map frame [[7], [1, 2, 3], []]) = [0, 1, 7, 0, 3, 1, 2, 3, 0, 0]" by code_simp
  then have "stream ?b = concat (map frame [[7], [1, 2, 3], []]) @ [9]"
    by (simp add: stream_def linkedBind_def peerNet_def peerConn_def)
  ultimately show ?thesis
    using receive_stream [of ?b "[[7], [1, 2, 3], []]" "[9]" netDial "''a:1''" 2]
    by (simp add: numeral_3_eq_3 delivered_def)
qed

text \<open>
  C24: the tunnel end to end. The datagrams one side passes to \<open>Send\<close> on a healthy connection,
  read from the bytes it put on the wire by the other side's \<open>receive\<close>, are the same
  datagrams in the same order; for every list of datagrams of legal size.
\<close>

theorem tcp_end_to_end:
  assumes "healthy (length bufs) a" "sentOn a = []" "list_all (\<lambda>p. length p \<le> 65535 \<and> length p \<le> buflen) bufs"
    and "runP (tcpSend dial address bufs) a = (res, a')"
    and "connected b" "stream b = concat (sentOn a')"
  shows "res = Ok () \<and> fst (times (length bufs) (runP (receive dial' address' buflen)) b) =
     map (\<lambda>p. Ok (length p, p)) bufs"
proof -
  have l: "list_all (\<lambda>p. length p \<le> 65535) bufs" using assms(3) by (auto simp: list_all_iff)
  from tcpSend_ok [OF assms(1) l, of dial address] assms(2,4) have s: "res = Ok ()" "sentOn a' = map frame bufs"
    by auto
  have "stream b = concat (map frame bufs) @ []" using assms(6) s by simp
  from frames.recvs_stream [OF assms(5) l this] have
    "fst (times (length bufs) (runP (receive dial' address' buflen)) b) = map (delivered buflen) bufs" by simp
  moreover have "map (delivered buflen) bufs = map (\<lambda>p. Ok (length p, p)) bufs"
    using assms(3) by (auto simp: delivered_def list_all_iff)
  ultimately show ?thesis using s(1) by simp
qed

theorem tcp_end_to_end_witness:
  "fst (times 2 (runP (receive netDial ''b:2'' 1500)) (linkedBind (peerConn [0, 2, 104, 105, 0, 1, 33] []))) =
     [Ok (2, [104, 105]), Ok (1, [33])]"
proof -
  let ?a = "linkedBind (peerConn [] [])" and ?b = "linkedBind (peerConn [0, 2, 104, 105, 0, 1, 33] [])"
  let ?p = "[[104, 105], [33]] :: bytes list"
  obtain r a' where s: "runP (tcpSend netDial ''a:1'' ?p) ?a = (r, a')" by fastforce
  have h: "healthy (length ?p) ?a" "sentOn ?a = []" "connected ?b"
    by (simp_all add: healthy_def sentOn_def connected_def linkedBind_def writable_def readable_def peerNet_def peerConn_def)
  have "concat (sentOn (snd (runP (tcpSend netDial ''a:1'' ?p) ?a))) = [0, 2, 104, 105, 0, 1, 33]"
    by code_simp
  then have "stream ?b = concat (sentOn a')"
    using s by (simp add: stream_def linkedBind_def peerNet_def peerConn_def)
  from tcp_end_to_end [OF h(1,2) _ s h(3) this, of 1500 netDial "''b:2''"] show ?thesis
    by (simp add: numeral_2_eq_2)
qed


definition brokenConn :: conn where
  "brokenConn = (peerConn [] [])\<lparr>rxErr := ExtErr ''connection reset by peer'', wrLeft := 0, wrErr := ExtErr ''broken pipe''\<rparr>"

definition brokenBind :: tcp_bind where
  "brokenBind = \<lparr>bopen = True, bconn = Some 0, connGen = 1, writeMu = False,
     tnet = peerNet [brokenConn] [peerConn [] [], peerConn [] []]\<rparr>"


text \<open>
  C6: a closed bind stays closed and without a connection however goroutines interleave. In
  every state that any number of concurrent senders, receivers and closers can reach, a bind
  that is not open has no current connection, and none of them ever opens it: a dial that was
  in flight when \<open>Close\<close> ran does not bring a connection back.
\<close>

theorem tcpBind_closed_interleaved:
  assumes "psteps (b, map (tcpThread dial address) cs) (b', ts')" "COpen \<notin> set cs"
    and "bopen b \<or> bconn b = None"
  shows "(\<not> bopen b' \<longrightarrow> bconn b' = None) \<and> (\<not> bopen b \<longrightarrow> \<not> bopen b')"
  using quieting.interleaved [OF assms(1), of "bopen b"] assms(2,3) by (auto simp: quiet_def)

theorem tcpBind_closed_interleaved_witness:
  "(let (b, ts) = runSched [1, 1, 1, 1, 0, 1, 1] (brokenBind, map (tcpThread netDial ''a:1'') [CClose, CRecv 9])
    in \<not> bopen b \<and> bconn b = None)"
proof -
  let ?c = "(brokenBind, map (tcpThread netDial ''a:1'') [CClose, CRecv 9])"
  obtain b ts where r: "runSched [1, 1, 1, 1, 0, 1, 1] ?c = (b, ts)" by fastforce
  then have "psteps ?c (b, ts)" using runSched_psteps by metis
  from tcpBind_closed_interleaved [OF this] have i: "\<not> bopen b \<longrightarrow> bconn b = None"
    by (simp add: brokenBind_def)
  have "\<not> bopen (fst (runSched [1, 1, 1, 1, 0, 1, 1] ?c))" by code_simp
  with i show ?thesis unfolding r by simp
qed



text \<open>
  The generation check does not make concurrent redials single. When a sender and a
  receiver both fail on the same connection, both pass the check of \<open>dial\<close> (the generation
  moves only when a connection is published) and both publish: there is a schedule after which
  both calls have returned and a connection the bind dialed is open but no longer reachable
  from it, so that nothing will ever close it.
\<close>

lemma tcpDial_race_leaks:
  "\<exists>b ts. psteps (brokenBind, map (tcpThread netDial ''a:1'') [CSend [[7]], CRecv 1500]) (b, ts) \<and>
     list_all (\<lambda>p. \<exists>r. p = Done r) ts \<and>
     (\<exists>c < length (heap (tnet b)). c \<ge> length (heap (tnet brokenBind)) \<and>
        \<not> isClosed (heap (tnet b) ! c) \<and> bconn b \<noteq> Some c)"
proof -
  let ?sc = "[0, 0, 0, 1, 1, 1, 0, 1, 0, 0, 1, 1, 0, 0, 0]"
  let ?c = "(brokenBind, map (tcpThread netDial ''a:1'') [CSend [[7]], CRecv 1500])"
  obtain b ts where r: "runSched ?sc ?c = (b, ts)" by fastforce
  then have p: "psteps ?c (b, ts)" using runSched_psteps by metis
  have "list_all (\<lambda>p. case p of Done r \<Rightarrow> True | _ \<Rightarrow> False) (snd (runSched ?sc ?c))" by code_simp
  then have "list_all (\<lambda>p. \<exists>r. p = Done r) ts" unfolding r
    by (auto simp: list_all_iff split: prog.splits) (metis prog.exhaust)
  moreover have "length (heap (tnet (fst (runSched ?sc ?c)))) = 3 \<and>
      \<not> isClosed (heap (tnet (fst (runSched ?sc ?c))) ! 2) \<and> bconn (fst (runSched ?sc ?c)) = Some 2 \<and>
      \<not> isClosed (heap (tnet (fst (runSched ?sc ?c))) ! 1)" by code_simp
  then have "1 < length (heap (tnet b)) \<and> 1 \<ge> length (heap (tnet brokenBind)) \<and>
      \<not> isClosed (heap (tnet b) ! 1) \<and> bconn b \<noteq> Some 1"
    unfolding r by (simp add: brokenBind_def peerNet_def)
  ultimately show ?thesis using p by blast
qed

text \<open>
  \<open>receive\<close> can return \<open>net.ErrClosed\<close> although \<open>Close\<close> was never called. A sender whose
  write fails closes the connection to replace it; a receiver that is reading from it gets
  \<open>net.ErrClosed\<close> from the read, finds the bind open, and returns that error, which WireGuard's
  receive routine takes as the end of the bind.
\<close>

lemma receive_ErrClosed_while_open:
  "\<exists>b ts. psteps (brokenBind, map (tcpThread netDial ''a:1'') [CSend [[7]], CRecv 1500]) (b, ts) \<and>
     bopen b \<and> ts ! 0 = Done (Inr None) \<and> ts ! 1 = Done (Inl ErrClosed)"
proof -
  let ?sc = "[0, 0, 0, 1, 0, 1, 1, 0, 0, 1, 0, 0, 0]"
  let ?c = "(brokenBind, map (tcpThread netDial ''a:1'') [CSend [[7]], CRecv 1500])"
  obtain b ts where r: "runSched ?sc ?c = (b, ts)" by fastforce
  then have p: "psteps ?c (b, ts)" using runSched_psteps by metis
  have "(case runSched ?sc ?c of (b, ts) \<Rightarrow> bopen b \<and>
      (case ts ! 0 of Done x \<Rightarrow> x = Inr None | _ \<Rightarrow> False) \<and>
      (case ts ! 1 of Done x \<Rightarrow> x = Inl ErrClosed | _ \<Rightarrow> False))" by code_simp
  then have "bopen b \<and> ts ! 0 = Done (Inr None) \<and> ts ! 1 = Done (Inl ErrClosed)"
    unfolding r by (auto split: prog.splits)
  with p show ?thesis by blast
qed

definition lonelyBind :: tcp_bind where
  "lonelyBind = \<lparr>bopen = True, bconn = None, connGen = 1, writeMu = False,
     tnet = peerNet [] [brokenConn, peerConn [] []]\<rparr>"

text \<open>
  \<open>receive\<close> can call a method of a nil connection. After its own \<open>dial(0)\<close> succeeded it reads
  the current connection again and checks only that the bind is open; a sender whose write on
  the new connection failed meanwhile has set it back to nil, and \<open>io.ReadFull\<close> panics.
\<close>

lemma receive_nil_conn:
  "\<exists>b ts m. psteps (lonelyBind, map (tcpThread netDial ''a:1'') [CSend [[7]], CRecv 1500]) (b, ts) \<and>
     ts ! 1 = Crash m"
proof -
  let ?sc = "[0, 1, 1, 1, 1, 0, 0, 0, 1]"
  let ?c = "(lonelyBind, map (tcpThread netDial ''a:1'') [CSend [[7]], CRecv 1500])"
  obtain b ts where r: "runSched ?sc ?c = (b, ts)" by fastforce
  then have p: "psteps ?c (b, ts)" using runSched_psteps by metis
  have "(case snd (runSched ?sc ?c) ! 1 of Crash m \<Rightarrow> True | _ \<Rightarrow> False)" by code_simp
  then have "\<exists>m. ts ! 1 = Crash m" unfolding r by (auto split: prog.splits)
  with p show ?thesis by blast
qed

text \<open>
  A host name is resolved once, at startup, and what \<open>resolveTCPEndpoint\<close> returns is what
  the bind can dial: for every resolver, a success is an address that splits into a literal
  the resolver returned (or the literal that was given) and the port that was given, and the
  port is a 16-bit number.
\<close>

lemma resolveTCPEndpoint_sound:
  assumes "resolveTCPEndpoint lookupHost s = Inr t"
    and bare: "\<And>h as a. lookupHost h = Inr as \<Longrightarrow> a \<in> set as \<Longrightarrow> CHR ''['' \<notin> set a \<and> CHR '']'' \<notin> set a"
  shows "\<exists>host port v host'. splitHostPort s = Inr (host, port) \<and> parseUint16 port = Inr v \<and> v < 65536 \<and>
     splitHostPort t = Inr (host', port) \<and>
     (if parseIP host \<noteq> None then t = s else \<exists>as. lookupHost host = Inr (host' # as))"
proof -
  from assms(1) obtain host port v where p: "splitHostPort s = Inr (host, port)" "parseUint16 port = Inr v"
    and r: "if parseIP host \<noteq> None then t = s else (\<exists>a as. lookupHost host = Inr (a # as) \<and> t = joinHostPort a port)"
    by (auto simp: resolveTCPEndpoint_def split: sum.splits if_splits list.splits)
  have d: "list_all is_digit port" using p(2) by (simp add: parseUint16_def parseUint_digits)
  show ?thesis
  proof (cases "parseIP host \<noteq> None")
    case True
    with p r parseUint16_bound [OF p(2)] show ?thesis by auto
  next
    case False
    with r obtain a as where l: "lookupHost host = Inr (a # as)" "t = joinHostPort a port" by auto
    have "splitHostPort t = Inr (a, port)"
      using bare [OF l(1), of a] d unfolding l(2)
      by (intro splitHostPort_joinHostPort) (auto simp: list_all_iff is_digit_def)
    with False l p parseUint16_bound [OF p(2)] show ?thesis by auto
  qed
qed

lemma resolveTCPEndpoint_sound_witness:
  "let lookup = (\<lambda>h. if h = ''wg.example.net'' then Inr [''2001:db8::1''] else Inl (ExtErr ''no such host''))
   in \<exists>host'. splitHostPort ''[2001:db8::1]:443'' = Inr (host', ''443'') \<and>
      resolveTCPEndpoint lookup ''wg.example.net:443'' = Inr ''[2001:db8::1]:443''"
proof -
  let ?l = "\<lambda>h. if h = ''wg.example.net'' then Inr [''2001:db8::1''] else Inl (ExtErr ''no such host'')"
  have r: "resolveTCPEndpoint ?l ''wg.example.net:443'' = Inr ''[2001:db8::1]:443''" by code_simp
  have h: "splitHostPort ''wg.example.net:443'' = Inr (''wg.example.net'', ''443'')" by code_simp
  have "\<exists>host port v host'. splitHostPort ''wg.example.net:443'' = Inr (host, port) \<and> parseUint16 port = Inr v \<and>
     v < 65536 \<and> splitHostPort ''[2001:db8::1]:443'' = Inr (host', port) \<and>
     (if parseIP host \<noteq> None then ''[2001:db8::1]:443'' = ''wg.example.net:443''
      else \<exists>as. ?l host = Inr (host' # as))"
    by (rule resolveTCPEndpoint_sound [OF r]) (auto split: if_splits)
  then obtain host' where "splitHostPort ''[2001:db8::1]:443'' = Inr (host', ''443'')" using h by auto
  with r show ?thesis by simp
qed

end
