(* ===== verification/WireGuard.thy ===== *)
theory WireGuard
  imports Egress Config TcpBind Socks5Bind
begin

text \<open>
  \<open>wg.go\<close>: the WireGuard device of the program. Keys are decoded, the endpoint is checked or
  resolved, the configuration is written as text for wireguard-go, and the transport is chosen.
  The lemmas: a key survives its encodings, wireguard-go reads from the text exactly the
  configuration the program was given, and a device that cannot be started is not left behind.
\<close>

section \<open>Keys and endpoints\<close>

definition decodeKey :: "string \<Rightarrow> goerr + string" where
  "decodeKey k =
     (let k = trimSpace k in
      if k = '''' then Inl (Errorf ''empty key'' [])
      else case decodeString k of
             Inl e \<Rightarrow> Inl (Wrapf ''invalid base64 key: %w'' [] e)
           | Inr raw \<Rightarrow>
               if length raw \<noteq> 32 then Inl (Errorf ''key must decode to 32 bytes, got %d'' [AInt (int (length raw))])
               else Inr (hexEncode raw))"

definition validateEndpoint :: "string \<Rightarrow> goerr + string" where
  "validateEndpoint ep =
     (case splitHostPort ep of
        Inl e \<Rightarrow> Inl (Wrapf ''invalid endpoint %q: %w'' [AStr ep] e)
      | Inr (host, port) \<Rightarrow>
          if host = '''' then Inl (Errorf ''invalid endpoint %q: missing host'' [AStr ep])
          else (case parseUint16 port of
                  Inl e \<Rightarrow> Inl (Wrapf ''invalid endpoint %q: invalid port %q: %w'' [AStr ep, AStr port] e)
                | Inr _ \<Rightarrow> Inr ep))"

text \<open>\<open>net.LookupHost\<close>, the system's resolver, is an argument.\<close>

definition resolveEndpoint :: "(string \<Rightarrow> goerr + string list) \<Rightarrow> string \<Rightarrow> goerr + string" where
  "resolveEndpoint lookupHost ep =
     (case validateEndpoint ep of
        Inl e \<Rightarrow> Inl e
      | Inr _ \<Rightarrow>
          (let (host, port) = (case splitHostPort ep of Inl _ \<Rightarrow> ('''', '''') | Inr hp \<Rightarrow> hp) in
           if parseIP host \<noteq> None then Inr ep
           else (case lookupHost host of
                   Inl e \<Rightarrow> Inl (Wrapf ''resolve %s: %w'' [AStr host] e)
                 | Inr [] \<Rightarrow> Inl (Errorf ''no addresses for %s'' [AStr host])
                 | Inr (a # as) \<Rightarrow> Inr (joinHostPort a port))))"

definition chooseEndpoint :: "(string \<Rightarrow> goerr + string list) \<Rightarrow> config \<Rightarrow> goerr + string" where
  "chooseEndpoint lookupHost c =
     (if OuterSocks5 c \<noteq> '''' then validateEndpoint (WGEndpoint c)
      else if WGOverTCP c then resolveTCPEndpoint lookupHost (WGEndpoint c)
      else resolveEndpoint lookupHost (WGEndpoint c))"

section \<open>The configuration text\<close>

text \<open>One \<open>Fprintf\<close> to the builder.\<close>

definition line :: "string \<Rightarrow> string \<Rightarrow> string" where
  "line k v = k @ ''='' @ v @ [CHR 0x0A]"

definition ipcConfig :: "config \<Rightarrow> string \<Rightarrow> string \<Rightarrow> string \<Rightarrow> goerr + string" where
  "ipcConfig c priv pub endpoint =
     (let sb = line ''private_key'' priv @ line ''public_key'' pub in
      case (if WGPresharedKey c \<noteq> ''''
            then (case decodeKey (WGPresharedKey c) of
                    Inl e \<Rightarrow> Inl (Wrapf ''preshared_key: %w'' [] e)
                  | Inr psk \<Rightarrow> Inr (sb @ line ''preshared_key'' psk))
            else Inr sb) of
        Inl e \<Rightarrow> Inl e
      | Inr sb \<Rightarrow> Inr (sb @ line ''endpoint'' endpoint @
          (if WGPersistentKA c > 0 then line ''persistent_keepalive_interval'' (formatUint (nat (WGPersistentKA c))) else '''') @
          concat (map (\<lambda>p. line ''allowed_ip'' (prefix_string p)) (WGAllowedIPs c))))"

section \<open>The device\<close>

text \<open>The transports, by the constructors that make them.\<close>

datatype wg_transport =
    NewTCPBind string
  | NewTCPBindWithDialer string socks5_client
  | NewSocks5Bind socks5_client
  | NewDefaultBind

definition chooseBind :: "config \<Rightarrow> string \<Rightarrow> wg_transport" where
  "chooseBind c endpoint =
     (if WGOverTCP c then
        if OuterSocks5 c \<noteq> '''' then NewTCPBindWithDialer endpoint (newOuterSocks5Client (OuterSocks5 c))
        else NewTCPBind endpoint
      else if OuterSocks5 c \<noteq> '''' then NewSocks5Bind (newOuterSocks5Client (OuterSocks5 c))
      else NewDefaultBind)"

record wg_client =
  wgNet :: nat
  wgDevice :: "nat option"
  wgBind :: wg_transport \<comment> \<open>what the device was made with\<close>

text \<open>
  \<open>netstack.CreateNetTUN\<close> opens a userspace network stack, which the device owns from \<open>NewDevice\<close> on:
  closing the device closes it.
\<close>

definition openStack :: "kcall \<Rightarrow> nat act" where
  "openStack c = thenK (kdo c) (\<lambda>_. thenK freshId (\<lambda>i.
     thenK (modK (\<lambda>s. s\<lparr>tuns := insert i (tuns s)\<rparr>)) (\<lambda>_. retK i)))"

definition closeStack :: "nat \<Rightarrow> kern \<Rightarrow> kern" where
  "closeStack i s = s\<lparr>tuns := tuns s - {i}\<rparr>"

definition devClose :: "nat \<Rightarrow> nat \<Rightarrow> kern \<Rightarrow> kern" where
  "devClose dev tn = closeStack tn \<circ> release (WGDevice dev)"

definition newDevice :: "nat act" where
  "newDevice = thenK freshId (\<lambda>dev. thenK (modK (hold (WGDevice dev))) (\<lambda>_. retK dev))"

definition startWireGuard :: "(string \<Rightarrow> goerr + string list) \<Rightarrow> config \<Rightarrow> wg_client act" where
  "startWireGuard lookupHost c =
     (case parseAddr (NetnsResolvNameserver c) of
        Inl e \<Rightarrow> panicK ''netip.ParseAddr''
      | Inr dns \<Rightarrow>
          thenK (wrapK ''create wg netstack: %w'' []
            (openStack (NewNetTun (map addr_string (WGAddress c)) [addr_string dns] (WGMTU c)))) (\<lambda>tn.
          thenK (wrapK ''private_key: %w'' [] (liftK (decodeKey (WGPrivateKey c)))) (\<lambda>priv.
          thenK (wrapK ''public_key: %w'' [] (liftK (decodeKey (WGPublicKey c)))) (\<lambda>pub.
          thenK (liftK (chooseEndpoint lookupHost c)) (\<lambda>endpoint.
          thenK (liftK (ipcConfig c priv pub endpoint)) (\<lambda>sb.
          let bnd = chooseBind c endpoint in
          thenK newDevice (\<lambda>dev.
          thenK (onErrK (kdo (IpcSet dev sb)) (devClose dev tn) (Wrapf ''wg ipc set: %w'' [])) (\<lambda>_.
          thenK (onErrK (kdo (DevUp dev)) (devClose dev tn) (Wrapf ''wg up: %w'' [])) (\<lambda>_.
          retK \<lparr>wgNet = tn, wgDevice = Some dev, wgBind = bnd\<rparr>)))))))))"

text \<open>\<open>Close\<close>, on the structure (the pointer \<open>w\<close> may be nil) and on the system.\<close>

definition wgClose :: "wg_client option \<Rightarrow> kern \<Rightarrow> kern" where
  "wgClose w s = (case w of
     None \<Rightarrow> s
   | Some w \<Rightarrow> (case wgDevice w of None \<Rightarrow> s | Some dev \<Rightarrow> devClose dev (wgNet w) s))"

definition wgClosed :: "wg_client \<Rightarrow> wg_client" where
  "wgClosed w = w\<lparr>wgDevice := None\<rparr>"

section \<open>What a device holds\<close>

definition wgUses :: "wg_client \<Rightarrow> res multiset" where
  "wgUses w = (case wgDevice w of None \<Rightarrow> {#} | Some dev \<Rightarrow> {#WGDevice dev#})"

lemma devClose_frees: "frees (devClose dev tn) {#WGDevice dev#}"
  by (simp add: frees_def devClose_def closeStack_def)

lemma unch_held_openStack [unch_rules]: "unch held (openStack c)"
  unfolding openStack_def by (intro unch_rules) simp

lemma newDevice_owns: "owns {#} newDevice (\<lambda>dev. {#WGDevice dev#})"
  by (rule ownsI) (auto simp: newDevice_def freshId_def thenK_def)

lemma startWireGuard_owns: "owns {#} (startWireGuard lookupHost c) wgUses"
proof (cases "parseAddr (NetnsResolvNameserver c)")
  case (Inl e)
  then show ?thesis by (simp add: startWireGuard_def owns_panicK del: panicK_apply)
next
  case (Inr dns)
  have q: "owns {#WGDevice dev#} (onErrK (kdo x) (devClose dev tn) g) (\<lambda>_. {#WGDevice dev#})" for dev tn x g
    by (rule owns_onErrK [OF owns_quiet [OF unch_kdo_simps(1)] devClose_frees]) simp
  have l: "owns {#} (onErrK (liftK r) id g) (\<lambda>_. {#})" "owns {#} (liftK r) (\<lambda>_. {#})" for r :: "goerr + 'b" and g
    by (intro owns_quiet unch_rules; simp)+
  show ?thesis unfolding startWireGuard_def Inr sum.case Let_def
  proof (intro owns_thenK)
    show "owns {#} (onErrK (openStack x) id g) (\<lambda>_. {#})" for x g by (intro owns_quiet unch_rules) simp
    show "owns {#WGDevice dev#} (retK \<lparr>wgNet = tn, wgDevice = Some dev, wgBind = b\<rparr>) wgUses" for tn dev b
      by (rule owns_retK) (simp add: wgUses_def)
  qed (rule q l newDevice_owns)+
qed

interpretation wireguard: managed "startWireGuard lookupHost c" "\<lambda>w. wgClose (Some w)" wgUses for lookupHost c
proof unfold_locales
  show "owns {#} (startWireGuard lookupHost c) wgUses" by (rule startWireGuard_owns)
  show "frees (wgClose (Some w)) (wgUses w)" for w
    using devClose_frees by (auto simp: frees_def wgClose_def wgUses_def split: option.split)
qed

section \<open>Keys\<close>

definition asciiSpace :: "char \<Rightarrow> bool" where
  "asciiSpace c \<longleftrightarrow> ord c \<in> {9, 10, 11, 12, 13, 32 :: nat}"

lemma space_encs_ascii:
  assumes "e \<in> set space_encs"
  shows "asciiSpace (hd e) \<Longrightarrow> e = [hd e]" "asciiSpace (last e) \<Longrightarrow> e = [last e]"
proof -
  have "list_all (\<lambda>e. length e = 1 \<or> \<not> asciiSpace (hd e) \<and> \<not> asciiSpace (last e)) space_encs" by code_simp
  then have "length e = 1 \<or> \<not> asciiSpace (hd e) \<and> \<not> asciiSpace (last e)" using assms by (simp add: list_all_iff)
  then show "asciiSpace (hd e) \<Longrightarrow> e = [hd e]" "asciiSpace (last e) \<Longrightarrow> e = [last e]"
    by (cases e; cases "tl e"; simp)+
qed

lemma asciiSpace_enc: "asciiSpace c \<Longrightarrow> [c] \<in> set space_encs"
proof -
  assume "asciiSpace c"
  then have "ord c \<in> {9, 10, 11, 12, 13, 32 :: nat}" by (simp add: asciiSpace_def)
  then have "enc_rune (ord c) \<in> set space_encs" unfolding space_encs_def space_runes_def set_map by (intro imageI) auto
  moreover have "enc_rune (ord c) = [c]" using \<open>ord c \<in> _\<close> by (auto simp: enc_rune_def)
  ultimately show ?thesis by simp
qed

lemma lead_space_ascii: "asciiSpace c \<Longrightarrow> lead_space (c # s) = Some [c]"
proof -
  assume c: "asciiSpace c"
  obtain e where e: "lead_space (c # s) = Some e"
    using asciiSpace_enc [OF c] by (cases "lead_space (c # s)") (auto simp: lead_space_def find_None_iff is_prefix_def)
  then have m: "e \<in> set space_encs" "is_prefix e (c # s)"
    by (auto simp: lead_space_def find_Some_iff in_set_conv_nth)
  have "e \<noteq> []" using space_enc_ends [OF m(1)] by simp
  then have "hd e = c" using m(2) unfolding is_prefix_def by (metis hd_take length_greater_0_conv list.sel(1))
  then show ?thesis using space_encs_ascii(1) [OF m(1)] c e by simp
qed

lemma tail_space_ascii: "asciiSpace c \<Longrightarrow> tail_space (s @ [c]) = Some [c]"
proof -
  assume c: "asciiSpace c"
  obtain e where e: "tail_space (s @ [c]) = Some e"
    using asciiSpace_enc [OF c] by (cases "tail_space (s @ [c])") (auto simp: tail_space_def find_None_iff is_prefix_def)
  then have m: "e \<in> set space_encs" "is_prefix (rev e) (c # rev s)"
    by (auto simp: tail_space_def find_Some_iff in_set_conv_nth)
  have "rev e \<noteq> []" using space_enc_ends [OF m(1)] by simp
  then have "hd (rev e) = c" using m(2) unfolding is_prefix_def by (metis hd_take length_greater_0_conv list.sel(1))
  then have "last e = c" by (simp add: hd_rev)
  then show ?thesis using space_encs_ascii(2) [OF m(1)] c e by simp
qed

text \<open>White space around a text that has none at its ends.\<close>

lemma trimSpace_pad:
  assumes "list_all asciiSpace a" "list_all asciiSpace b" "s \<noteq> []" "graphic (hd s)" "graphic (last s)"
  shows "trimSpace (a @ s @ b) = s"
proof -
  have "trim_left (a @ s @ b) = s @ b" using assms(1)
  proof (induction a)
    case Nil
    then show ?case using assms(3,4) by (simp add: trim_left.simps [of "s @ b"] lead_space_graphic)
  next
    case (Cons c a)
    then show ?case by (simp add: trim_left.simps [of "c # a @ s @ b"] lead_space_ascii)
  qed
  moreover have "trim_right (s @ b) = s" using assms(2)
  proof (induction b rule: rev_induct)
    case Nil
    then show ?case using assms(3,5) by (simp add: trim_right.simps [of s] tail_space_graphic)
  next
    case (snoc c b)
    then show ?case using tail_space_ascii [of c "s @ b"] by (simp add: trim_right.simps [of "s @ b @ [c]"])
  qed
  ultimately show ?thesis by (simp add: trimSpace_def)
qed

lemma b64chr_graphic: "v < 64 \<Longrightarrow> graphic (b64chr v)"
proof -
  have "list_all graphic b64chars" by code_simp
  moreover have "length b64chars = 64" by code_simp
  ultimately show "v < 64 \<Longrightarrow> graphic (b64chr v)" by (simp add: b64chr_def list_all_length)
qed

lemma b64encode_graphic: "list_all graphic (b64encode bs)"
  by (induction bs rule: b64encode.induct) (simp_all add: b64chr_graphic six_bounds, simp_all add: graphic_def)

text \<open>The inverse of \<open>hex.EncodeToString\<close>.\<close>

fun hexDecode :: "string \<Rightarrow> bytes" where
  "hexDecode (a # b # s) = word_of_nat (hex_val a * 16 + hex_val b) # hexDecode s"
| "hexDecode s = []"

lemma hexDecode_encode: "hexDecode (hexEncode bs) = bs"
proof (induction bs)
  case (Cons b bs)
  have "unat b div 16 < 16" "unat b mod 16 < 16" using byte_less_256 [of b] by auto
  then show ?case using Cons by (simp add: hexEncode_def mult.commute)
qed (simp add: hexEncode_def)

section \<open>What wireguard-go reads\<close>

text \<open>
  The configuration protocol: lines \<open>key=value\<close>, up to an empty one; the scanner drops a carriage
  return before a line break.
\<close>

definition dropCR :: "string \<Rightarrow> string" where
  "dropCR l = (if l \<noteq> [] \<and> last l = CHR 0x0D then butlast l else l)"

definition cutEq :: "string \<Rightarrow> string \<times> string" where
  "cutEq l = (takeWhile (\<lambda>c. c \<noteq> CHR ''='') l, tl (dropWhile (\<lambda>c. c \<noteq> CHR ''='') l))"

definition ipcRead :: "string \<Rightarrow> (string \<times> string) list" where
  "ipcRead s = map cutEq (takeWhile (\<lambda>l. l \<noteq> '''') (map dropCR (split_on CHR 0x0A s)))"

definition plainText :: "string \<Rightarrow> bool" where
  "plainText s \<longleftrightarrow> CHR 0x0A \<notin> set s \<and> CHR 0x0D \<notin> set s"

lemma ipcRead_Nil: "ipcRead '''' = []"
  by (simp add: ipcRead_def dropCR_def)

lemma ipcRead_line:
  assumes "plainText k" "plainText v" "CHR ''='' \<notin> set k"
  shows "ipcRead (line k v @ s) = (k, v) # ipcRead s"
proof -
  let ?l = "k @ CHR ''='' # v"
  have n: "CHR 0x0A \<notin> set ?l" using assms by (simp add: plainText_def)
  have "last ?l \<noteq> CHR 0x0D"
  proof (cases "v = []")
    case False
    then show ?thesis using assms(2) last_in_set [OF False] unfolding plainText_def by (metis last_ConsR last_appendR list.discI)
  qed simp
  then have "dropCR ?l = ?l" by (simp add: dropCR_def)
  moreover have "cutEq ?l = (k, v)"
    unfolding cutEq_def using assms(3) by (subst takeWhile_append2, blast, subst dropWhile_append2, blast) simp
  ultimately show ?thesis using split_on_append [OF n, of s] by (simp add: ipcRead_def line_def)
qed

lemma ipcRead_lines:
  assumes "\<forall>v \<in> set vs. plainText (f v)" "plainText k" "CHR ''='' \<notin> set k"
  shows "ipcRead (concat (map (\<lambda>v. line k (f v)) vs)) = map (\<lambda>v. (k, f v)) vs"
  using assms(1) by (induction vs) (simp_all add: ipcRead_Nil ipcRead_line assms(2,3))

lemma is_hex_plain: "list_all is_hex s \<Longrightarrow> plainText s"
  by (auto simp: list_all_iff plainText_def is_hex_def is_digit_def)

lemma formatUint_plain: "plainText (formatUint n)"
  using formatUint_digits [of n] by (auto simp: plainText_def list_all_iff is_digit_def)

lemma prefix_string_plain: "wfPrefix p \<Longrightarrow> plainText (prefix_string p)"
proof -
  assume p: "wfPrefix p"
  have d: "is_digit CHR 0x0A = False" "is_digit CHR 0x0D = False" "is_hex CHR 0x0A = False" "is_hex CHR 0x0D = False" by code_simp+
  have "plainText (addr_string (fst p))"
    using p d set_ipv4_string set_groups_string
    by (cases "fst p") (fastforce simp: wfPrefix_def plainText_def ipv6_string_def)+
  then show ?thesis using formatUint_plain by (simp add: prefix_string_def plainText_def)
qed

lemma decodeKey_hex: "decodeKey k = Inr h \<Longrightarrow> list_all is_hex h \<and> length h = 64"
  by (auto simp: decodeKey_def Let_def hexEncode_hex split: if_splits sum.splits)

lemma splitHostPort_sub: "splitHostPort ep = Inr (host, port) \<Longrightarrow> set host \<subseteq> set ep \<and> set port \<subseteq> set ep"
  by (cases "ep = []")
    (auto simp: splitHostPort_def index_byte_def last_index_byte_def has_byte_def Let_def
      split: option.splits if_splits dest!: in_set_takeD in_set_dropD list.set_sel(2) [rotated])

text \<open>What the endpoint is made of.\<close>

lemma chooseEndpoint_plain:
  assumes "chooseEndpoint lookupHost c = Inr ep" "plainText (WGEndpoint c)"
    and "\<And>h as a. lookupHost h = Inr as \<Longrightarrow> a \<in> set as \<Longrightarrow> plainText a"
  shows "plainText ep"
proof -
  have j: "plainText (joinHostPort a port)" if "splitHostPort (WGEndpoint c) = Inr (host, port)" "plainText a" for host port a
    using splitHostPort_sub [OF that(1)] that(2) assms(2) by (auto simp: joinHostPort_def plainText_def)
  show ?thesis
    using assms j unfolding chooseEndpoint_def validateEndpoint_def resolveEndpoint_def resolveTCPEndpoint_def Let_def
    by (auto split: if_splits sum.splits prod.splits list.splits)
qed

lemma ipcConfig_read:
  assumes "ipcConfig c priv pub ep = Inr sb" "list_all is_hex priv" "list_all is_hex pub" "plainText ep"
    and "\<forall>p \<in> set (WGAllowedIPs c). wfPrefix p"
  shows "ipcRead sb = [(''private_key'', priv), (''public_key'', pub)] @
     (if WGPresharedKey c = '''' then [] else [(''preshared_key'', projr (decodeKey (WGPresharedKey c)))]) @
     [(''endpoint'', ep)] @
     (if WGPersistentKA c > 0 then [(''persistent_keepalive_interval'', formatUint (nat (WGPersistentKA c)))] else []) @
     map (\<lambda>p. (''allowed_ip'', prefix_string p)) (WGAllowedIPs c)"
proof -
  have k: "ipcRead (line ''private_key'' v @ s) = (''private_key'', v) # ipcRead s"
    "ipcRead (line ''public_key'' v @ s) = (''public_key'', v) # ipcRead s"
    "ipcRead (line ''preshared_key'' v @ s) = (''preshared_key'', v) # ipcRead s"
    "ipcRead (line ''endpoint'' v @ s) = (''endpoint'', v) # ipcRead s"
    "ipcRead (line ''persistent_keepalive_interval'' v @ s) = (''persistent_keepalive_interval'', v) # ipcRead s"
    if "plainText v" for v s
    by (rule ipcRead_line, code_simp, rule that, code_simp)+
  have a: "ipcRead (concat (map (\<lambda>p. line ''allowed_ip'' (prefix_string p)) (WGAllowedIPs c))) =
      map (\<lambda>p. (''allowed_ip'', prefix_string p)) (WGAllowedIPs c)"
    by (rule ipcRead_lines) (use assms(5) prefix_string_plain in \<open>auto simp: plainText_def\<close>)
  have psk: "plainText h" if "decodeKey (WGPresharedKey c) = Inr h" for h
    using decodeKey_hex [OF that] is_hex_plain by blast
  show ?thesis
    using assms(1) is_hex_plain [OF assms(2)] is_hex_plain [OF assms(3)] assms(4) psk
    by (auto simp: ipcConfig_def Let_def k a formatUint_plain split: if_splits sum.splits)
qed

lemma startWireGuard_Ok:
  assumes "startWireGuard lookupHost c s = (Ok w, s')"
  obtains priv pub ep sb dev where
    "decodeKey (WGPrivateKey c) = Inr priv" "decodeKey (WGPublicKey c) = Inr pub" "chooseEndpoint lookupHost c = Inr ep"
    "ipcConfig c priv pub ep = Inr sb" "wgDevice w = Some dev" "wgBind w = chooseBind c ep"
    "did s' = did s @ [(curNet s, curMnt s, NewNetTun (map addr_string (WGAddress c)) [addr_string (projr (parseAddr (NetnsResolvNameserver c)))] (WGMTU c))] @
       [(curNet s, curMnt s, IpcSet dev sb), (curNet s, curMnt s, DevUp dev)]"
proof -
  obtain dns where d: "parseAddr (NetnsResolvNameserver c) = Inr dns"
    using assms by (cases "parseAddr (NetnsResolvNameserver c)") (simp_all add: startWireGuard_def)
  note Ok = assms [unfolded startWireGuard_def d sum.case Let_def]
  from Ok show thesis
    by (elim thenK_OkE onErrK_OkE, intro that)
      (auto simp: openStack_def newDevice_def freshId_def hold_def d place_def elim!: thenK_OkE dest!: kdo_Ok)
qed

lemma decodeKey_trimmed:
  assumes "length raw = 32" "list_all asciiSpace a" "list_all asciiSpace b"
  shows "decodeKey (a @ b64encode raw @ b) = Inr (hexEncode raw)"
proof -
  have n: "b64encode raw \<noteq> []" using assms(1) by (cases raw rule: b64encode.cases) auto
  then have "graphic (hd (b64encode raw))" "graphic (last (b64encode raw))"
    using b64encode_graphic [of raw] by (auto simp: list_all_iff)
  then have "trimSpace (a @ b64encode raw @ b) = b64encode raw" using trimSpace_pad [OF assms(2,3) n] by blast
  then show ?thesis using n assms(1) by (simp add: decodeKey_def Let_def)
qed

section \<open>Properties\<close>

text \<open>
  C19: a 32-byte key survives its encodings. The base64 text of a key, with any ASCII white space
  around it, is decoded to the hexadecimal text of the same key; whatever is accepted is 64
  hexadecimal digits; and the key can be read back from them.
\<close>

theorem decodeKey_roundtrip:
  assumes "length raw = 32" "list_all asciiSpace a" "list_all asciiSpace b"
  shows "decodeKey (a @ b64encode raw @ b) = Inr (hexEncode raw) \<and> hexDecode (hexEncode raw) = raw \<and>
    (decodeKey k = Inr h \<longrightarrow> list_all is_hex h \<and> length h = 64)"
  using decodeKey_trimmed [OF assms] decodeKey_hex by (simp add: hexDecode_encode)

theorem decodeKey_roundtrip_witness:
  "decodeKey ('' '' @ b64encode (replicate 32 0xA5) @ [CHR 0x0A]) = Inr (hexEncode (replicate 32 0xA5))"
  using decodeKey_roundtrip [of "replicate 32 0xA5" "'' ''" "[CHR 0x0A]"] by (simp add: asciiSpace_def)


lemma startWireGuard_runs:
  assumes "parseAddr (NetnsResolvNameserver c) = Inr dns" "decodeKey (WGPrivateKey c) = Inr priv" "decodeKey (WGPublicKey c) = Inr pub"
    and "chooseEndpoint lookupHost c = Inr ep" "ipcConfig c priv pub ep = Inr sb"
  shows "runs (startWireGuard lookupHost c)"
proof -
  have l: "liftK (Inr x) = retK x" for x :: "'b" by (rule ext) simp
  have q: "runs (openStack x)" "runs newDevice" for x
    unfolding openStack_def newDevice_def by (intro runs_rules; simp add: hold_def)+
  have e: "onErrK (retK x) id g = retK x" for x :: string and g by (rule ext) simp
  show ?thesis
    unfolding startWireGuard_def assms sum.case l e thenK_retK Let_def by (intro runs_rules q)
qed

definition sampleWG :: config where
  "sampleWG = emptyConfig\<lparr>WGEndpoint := ''192.0.2.1:51820'', WGPrivateKey := b64encode (replicate 32 7), WGPublicKey := b64encode (replicate 32 9),
     WGPersistentKA := 25, NetnsResolvNameserver := ''1.1.1.1'', WGAllowedIPs := [(A4 [10, 0, 0, 0], 8)]\<rparr>"


text \<open>
  \<open>validateEndpoint\<close> lets a line break in the host pass, and then the text has more lines than the
  program wrote.
\<close>

lemma endpoint_injects_lines:
  "let ep = ''a'' @ [CHR 0x0A] @ ''allowed_ip=0.0.0.0/0'' @ [CHR 0x0A] @ ''b:51820'' in
   validateEndpoint ep = Inr ep \<and>
   ipcRead (line ''endpoint'' ep) = [(''endpoint'', ''a''), (''allowed_ip'', ''0.0.0.0/0''), (''b:51820'', '''')]"
  by code_simp

text \<open>A nameserver that is not an address, which \<open>finalize\<close> does not check, is a panic.\<close>

lemma startWireGuard_panics:
  "parseAddr (NetnsResolvNameserver c) = Inl e \<Longrightarrow> startWireGuard lookupHost c s = (Crashed ''netip.ParseAddr'', s)"
  by (simp add: startWireGuard_def)

text \<open>A key that does not decode leaves the userspace stack open.\<close>

lemma bad_key_leaves_stack:
  assumes "parseAddr (NetnsResolvNameserver c) = Inr dns" "decodeKey (WGPrivateKey c) = Inl e" "outcomes s = []" "fresh s \<notin> tuns s"
  shows "\<exists>s'. startWireGuard lookupHost c s = (Err (Wrapf ''private_key: %w'' [] e), s') \<and> tuns s' = insert (fresh s) (tuns s)"
  using assms by (simp add: startWireGuard_def openStack_def kdo_def logCall_def freshId_def thenK_def onErrK_def)

end
