(* ===== verification/Warp.thy ===== *)
theory Warp
  imports WireGuard
begin

text \<open>
  \<open>warp.go\<close> and \<open>warpready.go\<close>: the WARP daemon, started in the first namespace with two capabilities and
  its output read into the log, the client program that registers and connects it, tried a
  bounded number of times, and the wait until the routes go through its interface. The lemmas:
  a daemon that does not start leaves no descriptor, one that does has the two capabilities and
  no others, the retries are counted exactly, and the wait ends.
\<close>

section \<open>Log lines\<close>

datatype level = DebugLevel | InfoLevel | WarnLevel | ErrorLevel

definition inferRustLevel :: "string \<Rightarrow> level" where
  "inferRustLevel l =
     (if contains_str l '' ERROR '' then ErrorLevel
      else if contains_str l '' WARN '' then WarnLevel
      else if contains_str l '' INFO '' then InfoLevel
      else DebugLevel)"

text \<open>\<open>ansiRE\<close>: escape, bracket, digits and semicolons, a letter. A match is removed from left to right.\<close>

definition isParam :: "char \<Rightarrow> bool" where
  "isParam c \<longleftrightarrow> is_digit c \<or> c = CHR '';''"

definition isLetter :: "char \<Rightarrow> bool" where
  "isLetter c \<longleftrightarrow> 65 \<le> ord c \<and> ord c \<le> 90 \<or> 97 \<le> ord c \<and> ord c \<le> 122"

definition ansiAt :: "string \<Rightarrow> string option" where
  "ansiAt s = (case s of
     a # b # r \<Rightarrow>
       if a = CHR 0x1B \<and> b = CHR ''['' then
         (case dropWhile isParam r of c # r' \<Rightarrow> if isLetter c then Some r' else None | [] \<Rightarrow> None)
       else None
   | _ \<Rightarrow> None)"

lemma ansiAt_shorter: "ansiAt s = Some r \<Longrightarrow> length r < length s"
proof -
  assume "ansiAt s = Some r"
  then obtain a b t c where s: "s = a # b # t" "dropWhile isParam t = c # r"
    by (auto simp: ansiAt_def split: list.splits if_splits)
  have "length (dropWhile isParam t) \<le> length t" by (rule length_dropWhile_le)
  then show ?thesis using s by simp
qed

function stripAnsi :: "string \<Rightarrow> string" where
  "stripAnsi s = (case ansiAt s of
     Some r \<Rightarrow> stripAnsi r
   | None \<Rightarrow> (case s of [] \<Rightarrow> [] | c # cs \<Rightarrow> c # stripAnsi cs))"
  by pat_completeness auto
termination
  by (relation "measure length") (auto dest: ansiAt_shorter)

declare stripAnsi.simps [simp del]

text \<open>\<open>strings.TrimRight(s, cutset)\<close> for an ASCII cutset.\<close>

definition trimRight :: "string \<Rightarrow> string \<Rightarrow> string" where
  "trimRight s cutset = rev (dropWhile (\<lambda>c. c \<in> set cutset) (rev s))"

text \<open>
  \<open>bufio.Scanner\<close> with \<open>ScanLines\<close> and a buffer of at most \<open>maxTok\<close> bytes, on everything the reader
  delivers: the tokens up to the first line that does not fit, which ends the scan. A last
  line without a line break counts if it is not empty.
\<close>

definition scanLines :: "nat \<Rightarrow> string \<Rightarrow> string list" where
  "scanLines maxTok s =
     (let ls = split_on CHR 0x0A s; ls = (if last ls = [] then butlast ls else ls)
      in map dropCR (takeWhile (\<lambda>l. length l < maxTok) ls))"

definition streamSubprocessLogs :: "string \<Rightarrow> (level \<times> string) list" where
  "streamSubprocessLogs s =
     concat (map (\<lambda>raw.
        let clean = trimRight (stripAnsi raw) ('' '' @ [CHR 0x09, CHR 0x0D]) in
        if clean = '''' then [] else [(inferRustLevel clean, clean)])
      (scanLines 1048576 s))"

definition logSubprocessBuffer :: "string \<Rightarrow> (level \<times> string) list" where
  "logSubprocessBuffer buf = (if buf = '''' then [] else streamSubprocessLogs buf)"

section \<open>The daemon\<close>

definition CAP_NET_BIND_SERVICE :: int where "CAP_NET_BIND_SERVICE = 10"
definition CAP_NET_ADMIN :: int where "CAP_NET_ADMIN = 12"

text \<open>\<open>restrictCurrentThreadCaps\<close> on the thread that runs.\<close>

definition restrictK :: "uint64 \<Rightarrow> unit act" where
  "restrictK msk = (\<lambda>s. case restrictCurrentThreadCaps (capsHost s) msk (capsOf s (curTid s)) of
     (r, t) \<Rightarrow> (Returned r, s\<lparr>capsOf := (capsOf s)(curTid s := t)\<rparr>))"

definition openPipe :: "(nat \<times> nat) act" where
  "openPipe = thenK (kdo OpenPipe) (\<lambda>_. thenK freshId (\<lambda>r. thenK freshId (\<lambda>w.
     thenK (modK (hold (Fd w) \<circ> hold (Fd r))) (\<lambda>_. retK (r, w)))))"

text \<open>\<open>c.Start()\<close>: the child starts with the capabilities of the thread.\<close>

definition startProc :: "procattr \<Rightarrow> nat act" where
  "startProc attr = (\<lambda>s. kopen (StartProc attr (capsOf s (curTid s))) Child s)"

text \<open>The running daemon, with the two pipe ends the log readers own. They close them when it exits.\<close>

record warp_proc =
  pid :: nat
  outR :: nat
  errR :: nat

definition readLogs :: "nat \<Rightarrow> nat \<Rightarrow> kern \<Rightarrow> kern" where
  "readLogs fd p = hold (LogEnd fd p) \<circ> release (Fd fd)"

definition warpSvcAttr :: "string list \<Rightarrow> procattr" where
  "warpSvcAttr parts = \<lparr>argv = parts, penv = warpCommandEnv, pdeathsig = True, setpgid = True, foreground = False,
     ambientCaps = [CAP_NET_ADMIN, CAP_NET_BIND_SERVICE]\<rparr>"

definition warpSvcBody :: "string list \<Rightarrow> nat act" where
  "warpSvcBody parts =
     thenK (restrictK (capMask [CAP_NET_ADMIN, CAP_NET_BIND_SERVICE])) (\<lambda>_. startProc (warpSvcAttr parts))"

definition startWarpSvc :: "netns \<Rightarrow> string \<Rightarrow> warp_proc option act" where
  "startWarpSvc ns raw =
     (let raw = trimSpace raw in
      if raw = '''' then retK None
      else
        thenK (liftK (splitArgs raw)) (\<lambda>parts.
        thenK (wrapK ''open /dev/null: %w'' [] (kopen (OpenFile ''/dev/null'') Fd)) (\<lambda>devNull.
        thenK (onErrK openPipe (release (Fd devNull)) (Wrapf ''pipe(stdout): %w'' [])) (\<lambda>(stdoutR, stdoutW).
        thenK (onErrK openPipe (release (Fd devNull) \<circ> release (Fd stdoutW) \<circ> release (Fd stdoutR))
                (Wrapf ''pipe(stderr): %w'' [])) (\<lambda>(stderrR, stderrW).
        thenK (onErrK (netnsRunOnAnchor ns (warpSvcBody parts))
                (release (Fd devNull) \<circ> release (Fd stderrR) \<circ> release (Fd stdoutR) \<circ> release (Fd stderrW) \<circ> release (Fd stdoutW))
                (Wrapf ''start warp-svc: %w'' [])) (\<lambda>p.
        thenK (modK (release (Fd devNull) \<circ> readLogs stderrR p \<circ> readLogs stdoutR p \<circ> release (Fd stderrW) \<circ> release (Fd stdoutW))) (\<lambda>_.
        retK (Some \<lparr>pid = p, outR = stdoutR, errR = stderrR\<rparr>))))))))"

text \<open>Killing it: the process is reaped and its pipes reach their end.\<close>

definition killWarpSvc :: "warp_proc option \<Rightarrow> kern \<Rightarrow> kern" where
  "killWarpSvc p s = (case p of
     None \<Rightarrow> s
   | Some p \<Rightarrow> (release (LogEnd (errR p) (pid p)) \<circ> release (LogEnd (outR p) (pid p)) \<circ> release (Child (pid p))) s)"

section \<open>The client program\<close>

text \<open>
  One attempt: \<open>run\<close> is the \<open>Run\<close> of the interface \<open>warpCommandNamespace\<close>. The result is \<open>(err, runErr)\<close>:
  what \<open>Run\<close> returned, and what the command returned if it was run at all.
\<close>

definition cliAttempt ::
    "((goerr + unit) act \<Rightarrow> (goerr + unit) act) \<Rightarrow> string \<Rightarrow> string list \<Rightarrow> (goerr option \<times> goerr option) act" where
  "cliAttempt run cli args =
     thenK (tryK (run (tryK (kdo (RunProc (cli # args) warpCommandEnv))))) (\<lambda>r. retK (case r of
       Inl e \<Rightarrow> (Some e, None)
     | Inr (Inl e) \<Rightarrow> (Some e, Some e)
     | Inr (Inr _) \<Rightarrow> (None, None)))"

text \<open>
  The loop \<open>for i := 0; i < retries; i++\<close>: the body returns nothing if the function is to return nil,
  and \<open>lastErr\<close> otherwise. \<open>k\<close> rounds are left.
\<close>

fun retryLoop :: "(nat \<Rightarrow> goerr option act) \<Rightarrow> int \<Rightarrow> goerr \<Rightarrow> nat \<Rightarrow> nat \<Rightarrow> goerr option \<Rightarrow> unit act" where
  "retryLoop body delay none 0 i lastErr = failK (case lastErr of None \<Rightarrow> none | Some e \<Rightarrow> e)"
| "retryLoop body delay none (Suc k) i lastErr =
     thenK (body i) (\<lambda>r. case r of
       None \<Rightarrow> retK ()
     | Some e \<Rightarrow> thenK (modK (logCall (Sleep delay))) (\<lambda>_. retryLoop body delay none k (Suc i) (Some e)))"

text \<open>\<open>fmt.Errorf("...%w", err)\<close> for an \<open>err\<close> that may be nil, which is printed as \<open>%!w(<nil>)\<close>.\<close>

definition wrapErr :: "string \<Rightarrow> garg list \<Rightarrow> goerr option \<Rightarrow> goerr" where
  "wrapErr f as e = (case e of Some e \<Rightarrow> Wrapf f as e | None \<Rightarrow> Errorf f as)"

text \<open>\<open>out i\<close> is what the command of attempt \<open>i\<close> wrote, to stdout and stderr; nothing if it did not run.\<close>

definition alreadyRegistered :: "(rune \<Rightarrow> rune) \<Rightarrow> string \<times> string \<Rightarrow> bool" where
  "alreadyRegistered ulow o2 =
     (let combined = toLower ulow (snd o2 @ fst o2) in
      contains_str combined ''already registered'' \<or> contains_str combined ''registration already'' \<or>
      contains_str combined ''old registration is still around'')"

definition registerAttempt ::
    "(rune \<Rightarrow> rune) \<Rightarrow> (nat \<Rightarrow> string \<times> string) \<Rightarrow> ((goerr + unit) act \<Rightarrow> (goerr + unit) act) \<Rightarrow> string \<Rightarrow> nat \<Rightarrow> goerr option act" where
  "registerAttempt ulow out run cli i =
     thenK (cliAttempt run cli [''--accept-tos'', ''registration'', ''new'']) (\<lambda>(err, runErr). retK (
       if err = None \<and> runErr = None then None
       else if runErr \<noteq> None \<and> alreadyRegistered ulow (out i) then None
       else Some (wrapErr ''warp-cli registration: %w'' [] runErr)))"

definition registerWarp ::
    "(rune \<Rightarrow> rune) \<Rightarrow> (nat \<Rightarrow> string \<times> string) \<Rightarrow> ((goerr + unit) act \<Rightarrow> (goerr + unit) act) \<Rightarrow> string \<Rightarrow> int \<Rightarrow> int \<Rightarrow> unit act" where
  "registerWarp ulow out run cli retries delaySeconds =
     (let cli = trimSpace cli in
      if cli = '''' then retK ()
      else retryLoop (registerAttempt ulow out run cli) delaySeconds (Errorf ''warp-cli registration: no attempts'' []) (nat retries) 0 None)"

definition protocolAttempt :: "((goerr + unit) act \<Rightarrow> (goerr + unit) act) \<Rightarrow> string \<Rightarrow> string \<Rightarrow> nat \<Rightarrow> goerr option act" where
  "protocolAttempt run cli protocol i =
     (let args = [''--accept-tos'', ''tunnel'', ''protocol'', ''set'', protocol] in
      thenK (cliAttempt run cli args) (\<lambda>(err, runErr). retK (
       if err = None \<and> runErr = None then None
       else if err \<noteq> None then Some (wrapErr ''warp-cli %v: %w'' [AStrs args] err)
       else Some (wrapErr ''warp-cli %v failed: %w'' [AStrs args] runErr))))"

definition setWarpTunnelProtocol ::
    "((goerr + unit) act \<Rightarrow> (goerr + unit) act) \<Rightarrow> string \<Rightarrow> string \<Rightarrow> int \<Rightarrow> int \<Rightarrow> unit act" where
  "setWarpTunnelProtocol run cli protocol retries delaySeconds =
     (let cli = trimSpace cli; protocol = trimSpace protocol in
      if cli = '''' then retK () else if protocol = '''' then retK ()
      else retryLoop (protocolAttempt run cli protocol) delaySeconds (Errorf ''warp-cli tunnel protocol set: no attempts made'' []) (nat retries) 0 None)"

definition connectAttempt :: "((goerr + unit) act \<Rightarrow> (goerr + unit) act) \<Rightarrow> string \<Rightarrow> nat \<Rightarrow> goerr option act" where
  "connectAttempt run cli i =
     (let args = [''--accept-tos'', ''connect''] in
      thenK (cliAttempt run cli args) (\<lambda>(err, runErr). retK (
       if err = None \<and> runErr = None then None
       else Some (wrapErr ''warp-cli %v failed: %w'' [AStrs args] runErr))))"

definition connectWarp :: "((goerr + unit) act \<Rightarrow> (goerr + unit) act) \<Rightarrow> string \<Rightarrow> int \<Rightarrow> int \<Rightarrow> unit act" where
  "connectWarp run cli retries delaySeconds =
     (let cli = trimSpace cli in
      if cli = '''' then retK ()
      else retryLoop (connectAttempt run cli) delaySeconds (Errorf ''warp-cli connect: no attempts made'' []) (nat retries) 0 None)"

section \<open>Waiting for the routes\<close>

text \<open>
  What the wait sees: the readings of the clock in nanoseconds (the first sets the deadline,
  one follows each poll), and at each poll the interfaces of the routes the kernel returns and
  their names, and whether the context is done before the next poll, with its error.
\<close>

record ready_env =
  clock :: "nat \<Rightarrow> int"
  routesAt :: "nat \<Rightarrow> nat list"
  linkName :: "nat \<Rightarrow> nat \<Rightarrow> string"
  doneAt :: "nat \<Rightarrow> goerr option"

definition probeRoute :: "ready_env \<Rightarrow> netns \<Rightarrow> nat \<Rightarrow> string act" where
  "probeRoute env ns i = netnsRun ns (
     thenK (kdo (RouteGet ''1.1.1.1'')) (\<lambda>_.
     case routesAt env i of
       [] \<Rightarrow> failK (Errorf ''no route to %s'' [AStr ''1.1.1.1''])
     | r # _ \<Rightarrow> thenK (wrapK ''link by index %d: %w'' [AInt (int r)] (kdo (LinkByIndex r))) (\<lambda>_. retK (linkName env i r))))"

definition pollEvery :: int where
  "pollEvery = 250 * 1000000"

text \<open>The loop, which runs until the clock passes the deadline.\<close>

partial_function (option) waitLoop ::
    "ready_env \<Rightarrow> netns \<Rightarrow> string \<Rightarrow> int \<Rightarrow> int \<Rightarrow> nat \<Rightarrow> string \<Rightarrow> kern \<Rightarrow> (unit outcome \<times> kern) option" where
  "waitLoop env ns expectedIface timeout deadline i lastIface s =
     (case tryK (probeRoute env ns i) s of
        (Crashed p, s') \<Rightarrow> Some (Crashed p, s')
      | (Returned (Inl e), s') \<Rightarrow> Some (Err e, s')
      | (Returned (Inr r), s') \<Rightarrow>
          if r = Inr expectedIface then Some (Ok (), s')
          else
            let lastIface = (case r of Inl _ \<Rightarrow> lastIface | Inr iface \<Rightarrow> iface) in
            if \<not> clock env (Suc i) < deadline then
              Some (Err (case r of
                  Inl e \<Rightarrow> Wrapf ''warp not ready after %s: %w'' [AInt timeout] e
                | Inr _ \<Rightarrow> Errorf ''warp not ready after %s: route still via %q (expected %q)'' [AInt timeout, AStr lastIface, AStr expectedIface]), s')
            else
              (case doneAt env i of
                 Some e \<Rightarrow> Some (Err e, s')
               | None \<Rightarrow> waitLoop env ns expectedIface timeout deadline (Suc i) lastIface s'))"

definition waitForWarpRoute :: "ready_env \<Rightarrow> netns \<Rightarrow> string \<Rightarrow> int \<Rightarrow> kern \<Rightarrow> (unit outcome \<times> kern) option" where
  "waitForWarpRoute env ns expectedIface timeout s =
     waitLoop env ns expectedIface timeout (clock env 0 + timeout) 0 '''' s"

section \<open>What the daemon holds\<close>

definition procUses :: "warp_proc option \<Rightarrow> res multiset" where
  "procUses p = (case p of None \<Rightarrow> {#} | Some p \<Rightarrow> {#Child (pid p), LogEnd (outR p) (pid p), LogEnd (errR p) (pid p)#})"

lemma openPipe_owns: "owns {#} openPipe (\<lambda>(r, w). {#Fd r, Fd w#})"
  unfolding openPipe_def
proof (intro owns_thenK)
  show "owns {#} (kdo OpenPipe) (\<lambda>_. {#})" "owns {#} freshId (\<lambda>_. {#})" "owns {#} freshId (\<lambda>_. {#})"
    by (intro owns_quiet unch_rules)+
  show "owns {#} (modK (hold (Fd w) \<circ> hold (Fd r))) (\<lambda>_. {#Fd r, Fd w#})" for r w by (rule ownsI) auto
  show "owns {#Fd r, Fd w#} (retK (r, w)) (\<lambda>(r, w). {#Fd r, Fd w#})" for r w by (rule owns_retK) simp
qed

lemma unch_restrictK [unch_rules]: "unch held (restrictK msk)" "unch place (restrictK msk)" "unch tuns (restrictK msk)"
  by (auto simp: unch_def restrictK_def place_def split: prod.split)

lemma startProc_owns: "owns {#} (startProc attr) (\<lambda>p. {#Child p#})"
  unfolding startProc_def by (rule owns_state [OF owns_kopen])

lemma netnsRunOnAnchor_owns: "owns {#} m B \<Longrightarrow> owns {#} (netnsRunOnAnchor n m) B"
  unfolding netnsRunOnAnchor_def
  by (cases "stopped n") (auto intro!: owns_failK owns_onThread owns_thenK [where B = "\<lambda>_. {#}"] owns_quiet unch_modK simp del: failK_apply)

lemma warpSvcBody_owns: "owns {#} (warpSvcBody parts) (\<lambda>p. {#Child p#})"
  unfolding warpSvcBody_def
  by (rule owns_thenK [where B = "\<lambda>_. {#}"]) (intro owns_quiet unch_rules startProc_owns)+

lemma frees_releases:
  "frees h A \<Longrightarrow> B = add_mset r A \<Longrightarrow> frees (h \<circ> release r) B"
  by (rule frees_comp_eq [OF frees_release]) simp_all

text \<open>From the innermost block of \<open>StartWarpSvc\<close> outwards.\<close>

lemma warpSvc_run_owns:
  "owns {#Fd r2, Fd w2, Fd r1, Fd w1, Fd n#}
     (thenK (onErrK (netnsRunOnAnchor ns (warpSvcBody parts))
        (release (Fd n) \<circ> release (Fd r2) \<circ> release (Fd r1) \<circ> release (Fd w2) \<circ> release (Fd w1)) g) (\<lambda>p.
      thenK (modK (release (Fd n) \<circ> readLogs r2 p \<circ> readLogs r1 p \<circ> release (Fd w2) \<circ> release (Fd w1))) (\<lambda>_.
      retK (Some \<lparr>pid = p, outR = r1, errR = r2\<rparr>)))) procUses"
proof (rule owns_thenK)
  have "frees (release (Fd n) \<circ> release (Fd r2) \<circ> release (Fd r1) \<circ> release (Fd w2) \<circ> release (Fd w1)) {#Fd r2, Fd w2, Fd r1, Fd w1, Fd n#}"
    by (rule frees_releases, rule frees_releases, rule frees_releases, rule frees_releases, rule frees_release) (auto simp: add_mset_commute)
  then show "owns {#Fd r2, Fd w2, Fd r1, Fd w1, Fd n#} (onErrK (netnsRunOnAnchor ns (warpSvcBody parts))
      (release (Fd n) \<circ> release (Fd r2) \<circ> release (Fd r1) \<circ> release (Fd w2) \<circ> release (Fd w1)) g)
      (\<lambda>p. {#Child p, Fd r2, Fd w2, Fd r1, Fd w1, Fd n#})"
    by (rule owns_onErrK [OF netnsRunOnAnchor_owns [OF warpSvcBody_owns]]) simp
  fix p
  show "owns {#Child p, Fd r2, Fd w2, Fd r1, Fd w1, Fd n#}
     (thenK (modK (release (Fd n) \<circ> readLogs r2 p \<circ> readLogs r1 p \<circ> release (Fd w2) \<circ> release (Fd w1))) (\<lambda>_.
      retK (Some \<lparr>pid = p, outR = r1, errR = r2\<rparr>))) procUses"
  proof (rule ownsI, goal_cases)
    case (1 s x s')
    then obtain M where M: "held s = {#Child p, Fd r2, Fd w2, Fd r1, Fd w1, Fd n#} + M"
      by (metis subset_mset.le_iff_add)
    show ?case using 1 M by (auto simp: readLogs_def procUses_def add_mset_commute)
  qed simp
qed

lemma startWarpSvc_owns: "owns {#} (startWarpSvc ns raw) procUses"
proof -
  have p1: "owns {#Fd n#} (onErrK openPipe (release (Fd n)) g) (\<lambda>(r, w). {#Fd r, Fd w, Fd n#})" for n g
    by (rule owns_onErrK [OF openPipe_owns frees_release]) (simp split: prod.split)
  have "frees (release (Fd n) \<circ> release (Fd w1) \<circ> release (Fd r1)) {#Fd r1, Fd w1, Fd n#}" for n w1 r1
    by (rule frees_releases, rule frees_releases, rule frees_release) (auto simp: add_mset_commute)
  then have p2: "owns {#Fd r1, Fd w1, Fd n#} (onErrK openPipe (release (Fd n) \<circ> release (Fd w1) \<circ> release (Fd r1)) g)
      (\<lambda>(r, w). {#Fd r, Fd w, Fd r1, Fd w1, Fd n#})" for n w1 r1 g
    by (rule owns_onErrK [OF openPipe_owns]) (simp split: prod.split)
  have m: "owns (case q of (r, w) \<Rightarrow> B r w) (case q of (r, w) \<Rightarrow> f r w) procUses"
    if "\<And>r w. owns (B r w) (f r w) procUses" for q B and f :: "nat \<Rightarrow> nat \<Rightarrow> warp_proc option act"
    using that by (cases q) simp
  have o: "owns {#} (wrapK ''open /dev/null: %w'' [] (kopen (OpenFile ''/dev/null'') Fd)) (\<lambda>n. {#Fd n#})"
    by (rule owns_onErrK [OF owns_kopen frees_id(1)]) simp
  have l: "owns {#} (liftK r) (\<lambda>_. {#})" for r :: "goerr + string list" by (intro owns_quiet unch_rules)
  show ?thesis
  proof (cases "trimSpace raw = ''''")
    case True
    then show ?thesis by (auto simp: startWarpSvc_def procUses_def intro!: owns_retK simp del: retK_apply)
  next
    case False
    show ?thesis unfolding startWarpSvc_def Let_def if_not_P [OF False]
      by (rule owns_thenK [OF l], rule owns_thenK [OF o], rule owns_thenK [OF p1], rule m,
          rule owns_thenK [OF p2], rule m, rule warpSvc_run_owns)
  qed
qed

lemma killWarpSvc_frees: "frees (killWarpSvc p) (procUses p)"
proof (cases p)
  case (Some q)
  have "frees (release (LogEnd (errR q) (pid q)) \<circ> release (LogEnd (outR q) (pid q)) \<circ> release (Child (pid q))) (procUses p)"
    by (rule frees_releases, rule frees_releases, rule frees_release) (auto simp: Some procUses_def)
  then show ?thesis by (simp add: frees_def killWarpSvc_def Some)
qed (simp add: frees_def killWarpSvc_def procUses_def)

interpretation warp_svc: managed "startWarpSvc ns raw" killWarpSvc procUses for ns raw
  by unfold_locales (rule startWarpSvc_owns, rule killWarpSvc_frees)

section \<open>Attempts\<close>

text \<open>The commands that succeeded and the pauses, with the network namespace of each.\<close>

fun isWork :: "kcall \<Rightarrow> bool" where
  "isWork (RunProc a e) = True"
| "isWork (Sleep d) = True"
| "isWork c = False"

definition work :: "kern \<Rightarrow> (nat \<times> kcall) list" where
  "work s = map (\<lambda>(n, m, c). (n, c)) (filter (\<lambda>(n, m, c). isWork c) (did s))"

text \<open>
  The contract of \<open>warpCommandNamespace\<close>: a command that is run is run in the namespace \<open>n\<close>, and the
  caller stays where it is and holds what it held.
\<close>

definition cmdStep :: "(kern \<Rightarrow> nat) \<Rightarrow> (nat \<times> kcall) list \<Rightarrow> kern \<Rightarrow> kern \<Rightarrow> bool" where
  "cmdStep n w s s' \<longleftrightarrow> work s' = work s @ w \<and> n s' = n s \<and> held s' = held s \<and> tuns s' = tuns s \<and> place s' = place s"

locale command_ns =
  fixes run :: "(goerr + unit) act \<Rightarrow> (goerr + unit) act" and n :: "kern \<Rightarrow> nat"
  assumes run_returns: "\<exists>r s'. run (tryK (kdo (RunProc a e))) s = (Returned r, s') \<and>
      cmdStep n (if r = Inr (Inr ()) then [(n s, RunProc a e)] else []) s s'"
    and n_log: "n (logCall c s) = n s"
begin

lemma cliAttempt_step:
  "\<exists>err runErr s'. cliAttempt run cli args s = (Ok (err, runErr), s') \<and> (err = None \<longrightarrow> runErr = None) \<and>
     cmdStep n (if err = None then [(n s, RunProc (cli # args) warpCommandEnv)] else []) s s'"
proof -
  obtain r s' where r: "run (tryK (kdo (RunProc (cli # args) warpCommandEnv))) s = (Returned r, s')"
    "cmdStep n (if r = Inr (Inr ()) then [(n s, RunProc (cli # args) warpCommandEnv)] else []) s s'"
    using run_returns by blast
  show ?thesis using r unfolding cliAttempt_def by (cases r) (auto simp: thenK_def tryK_def split: sum.splits)
qed

text \<open>A loop whose failed rounds leave nothing but a pause.\<close>

lemma retryLoop_steps:
  assumes body: "\<And>i s. \<exists>q w s'. body i s = (Ok q, s') \<and> cmdStep n w s s' \<and> (case q of None \<Rightarrow> good (n s) i w | Some e \<Rightarrow> w = [])"
  shows "case retryLoop body delay none k i lastErr s of
       (Returned (Inr _), s') \<Rightarrow> \<exists>j < k. \<exists>w. good (n s) (i + j) w \<and> cmdStep n (replicate j (curNet s, Sleep delay) @ w) s s'
     | (Returned (Inl e), s') \<Rightarrow> cmdStep n (replicate k (curNet s, Sleep delay)) s s' \<and> (k = 0 \<longrightarrow> e = (case lastErr of None \<Rightarrow> none | Some e \<Rightarrow> e))
     | (Crashed p, s') \<Rightarrow> False"
proof (induction k arbitrary: i lastErr s)
  case 0
  then show ?case by (simp add: cmdStep_def)
next
  case (Suc k)
  obtain q w s1 where b: "body i s = (Ok q, s1)" "cmdStep n w s s1" "case q of None \<Rightarrow> good (n s) i w | Some e \<Rightarrow> w = []"
    using body by blast
  show ?case
  proof (cases q)
    case None
    then show ?thesis using b by (auto intro!: exI [of _ 0])
  next
    case (Some e)
    let ?s2 = "logCall (Sleep delay) s1"
    have st: "cmdStep n [(curNet s, Sleep delay)] s ?s2" "curNet ?s2 = curNet s" "n ?s2 = n s"
      using b Some n_log [of "Sleep delay" s1] by (auto simp: cmdStep_def work_def logCall_def place_def)
    have tr: "cmdStep n (x # w) s s'" if "cmdStep n w ?s2 s'" "cmdStep n [x] s ?s2" for x w s' using that by (simp add: cmdStep_def)
    have r: "retryLoop body delay none (Suc k) i lastErr s = retryLoop body delay none k (Suc i) (Some e) ?s2" using b Some by simp
    show ?thesis using Suc.IH [where i = "Suc i" and lastErr = "Some e" and s = ?s2] tr [OF _ st(1)] st(2,3) unfolding r
      by (fastforce split: prod.splits outcome.splits sum.splits)
  qed
qed

end

lemma netnsRun_command:
  "\<exists>r s'. netnsRun ns (tryK (kdo (RunProc a e))) s = (Returned r, s') \<and>
      cmdStep (\<lambda>s. nsOf s (fdNum (NetFD ns))) (if r = Inr (Inr ()) then [(nsOf s (fdNum (NetFD ns)), RunProc a e)] else []) s s'"
  unfolding netnsRun_def spawn_def onThread_def setnsMnt_def setnsNet_def
  by (auto simp: freshId_def thenK_def onErrK_def tryK_def kdo_def logCall_def cmdStep_def work_def place_def
      split: list.splits option.splits)

interpretation cli: command_ns "netnsRun ns" "\<lambda>s. nsOf s (fdNum (NetFD ns))" for ns
  by unfold_locales (rule netnsRun_command, simp add: logCall_def)

definition ranCli :: "string \<Rightarrow> string list \<Rightarrow> nat \<Rightarrow> nat \<Rightarrow> (nat \<times> kcall) list \<Rightarrow> bool" where
  "ranCli cli args n i w \<longleftrightarrow> w = [(n, RunProc (cli # args) warpCommandEnv)]"

lemma attempt_bodies:
  fixes ns
  defines "n \<equiv> \<lambda>s. nsOf s (fdNum (NetFD ns))"
  shows "\<exists>q w s'. connectAttempt (netnsRun ns) cli i s = (Ok q, s') \<and> cmdStep n w s s' \<and>
      (case q of None \<Rightarrow> ranCli cli [''--accept-tos'', ''connect''] (n s) i w | Some e \<Rightarrow> w = [])"
    and "\<exists>q w s'. protocolAttempt (netnsRun ns) cli pr i s = (Ok q, s') \<and> cmdStep n w s s' \<and>
      (case q of None \<Rightarrow> ranCli cli [''--accept-tos'', ''tunnel'', ''protocol'', ''set'', pr] (n s) i w | Some e \<Rightarrow> w = [])"
    and "\<exists>q w s'. registerAttempt ulow out (netnsRun ns) cli i s = (Ok q, s') \<and> cmdStep n w s s' \<and>
      (case q of None \<Rightarrow> ranCli cli [''--accept-tos'', ''registration'', ''new''] (n s) i w \<or> w = [] \<and> alreadyRegistered ulow (out i)
       | Some e \<Rightarrow> w = [])"
  using cli.cliAttempt_step [of ns cli "[''--accept-tos'', ''connect'']" s]
    cli.cliAttempt_step [of ns cli "[''--accept-tos'', ''tunnel'', ''protocol'', ''set'', pr]" s]
    cli.cliAttempt_step [of ns cli "[''--accept-tos'', ''registration'', ''new'']" s]
  unfolding n_def connectAttempt_def protocolAttempt_def registerAttempt_def ranCli_def Let_def
  by (auto split: if_splits)

section \<open>Properties\<close>

text \<open>
  C15: the retries of the client program are counted exactly. With a command to run,
  \<open>ConnectWarp\<close>, \<open>SetWarpTunnelProtocol\<close> and \<open>RegisterWarp\<close> return nil after some number \<open>j\<close> of failed attempts,
  smaller than the number of retries: \<open>j\<close> pauses, then one successful run of \<open>warp-cli\<close> with the
  documented arguments inside the namespace (for a registration, or a failed run whose output says
  that there is one already). They return an error only after all attempts have failed, each
  followed by a pause. Nothing is leaked either way.
\<close>

theorem warp_cli_retries:
  fixes ns
  defines "n \<equiv> \<lambda>s. nsOf s (fdNum (NetFD ns))"
  assumes "trimSpace cli \<noteq> ''''" "trimSpace pr \<noteq> ''''"
  shows "(case connectWarp (netnsRun ns) cli retries delay s of
      (Returned (Inr _), s') \<Rightarrow> \<exists>j < nat retries. cmdStep n (replicate j (curNet s, Sleep delay) @
         [(n s, RunProc [trimSpace cli, ''--accept-tos'', ''connect''] warpCommandEnv)]) s s'
    | (Returned (Inl e), s') \<Rightarrow> cmdStep n (replicate (nat retries) (curNet s, Sleep delay)) s s'
    | (Crashed p, s') \<Rightarrow> False) \<and>
    (case setWarpTunnelProtocol (netnsRun ns) cli pr retries delay s of
      (Returned (Inr _), s') \<Rightarrow> \<exists>j < nat retries. cmdStep n (replicate j (curNet s, Sleep delay) @
         [(n s, RunProc [trimSpace cli, ''--accept-tos'', ''tunnel'', ''protocol'', ''set'', trimSpace pr] warpCommandEnv)]) s s'
    | (Returned (Inl e), s') \<Rightarrow> cmdStep n (replicate (nat retries) (curNet s, Sleep delay)) s s'
    | (Crashed p, s') \<Rightarrow> False) \<and>
    (case registerWarp ulow out (netnsRun ns) cli retries delay s of
      (Returned (Inr _), s') \<Rightarrow> \<exists>j < nat retries. \<exists>w. cmdStep n (replicate j (curNet s, Sleep delay) @ w) s s' \<and>
         (w = [(n s, RunProc [trimSpace cli, ''--accept-tos'', ''registration'', ''new''] warpCommandEnv)] \<or>
          w = [] \<and> alreadyRegistered ulow (out j))
    | (Returned (Inl e), s') \<Rightarrow> cmdStep n (replicate (nat retries) (curNet s, Sleep delay)) s s'
    | (Crashed p, s') \<Rightarrow> False)"
proof (intro conjI)
  let ?register = "\<lambda>n i w. ranCli (trimSpace cli) [''--accept-tos'', ''registration'', ''new''] n i w \<or> w = [] \<and> alreadyRegistered ulow (out i)"
  note loop = cli.retryLoop_steps [where ns = ns and delay = delay and k = "nat retries" and i = 0 and lastErr = None and s = s]
  show "case connectWarp (netnsRun ns) cli retries delay s of
      (Returned (Inr _), s') \<Rightarrow> \<exists>j < nat retries. cmdStep n (replicate j (curNet s, Sleep delay) @
         [(n s, RunProc [trimSpace cli, ''--accept-tos'', ''connect''] warpCommandEnv)]) s s'
    | (Returned (Inl e), s') \<Rightarrow> cmdStep n (replicate (nat retries) (curNet s, Sleep delay)) s s'
    | (Crashed p, s') \<Rightarrow> False"
    using loop [where body = "connectAttempt (netnsRun ns) (trimSpace cli)" and good = "ranCli (trimSpace cli) [''--accept-tos'', ''connect'']"
        and none = "Errorf ''warp-cli connect: no attempts made'' []", OF attempt_bodies(1)]
    unfolding connectWarp_def Let_def if_not_P [OF assms(2)] n_def ranCli_def
    by (simp split: prod.splits outcome.splits sum.splits)
  show "case setWarpTunnelProtocol (netnsRun ns) cli pr retries delay s of
      (Returned (Inr _), s') \<Rightarrow> \<exists>j < nat retries. cmdStep n (replicate j (curNet s, Sleep delay) @
         [(n s, RunProc [trimSpace cli, ''--accept-tos'', ''tunnel'', ''protocol'', ''set'', trimSpace pr] warpCommandEnv)]) s s'
    | (Returned (Inl e), s') \<Rightarrow> cmdStep n (replicate (nat retries) (curNet s, Sleep delay)) s s'
    | (Crashed p, s') \<Rightarrow> False"
    using loop [where body = "protocolAttempt (netnsRun ns) (trimSpace cli) (trimSpace pr)"
        and good = "ranCli (trimSpace cli) [''--accept-tos'', ''tunnel'', ''protocol'', ''set'', trimSpace pr]"
        and none = "Errorf ''warp-cli tunnel protocol set: no attempts made'' []", OF attempt_bodies(2)]
    unfolding setWarpTunnelProtocol_def Let_def if_not_P [OF assms(2)] if_not_P [OF assms(3)] n_def ranCli_def
    by (simp split: prod.splits outcome.splits sum.splits)
  show "case registerWarp ulow out (netnsRun ns) cli retries delay s of
      (Returned (Inr _), s') \<Rightarrow> \<exists>j < nat retries. \<exists>w. cmdStep n (replicate j (curNet s, Sleep delay) @ w) s s' \<and>
         (w = [(n s, RunProc [trimSpace cli, ''--accept-tos'', ''registration'', ''new''] warpCommandEnv)] \<or>
          w = [] \<and> alreadyRegistered ulow (out j))
    | (Returned (Inl e), s') \<Rightarrow> cmdStep n (replicate (nat retries) (curNet s, Sleep delay)) s s'
    | (Crashed p, s') \<Rightarrow> False"
    using loop [where body = "registerAttempt ulow out (netnsRun ns) (trimSpace cli)" and good = ?register
        and none = "Errorf ''warp-cli registration: no attempts'' []", OF attempt_bodies(3)]
    unfolding registerWarp_def Let_def if_not_P [OF assms(2)] n_def ranCli_def
    by (simp split: prod.splits outcome.splits sum.splits) blast
qed

theorem warp_cli_retries_witness:
  "\<exists>s'. connectWarp (netnsRun sampleNS) ''warp-cli'' 3 2 startKern = (Ok (), s') \<and>
     (\<exists>j < 3. work s' = replicate j (1, Sleep 2) @ [(0, RunProc [''warp-cli'', ''--accept-tos'', ''connect''] warpCommandEnv)])"
proof -
  have t: "trimSpace ''warp-cli'' = ''warp-cli''" "trimSpace ''MASQUE'' = ''MASQUE''" by code_simp+
  have "(case connectWarp (netnsRun sampleNS) ''warp-cli'' 3 2 startKern of (Returned (Inr t), s') \<Rightarrow> True | _ \<Rightarrow> False)" by code_simp
  then obtain s' where ok: "connectWarp (netnsRun sampleNS) ''warp-cli'' 3 2 startKern = (Ok (), s')"
    by (cases "connectWarp (netnsRun sampleNS) ''warp-cli'' 3 2" startKern rule: act_cases) auto
  have k: "nsOf startKern m = 0" "curNet startKern = 1" "work startKern = []" for m by (simp_all add: startKern_def work_def)
  have "nat 3 = 3" by simp
  with ok conjunct1 [OF warp_cli_retries [where cli = "''warp-cli''" and pr = "''MASQUE''" and ns = sampleNS and retries = 3 and delay = 2
      and s = startKern, unfolded t]] show ?thesis
    by (auto simp: cmdStep_def k)
qed

lemma probeRoute_step:
  "\<exists>r s'. probeRoute env ns i s = (Returned r, s') \<and> held s' = held s \<and> tuns s' = tuns s \<and> place s' = place s \<and> nsOf s' = nsOf s \<and>
     (\<forall>iface. r = Inr iface \<longrightarrow> (\<exists>x xs m. routesAt env i = x # xs \<and> iface = linkName env i x \<and>
        last (did s') = (nsOf s (fdNum (NetFD ns)), m, LinkByIndex x)))"
  unfolding probeRoute_def netnsRun_def spawn_def onThread_def setnsMnt_def setnsNet_def
  by (auto simp: freshId_def thenK_def onErrK_def kdo_def logCall_def place_def split: list.splits option.splits)

text \<open>How a wait that begins at poll \<open>i\<close> ends, if the deadline has passed at poll \<open>i + m\<close>.\<close>

definition waited :: "ready_env \<Rightarrow> netns \<Rightarrow> string \<Rightarrow> int \<Rightarrow> nat \<Rightarrow> nat \<Rightarrow> kern \<Rightarrow> unit outcome \<Rightarrow> kern \<Rightarrow> bool" where
  "waited env ns expected deadline i m s r s' \<longleftrightarrow>
     held s' = held s \<and> tuns s' = tuns s \<and> place s' = place s \<and>
     (\<exists>j \<ge> i. j \<le> i + m \<and>
       (case r of
          Crashed p \<Rightarrow> False
        | Returned (Inr _) \<Rightarrow> (\<exists>x xs mnt. routesAt env j = x # xs \<and> linkName env j x = expected \<and>
            last (did s') = (nsOf s (fdNum (NetFD ns)), mnt, LinkByIndex x))
        | Returned (Inl e) \<Rightarrow> deadline \<le> clock env (Suc j) \<or> doneAt env j = Some e))"

lemma waited_here:
  assumes "held s' = held s" "tuns s' = tuns s" "place s' = place s"
    and "\<forall>iface. r = Inr iface \<longrightarrow> (\<exists>x xs m. routesAt env i = x # xs \<and> iface = linkName env i x \<and>
        last (did s') = (nsOf s (fdNum (NetFD ns)), m, LinkByIndex x))"
    and "r = Inr expected \<and> q = Ok () \<or> (\<exists>e. q = Err e \<and> (deadline \<le> clock env (Suc i) \<or> doneAt env i = Some e))"
  shows "waited env ns expected deadline i m s q s'"
proof -
  have "case q of Crashed p \<Rightarrow> False
     | Returned (Inr _) \<Rightarrow> (\<exists>x xs mnt. routesAt env i = x # xs \<and> linkName env i x = expected \<and>
            last (did s') = (nsOf s (fdNum (NetFD ns)), mnt, LinkByIndex x))
     | Returned (Inl e) \<Rightarrow> deadline \<le> clock env (Suc i) \<or> doneAt env i = Some e"
    using assms(4,5) by auto
  with assms(1-3) show ?thesis unfolding waited_def by (intro conjI exI [where x = i]) simp_all
qed

lemma waitLoop_ends:
  assumes "deadline \<le> clock env (Suc (i + m))"
  shows "\<exists>r s'. waitLoop env ns expected timeout deadline i l s = Some (r, s') \<and> waited env ns expected deadline i m s r s'"
  using assms
proof (induction m arbitrary: i l s)
  case (0 i l s)
  obtain r s' where p: "probeRoute env ns i s = (Returned r, s')" "held s' = held s" "tuns s' = tuns s" "place s' = place s"
    "\<forall>iface. r = Inr iface \<longrightarrow> (\<exists>x xs m. routesAt env i = x # xs \<and> iface = linkName env i x \<and>
        last (did s') = (nsOf s (fdNum (NetFD ns)), m, LinkByIndex x))" using probeRoute_step by blast
  then have t: "tryK (probeRoute env ns i) s = (Ok r, s')" by (simp add: tryK_def)
  note here = waited_here [OF p(2-5)]
  from 0 have d: "\<not> clock env (Suc i) < deadline" by simp
  show ?case
  proof (cases "r = Inr expected")
    case True
    then show ?thesis using here [where q = "Ok ()" and expected = expected] t by (subst waitLoop.simps) simp
  next
    case False
    then show ?thesis using here [where expected = expected] d t by (subst waitLoop.simps) (simp add: Let_def)
  qed
next
  case (Suc m i l s)
  obtain r s' where p: "probeRoute env ns i s = (Returned r, s')" "held s' = held s" "tuns s' = tuns s" "place s' = place s" "nsOf s' = nsOf s"
    "\<forall>iface. r = Inr iface \<longrightarrow> (\<exists>x xs m. routesAt env i = x # xs \<and> iface = linkName env i x \<and>
        last (did s') = (nsOf s (fdNum (NetFD ns)), m, LinkByIndex x))" using probeRoute_step by blast
  then have t: "tryK (probeRoute env ns i) s = (Ok r, s')" by (simp add: tryK_def)
  note here = waited_here [OF p(2-4,6)]
  have later: "\<exists>q s''. waitLoop env ns expected timeout deadline (Suc i) l' s' = Some (q, s'') \<and> waited env ns expected deadline i (Suc m) s q s''" for l'
  proof -
    obtain q s'' where w: "waitLoop env ns expected timeout deadline (Suc i) l' s' = Some (q, s'')"
      "waited env ns expected deadline (Suc i) m s' q s''" using Suc.IH [of "Suc i"] Suc.prems by fastforce
    then obtain j where j: "j \<ge> Suc i" "j \<le> Suc i + m" and c: "case q of Crashed p \<Rightarrow> False
        | Returned (Inr _) \<Rightarrow> (\<exists>x xs mnt. routesAt env j = x # xs \<and> linkName env j x = expected \<and>
            last (did s'') = (nsOf s' (fdNum (NetFD ns)), mnt, LinkByIndex x))
        | Returned (Inl e) \<Rightarrow> deadline \<le> clock env (Suc j) \<or> doneAt env j = Some e" unfolding waited_def by blast
    have "held s'' = held s" "tuns s'' = tuns s" "place s'' = place s" using w(2) p(2-4) by (simp_all add: waited_def)
    then have "waited env ns expected deadline i (Suc m) s q s''"
      using j unfolding waited_def by (intro conjI exI [where x = j], simp_all add: c [unfolded p(5)])
    with w(1) show ?thesis by blast
  qed
  show ?case
  proof (cases "r = Inr expected")
    case True
    then show ?thesis using here [where q = "Ok ()" and expected = expected] t by (subst waitLoop.simps) simp
  next
    case False
    then show ?thesis using here later t by (subst waitLoop.simps) (auto simp: Let_def split: option.split)
  qed
qed

text \<open>A clock that advances by the poll interval passes the deadline after \<open>timeout / 250 ms\<close> polls.\<close>

lemma clock_passes:
  assumes "clock env 0 \<le> clock env 1" "\<And>i. clock env (Suc i) + pollEvery \<le> clock env (Suc (Suc i))"
  shows "clock env 0 + timeout \<le> clock env (Suc (0 + nat ((timeout + pollEvery - 1) div pollEvery)))"
proof -
  have c: "clock env 0 + pollEvery * int m \<le> clock env (Suc m)" for m
  proof (induction m)
    case (Suc m)
    then show ?case using assms(2) [of m] by (simp add: algebra_simps)
  qed (use assms(1) in simp)
  have "timeout \<le> pollEvery * int (nat ((timeout + pollEvery - 1) div pollEvery))" unfolding pollEvery_def by simp linarith
  with c [of "nat ((timeout + pollEvery - 1) div pollEvery)"] show ?thesis by simp
qed

text \<open>
  C14: the wait for the routes ends, and means what it says. If at least a poll interval passes
  between two readings of the clock, \<open>WaitForWarpRoute\<close> returns after at most \<open>timeout / 250 ms\<close>, rounded up, polls
  more than the first, holding what it held; it returns nil only when the last thing it did was to look up, in
  the namespace, the interface of the first route to the probed address, and that was the one expected; and it
  returns an error only when the deadline had passed or with the error of the cancelled context.
\<close>

theorem waitForWarpRoute_ends:
  assumes "clock env 0 \<le> clock env 1" "\<And>i. clock env (Suc i) + pollEvery \<le> clock env (Suc (Suc i))"
  shows "\<exists>r s'. waitForWarpRoute env ns expected timeout s = Some (r, s') \<and>
     held s' = held s \<and> tuns s' = tuns s \<and> place s' = place s \<and>
     (\<exists>j \<le> nat ((timeout + pollEvery - 1) div pollEvery).
       (case r of
          Crashed p \<Rightarrow> False
        | Returned (Inr _) \<Rightarrow> (\<exists>x xs mnt. routesAt env j = x # xs \<and> linkName env j x = expected \<and>
            last (did s') = (nsOf s (fdNum (NetFD ns)), mnt, LinkByIndex x))
        | Returned (Inl e) \<Rightarrow> clock env 0 + timeout \<le> clock env (Suc j) \<or> doneAt env j = Some e))"
  using waitLoop_ends [OF clock_passes [OF assms, of timeout], where ns = ns and expected = expected and l = "''''" and s = s]
  unfolding waitForWarpRoute_def waited_def by auto

definition sampleReady :: ready_env where
  "sampleReady = \<lparr>clock = (\<lambda>i. pollEvery * int i), routesAt = (\<lambda>i. [9, 4]), linkName = (\<lambda>i x. if i < 3 then ''tun0'' else ''CloudflareWARP''),
     doneAt = (\<lambda>_. None)\<rparr>"

theorem waitForWarpRoute_ends_witness:
  "\<exists>r s'. waitForWarpRoute sampleReady sampleNS ''CloudflareWARP'' 5000000000 startKern = Some (r, s') \<and> held s' = {#} \<and> (\<forall>p. r \<noteq> Crashed p)"
proof -
  have "clock sampleReady 0 \<le> clock sampleReady 1" "\<And>i. clock sampleReady (Suc i) + pollEvery \<le> clock sampleReady (Suc (Suc i))"
    by (simp_all add: sampleReady_def pollEvery_def algebra_simps)
  from waitForWarpRoute_ends [OF this, of sampleNS "''CloudflareWARP''" 5000000000 startKern] show ?thesis
    by (fastforce simp: startKern_def split: outcome.splits)
qed

section \<open>The capabilities of the daemon\<close>

text \<open>
  What a program that root executes may have, as \<open>capabilities(7)\<close> documents it: the inheritable and
  the bounding set, the file's sets being full.
\<close>

definition execRoot :: "thread_caps \<Rightarrow> int set" where
  "execRoot t = inheritable t \<union> bounding t"

definition capsView :: "kern \<Rightarrow> (nat \<Rightarrow> thread_caps) \<times> caps_env" where
  "capsView s = (capsOf s, capsHost s)"

lemma capsView_hold [simp]: "capsView (hold r s) = capsView s" "capsView (release r s) = capsView s" "capsView (s\<lparr>fresh := n\<rparr>) = capsView s"
  by (simp_all add: capsView_def hold_def release_def)

lemma unch_capsView [unch_rules]: "unch capsView (kdo c)" "unch capsView freshId" "unch capsView (kopen c mk)" "unch capsView openPipe"
proof -
  show k: "unch capsView (kdo c)" for c by (rule unch_kdo) (simp_all add: capsView_def)
  show f: "unch capsView freshId" by (simp add: unch_def freshId_def)
  show "unch capsView (kopen c mk)" unfolding kopen_def by (intro unch_rules k f; simp)
  show "unch capsView openPipe" unfolding openPipe_def by (intro unch_rules k f; simp)
qed

text \<open>Where the daemon is started.\<close>

lemma startWarpSvc_body:
  assumes "startWarpSvc ns raw s = (Ok (Some p), s')"
  obtains parts s1 s2 where "splitArgs (trimSpace raw) = Inr parts" "netnsRunOnAnchor ns (warpSvcBody parts) s1 = (Ok (pid p), s2)"
    "capsView s1 = capsView s" "did s' = did s2" "capsOf s' = capsOf s2"
proof -
  have ne: "trimSpace raw \<noteq> ''''" using assms by (auto simp: startWarpSvc_def)
  from assms [unfolded startWarpSvc_def Let_def if_not_P [OF ne]]
  obtain parts s0 n sa r1 w1 sb r2 w2 s1 q s2 where
    1: "liftK (splitArgs (trimSpace raw)) s = (Ok parts, s0)" "kopen (OpenFile ''/dev/null'') Fd s0 = (Ok n, sa)"
    "openPipe sa = (Ok (r1, w1), sb)" "openPipe sb = (Ok (r2, w2), s1)" "netnsRunOnAnchor ns (warpSvcBody parts) s1 = (Ok q, s2)"
    and 2: "p = \<lparr>pid = q, outR = r1, errR = r2\<rparr>" "did s' = did s2" "capsOf s' = capsOf s2"
    by (auto simp: readLogs_def hold_def release_def elim!: thenK_OkE onErrK_OkE)
  have "capsView sa = capsView s0" by (rule unchD [OF unch_capsView(3) 1(2)])
  moreover have "capsView sb = capsView sa" by (rule unchD [OF unch_capsView(4) 1(3)])
  moreover have "capsView s1 = capsView sb" by (rule unchD [OF unch_capsView(4) 1(4)])
  moreover have "s0 = s" "splitArgs (trimSpace raw) = Inr parts" using 1(1) by auto
  ultimately show thesis using that [of parts s1 s2] 1(5) 2 by simp
qed

text \<open>
  C10: the daemon runs with \<open>CAP_NET_ADMIN\<close> and \<open>CAP_NET_BIND_SERVICE\<close> and can have no other capability. When
  \<open>StartWarpSvc\<close> starts it, it is started inside the namespace of the anchor thread, with the command line given, by a
  thread whose effective, permitted and inheritable sets are these two and whose bounding set has
  nothing else, so that no program it executes as root gains more; it asks for no ambient
  capability besides. Under what \<open>prctl(2)\<close> documents: the bounding set holds capabilities up to the
  kernel's last one, and \<open>EINVAL\<close> is only returned for a capability the kernel does not have.
\<close>

theorem warpSvc_confined:
  assumes "startWarpSvc ns raw s = (Ok (Some p), s')"
    and "bounding (capsOf s (anchorTid ns)) \<subseteq> {0..kernelLastCap (lastCapFile (capsHost s))}"
    and "\<And>cap e. cap \<in> bounding (capsOf s (anchorTid ns)) \<Longrightarrow> dropFails (capsHost s) cap = Some e \<Longrightarrow> \<not> errors_is e EINVAL"
  shows "\<exists>attr t. last (did s') = (anchorNet ns, anchorMnt ns, StartProc attr t) \<and> splitArgs (trimSpace raw) = Inr (argv attr) \<and>
     effective t = {10, 12} \<and> permitted t = {10, 12} \<and> inheritable t = {10, 12} \<and>
     execRoot t = {10, 12} \<and> set (ambientCaps attr) \<subseteq> {10, 12} \<and> capsOf s' (anchorTid ns) = t"
proof -
  from startWarpSvc_body [OF assms(1)] obtain parts s1 s2 where
    1: "splitArgs (trimSpace raw) = Inr parts" "netnsRunOnAnchor ns (warpSvcBody parts) s1 = (Ok (pid p), s2)"
    "capsView s1 = capsView s" "did s' = did s2" "capsOf s' = capsOf s2" by blast
  have c: "capsOf s1 = capsOf s" "capsHost s1 = capsHost s" using 1(3) by (simp_all add: capsView_def)
  let ?m = "capMask [CAP_NET_ADMIN, CAP_NET_BIND_SERVICE]"
  obtain t where t: "restrictCurrentThreadCaps (capsHost s) ?m (capsOf s (anchorTid ns)) = (Inr (), t)"
    and d: "last (did s2) = (anchorNet ns, anchorMnt ns, StartProc (warpSvcAttr parts) t)" "capsOf s2 (anchorTid ns) = t"
    using 1(2) c unfolding netnsRunOnAnchor_def warpSvcBody_def restrictK_def startProc_def kopen_def onThread_def
    by (auto simp: freshId_def hold_def kdo_def logCall_def split: if_splits prod.splits list.splits option.splits sum.splits elim!: thenK_OkE)
  have m: "maskCaps ?m = {10, 12}" by (auto simp: maskCaps_capMask CAP_NET_ADMIN_def CAP_NET_BIND_SERVICE_def)
  from restrictCurrentThreadCaps_drops [OF t assms(2,3), unfolded m]
  have "effective t = {10, 12}" "permitted t = {10, 12}" "inheritable t = {10, 12}" "bounding t \<subseteq> {10, 12}" by auto
  moreover from this have "execRoot t = {10, 12}" by (auto simp: execRoot_def)
  moreover have "argv (warpSvcAttr parts) = parts" "set (ambientCaps (warpSvcAttr parts)) \<subseteq> {10, 12}"
    by (simp_all add: warpSvcAttr_def CAP_NET_ADMIN_def CAP_NET_BIND_SERVICE_def)
  ultimately show ?thesis using d 1(1,4,5) by (intro exI conjI) simp_all
qed

theorem warpSvc_confined_witness:
  "\<exists>p s' attr t. startWarpSvc sampleNS ''/warp/warp-svc'' startKern = (Ok (Some p), s') \<and>
     last (did s') = (4, 5, StartProc attr t) \<and> argv attr = [''/warp/warp-svc''] \<and> execRoot t = {10, 12}"
proof -
  have t: "trimSpace ''/warp/warp-svc'' = ''/warp/warp-svc''" "splitArgs ''/warp/warp-svc'' = Inr [''/warp/warp-svc'']" by code_simp+
  obtain t' where r: "restrictCurrentThreadCaps oldKernel (capMask [CAP_NET_ADMIN, CAP_NET_BIND_SERVICE]) rootCaps = (Inr (), t')"
    using oldKernel_restrict by blast
  have "\<exists>p s'. startWarpSvc sampleNS ''/warp/warp-svc'' startKern = (Ok (Some p), s')"
    unfolding startWarpSvc_def Let_def t liftK_def netnsRunOnAnchor_def warpSvcBody_def restrictK_def startProc_def kopen_def openPipe_def
    by (simp add: thenK_def onErrK_def onThread_def kdo_def logCall_def freshId_def hold_def startKern_def sampleNS_def r)
  then obtain p s' where ok: "startWarpSvc sampleNS ''/warp/warp-svc'' startKern = (Ok (Some p), s')" by blast
  have "bounding (capsOf startKern (anchorTid sampleNS)) \<subseteq> {0..kernelLastCap (lastCapFile (capsHost startKern))}"
    by (simp add: startKern_def oldKernel_last) (simp add: rootCaps_def)
  moreover have "dropFails (capsHost startKern) cap = None" for cap by (simp add: startKern_def oldKernel_def)
  ultimately show ?thesis
    using warpSvc_confined [OF ok] ok t by (auto simp: sampleNS_def)
qed

text \<open>
  When \<open>Run\<close> itself fails the command was not run, and the error that \<open>RegisterWarp\<close> and \<open>ConnectWarp\<close> report
  does not hold the cause; that of \<open>SetWarpTunnelProtocol\<close> does.
\<close>

lemma run_error_lost:
  assumes "run (tryK (kdo (RunProc [cli, ''--accept-tos'', ''connect''] warpCommandEnv))) s = (Err e, s')"
  shows "connectAttempt run cli i s = (Ok (Some (Errorf ''warp-cli %v failed: %w'' [AStrs [''--accept-tos'', ''connect'']])), s')"
proof -
  have "tryK (run (tryK (kdo (RunProc [cli, ''--accept-tos'', ''connect''] warpCommandEnv)))) s = (Ok (Inl e), s')"
    using assms unfolding tryK_def [of "run _"] by simp
  then show ?thesis by (simp add: connectAttempt_def cliAttempt_def wrapErr_def Let_def)
qed

text \<open>
  A line that does not fit the buffer ends the logging of a stream, and the reader closes the
  pipe although the daemon still writes to it.
\<close>

lemma long_line_ends_log:
  assumes "CHR 0x0A \<notin> set long" "1048576 \<le> length long"
  shows "streamSubprocessLogs (long @ CHR 0x0A # rest) = []"
proof -
  have "scanLines 1048576 (long @ CHR 0x0A # rest) = []"
    using assms(2) split_on_append [OF assms(1), of rest] by (simp add: scanLines_def Let_def)
  then show ?thesis by (simp add: streamSubprocessLogs_def)
qed

end
