(* ===== verification/Proxy.thy ===== *)
theory Proxy
  imports Socks5
begin

text \<open>
  \<open>proxy.go\<close>: the SOCKS5 server. Each accepted connection is read for a greeting and a CONNECT
  request; the target is then resolved and dialed with raw sockets on a thread inside the
  egress namespace, and the two connections are piped together (\<open>pipe\<close> of \<open>nsstack.go\<close>). The
  lemmas: no path leaks a connection or a file descriptor, the addresses of a name are tried
  in order, and a client that sends the bytes \<open>Socks5Client\<close> sends gets the connection it asked
  for.
\<close>

section \<open>System calls\<close>

text \<open>
  The calls the proxy makes besides those on connections, in the order it makes them.
\<close>

datatype pcall = PUnshareFs | PSetnsMnt | PSetnsNet | PLookup string | PSocket bool \<comment> \<open>IPv6\<close>
  | PSndTimeo nat | PConnect nat bytes uint16 | PNonblock nat | PFileConn nat | PCloseFd nat

text \<open>
  \<open>errs\<close> says which of the calls to come fail, and how; when it is exhausted they succeed. The
  state also has the channel of \<open>dialInNS\<close> and the flag its goroutine keeps.
\<close>

record psys =
  pnet :: net
  errs :: "goerr option list"
  nextFd :: nat
  openFds :: "nat list"
  calls :: "pcall list"
  resCh :: "(goerr + nat) list"
  pushed :: bool

definition onPNet :: "(net, 'a) sem \<Rightarrow> (psys, 'a) sem" where
  "onPNet m = (\<lambda>s. case m (pnet s) of (r, n) \<Rightarrow> (r, s\<lparr>pnet := n\<rparr>))"

definition modPNet :: "(net \<Rightarrow> net) \<Rightarrow> psys \<Rightarrow> psys" where
  "modPNet f s = s\<lparr>pnet := f (pnet s)\<rparr>"

definition sys :: "pcall \<Rightarrow> (psys, unit) sem" where
  "sys c = (\<lambda>s. let s = s\<lparr>calls := calls s @ [c]\<rparr> in
     case errs s of
       [] \<Rightarrow> (Inr (), s)
     | None # r \<Rightarrow> (Inr (), s\<lparr>errs := r\<rparr>)
     | Some e # r \<Rightarrow> (Inl e, s\<lparr>errs := r\<rparr>))"

definition sysSocket :: "bool \<Rightarrow> (psys, nat) sem" where
  "sysSocket v6 = andThen (sys (PSocket v6)) (\<lambda>_ s.
     (Inr (nextFd s), s\<lparr>nextFd := Suc (nextFd s), openFds := nextFd s # openFds s\<rparr>))"

definition closeFd :: "nat \<Rightarrow> psys \<Rightarrow> psys" where
  "closeFd fd s = s\<lparr>calls := calls s @ [PCloseFd fd], openFds := remove1 fd (openFds s)\<rparr>"

text \<open>\<open>net.FileConn\<close>: a connection of its own over a duplicate of the descriptor.\<close>

definition fileConn :: "nat \<Rightarrow> (psys, nat) sem" where
  "fileConn fd = andThen (sys (PFileConn fd)) (\<lambda>_. onPNet (netDial ''file'' ''tcp''))"

section \<open>Dialing inside the namespace\<close>

text \<open>\<open>(*NetNS).Run\<close> of \<open>netns.go\<close>: enter the namespaces on a thread of its own, then \<open>fn\<close>.\<close>

definition nsRun :: "(psys, 'a) sem \<Rightarrow> (psys, 'a) sem" where
  "nsRun fn =
     andThen (onErr (sys PUnshareFs) id (Wrapf ''unshare fs: %w'' [])) (\<lambda>_.
     andThen (onErr (sys PSetnsMnt) id (Wrapf ''setns mnt: %w'' [])) (\<lambda>_.
     andThen (onErr (sys PSetnsNet) id (Wrapf ''setns net: %w'' [])) (\<lambda>_. fn)))"

text \<open>\<open>resolveInNS\<close>; \<open>LookupIPAddr\<close>, the system's resolver, is an argument.\<close>

definition resolveInNS :: "(string \<Rightarrow> goerr + ip list) \<Rightarrow> string \<Rightarrow> (psys, ip list) sem" where
  "resolveInNS lookup host =
     (case parseIP host of
        Some ip \<Rightarrow> ret [ip]
      | None \<Rightarrow> (\<lambda>s. (lookup host, s\<lparr>calls := calls s @ [PLookup host]\<rparr>)))"

text \<open>The address \<open>connect\<close> is given: 4 bytes, or 16 on an IPv6 socket.\<close>

definition sockaddr :: "ip \<Rightarrow> bool \<times> bytes" where
  "sockaddr ip = (case ip_to4 ip of Some v4 \<Rightarrow> (False, v4) | None \<Rightarrow> (True, ip_to16 ip))"

definition connectInNS :: "bool \<Rightarrow> ip \<Rightarrow> uint16 \<Rightarrow> (psys, nat) sem" where
  "connectInNS hasDeadline ip port =
     (let (v6, addr) = sockaddr ip in
      andThen (onErr (sysSocket v6) id (Wrapf ''socket: %w'' [])) (\<lambda>fd.
      andThen (if hasDeadline then (\<lambda>s. (Inr (), snd (sys (PSndTimeo fd) s))) else ret ()) (\<lambda>_.
      andThen (onErr (sys (PConnect fd addr port)) (closeFd fd)
                 (Wrapf ''connect %s:%d: %w'' [AStr (ip_string ip), AInt (uint port)])) (\<lambda>_.
      andThen (onErr (sys (PNonblock fd)) (closeFd fd) id) (\<lambda>_.
      \<lambda>s. case fileConn fd s of (r, s') \<Rightarrow> (r, closeFd fd s'))))))"

text \<open>The loop over the addresses, with the error of the last attempt.\<close>

fun connectFirst :: "bool \<Rightarrow> string \<Rightarrow> uint16 \<Rightarrow> goerr option \<Rightarrow> ip list \<Rightarrow> (psys, nat) sem" where
  "connectFirst dl host port lastErr [] =
     throw (case lastErr of None \<Rightarrow> Errorf ''no addresses for %s'' [AStr host] | Some e \<Rightarrow> e)"
| "connectFirst dl host port lastErr (ip # ips) = (\<lambda>s.
     case connectInNS dl ip port s of
       (Inr c, s') \<Rightarrow> (Inr c, s')
     | (Inl e, s') \<Rightarrow> connectFirst dl host port (Some e) ips s')"

definition push :: "goerr + nat \<Rightarrow> psys \<Rightarrow> psys" where
  "push r s = s\<lparr>resCh := resCh s @ [r], pushed := True\<rparr>"

text \<open>What \<open>fn\<close> does in \<open>ns.Run(fn)\<close>: it pushes one result and returns nil.\<close>

definition dialBody :: "(string \<Rightarrow> goerr + ip list) \<Rightarrow> string \<Rightarrow> uint16 \<Rightarrow> (psys, unit) sem" where
  "dialBody lookup host port = (\<lambda>s.
     case resolveInNS lookup host s of
       (Inl e, s) \<Rightarrow> (Inr (), push (Inl (Wrapf ''resolve %s: %w'' [AStr host] e)) s)
     | (Inr ips, s) \<Rightarrow>
         (case connectFirst True host port None ips s of (r, s) \<Rightarrow> (Inr (), push r s)))"

text \<open>The goroutine.\<close>

definition dialWorker :: "(string \<Rightarrow> goerr + ip list) \<Rightarrow> string \<Rightarrow> uint16 \<Rightarrow> psys \<Rightarrow> psys" where
  "dialWorker lookup host port s =
     (case nsRun (dialBody lookup host port) (s\<lparr>resCh := [], pushed := False\<rparr>) of
        (Inl e, s) \<Rightarrow> if \<not> pushed s then push (Inl e) s else s
      | (Inr _, s) \<Rightarrow> s)"

text \<open>
  \<open>dialInNS\<close>. The goroutine and the \<open>select\<close> run side by side; what is modelled is the state
  once both are done. \<open>expired\<close> says that \<open>ctx.Done()\<close> was chosen: the result is then taken
  from the channel by the draining goroutine, which closes a connection it finds.
\<close>

definition dialInNS :: "(string \<Rightarrow> goerr + ip list) \<Rightarrow> bool \<Rightarrow> string \<Rightarrow> (psys, nat) sem" where
  "dialInNS lookup expired dst =
     andThen (liftE (splitHostPort dst)) (\<lambda>(host, portStr).
     andThen (liftE (parseUint16 portStr)) (\<lambda>port s.
     let s = dialWorker lookup host (word_of_nat port) s;
         r = hd (resCh s);
         s = s\<lparr>resCh := tl (resCh s)\<rparr>
     in if expired
        then (Inl CtxDeadlineExceeded, case r of Inl e \<Rightarrow> s | Inr c \<Rightarrow> modPNet (c_close c) s)
        else (r, s)))"

section \<open>A proxied connection\<close>

definition writeSocks5Reply :: "nat \<Rightarrow> byte \<Rightarrow> (psys, unit) sem" where
  "writeSocks5Reply c code = (\<lambda>s.
     (Inr (), snd (onPNet (c_write c [socks5Version, code, 0x00, socks5AddrIPv4, 0, 0, 0, 0, 0, 0]) s)))"

definition readSocks5Addr :: "nat \<Rightarrow> byte \<Rightarrow> (net, string) sem" where
  "readSocks5Addr c atyp = readAddr c atyp (Errorf ''unsupported atyp %d'' [AInt (uint atyp)])"

text \<open>
  \<open>pipe\<close>: the two copies touch different halves of the two connections, so one after the other
  is as good as at the same time.
\<close>

definition pipe :: "(bytes \<Rightarrow> bytes list) \<Rightarrow> nat \<Rightarrow> nat \<Rightarrow> net \<Rightarrow> net" where
  "pipe chunks a b s =
     c_closeWrite b (c_copy chunks b a (c_closeWrite a (c_copy chunks a b s)))"

text \<open>A \<open>return\<close> of the handler; nobody looks at the error.\<close>

definition giveUp :: "(psys, 'a) sem" where
  "giveUp = throw (ExtErr ''return'')"

definition greetClient :: "nat \<Rightarrow> (psys, unit) sem" where
  "greetClient c =
     andThen (onPNet (c_readFull c 2)) (\<lambda>hdr.
     if hdr ! 0 \<noteq> socks5Version then giveUp
     else
       andThen (onPNet (c_readFull c (unat (hdr ! 1)))) (\<lambda>methods.
       andThen (onPNet (c_write c [socks5Version, socks5MethodNoAuth])) (\<lambda>_. ret ())))"

definition readTarget :: "nat \<Rightarrow> (psys, string) sem" where
  "readTarget c =
     andThen (onPNet (c_readFull c 4)) (\<lambda>rh.
     if rh ! 0 \<noteq> socks5Version \<or> rh ! 1 \<noteq> socks5CmdConnect
     then andThen (writeSocks5Reply c 0x07) (\<lambda>_. giveUp)
     else (\<lambda>s.
       case onPNet (readSocks5Addr c (rh ! 3)) s of
         (Inl e, s) \<Rightarrow> andThen (writeSocks5Reply c 0x01) (\<lambda>_. giveUp) s
       | (Inr host, s) \<Rightarrow>
           andThen (onPNet (c_readFull c 2)) (\<lambda>portBuf.
           ret (joinHostPort host (formatUint (unat (be16_get portBuf))))) s))"

definition serve ::
    "(string \<Rightarrow> goerr + ip list) \<Rightarrow> (bytes \<Rightarrow> bytes list) \<Rightarrow> bool \<Rightarrow> nat \<Rightarrow> string \<Rightarrow> (psys, unit) sem" where
  "serve lookup chunks expired c target = (\<lambda>s.
     case dialInNS lookup expired target s of
       (Inl e, s) \<Rightarrow> writeSocks5Reply c 0x05 s
     | (Inr upstream, s) \<Rightarrow>
         (case onPNet (c_write c [socks5Version, 0x00, 0x00, socks5AddrIPv4, 0, 0, 0, 0, 0, 0]) s of
            (Inl e, s) \<Rightarrow> (Inl e, modPNet (c_close upstream) s)
          | (Inr _, s) \<Rightarrow> (Inr (), modPNet (c_close upstream) (modPNet (pipe chunks c upstream) s))))"

definition handleProxyConn ::
    "(string \<Rightarrow> goerr + ip list) \<Rightarrow> (bytes \<Rightarrow> bytes list) \<Rightarrow> bool \<Rightarrow> nat \<Rightarrow> psys \<Rightarrow> psys" where
  "handleProxyConn lookup chunks expired c s =
     modPNet (c_close c) (snd (
       andThen (greetClient c) (\<lambda>_.
       andThen (readTarget c) (\<lambda>target.
       andThen (modS (modPNet (c_setDeadline c NoDeadline))) (\<lambda>_.
       serve lookup chunks expired c target)))
       (modPNet (c_setDeadline c (InSeconds 15)) s)))"

section \<open>The accept loop\<close>

text \<open>
  \<open>RunProxy\<close>: \<open>listen\<close> is what \<open>Listen\<close> returned; each \<open>Accept\<close> returned a connection or an error,
  and with an error \<open>ctx.Err()\<close> was set or not. The result is the connections handed to a
  handler and what \<open>RunProxy\<close> returned, if it did.
\<close>

datatype accepted = Accepted nat | AcceptErr goerr bool

fun acceptLoop :: "accepted list \<Rightarrow> nat list \<times> (goerr option) option" where
  "acceptLoop [] = ([], None)"
| "acceptLoop (Accepted c # evs) = (case acceptLoop evs of (cs, r) \<Rightarrow> (c # cs, r))"
| "acceptLoop (AcceptErr e cancelled # evs) = (if cancelled then ([], Some None) else acceptLoop evs)"

definition runProxy :: "string \<Rightarrow> goerr + unit \<Rightarrow> accepted list \<Rightarrow> nat list \<times> (goerr option) option" where
  "runProxy listenAddr listen evs =
     (case listen of
        Inl e \<Rightarrow> ([], Some (Some (Wrapf ''listen %s: %w'' [AStr listenAddr] e)))
      | Inr _ \<Rightarrow> acceptLoop evs)"

section \<open>Resources of a dial\<close>

text \<open>
  \<open>dialOut s r s'\<close>: the connections there were are untouched, no descriptor is left open, and
  the only new connection left open is the one returned.
\<close>

definition dialOut :: "psys \<Rightarrow> goerr + nat \<Rightarrow> psys \<Rightarrow> bool" where
  "dialOut s r s' \<longleftrightarrow> fresh_only (pnet s) (pnet s') \<and> openFds s' = openFds s \<and>
     (case r of
        Inl e \<Rightarrow> new_closed (pnet s) (pnet s') {}
      | Inr u \<Rightarrow> length (heap (pnet s)) \<le> u \<and> live (pnet s') u \<and> new_closed (pnet s) (pnet s') {u})"

lemma dialOut_cong:
  "dialOut s r t \<Longrightarrow> pnet s = pnet s1 \<Longrightarrow> openFds s = openFds s1 \<Longrightarrow> pnet t = pnet t1 \<Longrightarrow>
   openFds t = openFds t1 \<Longrightarrow> dialOut s1 r t1"
  by (cases r) (simp_all add: dialOut_def)

lemma onPNet_eq: "m (pnet s) = (r, n) \<Longrightarrow> onPNet m s = (r, s\<lparr>pnet := n\<rparr>)"
  by (simp add: onPNet_def)

lemma new_closed_refl [simp]: "new_closed n n K"
  by (auto simp: new_closed_def)

lemma sys_frame: "sys k s = (r, s') \<Longrightarrow> pnet s' = pnet s \<and> openFds s' = openFds s \<and> resCh s' = resCh s \<and> pushed s' = pushed s"
  by (auto simp: sys_def Let_def split: list.splits option.splits)

lemma sys_snd [simp]: "pnet (snd (sys k s)) = pnet s" "openFds (snd (sys k s)) = openFds s"
  "resCh (snd (sys k s)) = resCh s" "pushed (snd (sys k s)) = pushed s"
  using sys_frame [OF prod.collapse [symmetric], of k s] by simp_all

lemma closeFd_simps [simp]: "pnet (closeFd fd s) = pnet s" "openFds (closeFd fd s) = remove1 fd (openFds s)"
  "resCh (closeFd fd s) = resCh s" "pushed (closeFd fd s) = pushed s"
  by (simp_all add: closeFd_def)

lemma fileConn_out:
  assumes "fileConn fd s = (r, s')"
  shows "dialOut s r s' \<and> resCh s' = resCh s \<and> pushed s' = pushed s"
proof (cases "sys (PFileConn fd) s")
  case (Pair x t)
  note f = sys_frame [OF Pair]
  show ?thesis
  proof (cases x)
    case (Inl e)
    with assms Pair f show ?thesis by (auto simp: fileConn_def dialOut_def)
  next
    case (Inr u)
    obtain y n where d: "netDial ''file'' ''tcp'' (pnet t) = (y, n)" by fastforce
    with assms Pair Inr have r: "r = y" "s' = t\<lparr>pnet := n\<rparr>" by (auto simp: fileConn_def onPNet_eq)
    show ?thesis
    proof (cases y)
      case (Inl e)
      with d r f direct.dial_frame [OF d] direct.dial_err_closed show ?thesis by (auto simp: dialOut_def)
    next
      case y: (Inr c)
      with d r f direct.dial_frame [OF d] direct.dial_live direct.dial_closed show ?thesis
        by (auto simp: dialOut_def)
    qed
  qed
qed

lemma connectInNS_out:
  assumes "connectInNS dl ip port s = (r, s')"
  shows "dialOut s r s' \<and> resCh s' = resCh s \<and> pushed s' = pushed s"
proof -
  obtain v6 addr where sa: "sockaddr ip = (v6, addr)" by fastforce
  obtain x0 t0 where 0: "sys (PSocket v6) s = (x0, t0)" by fastforce
  note f0 = sys_frame [OF 0]
  show ?thesis
  proof (cases x0)
    case (Inl e)
    with assms 0 f0 sa show ?thesis by (auto simp: connectInNS_def sysSocket_def dialOut_def)
  next
    case u0: (Inr u)
    let ?fd = "nextFd t0"
    let ?t1 = "t0\<lparr>nextFd := Suc ?fd, openFds := ?fd # openFds t0\<rparr>"
    define t2 where "t2 = (if dl then snd (sys (PSndTimeo ?fd) ?t1) else ?t1)"
    have t2: "pnet t2 = pnet s" "openFds t2 = ?fd # openFds s" "resCh t2 = resCh s" "pushed t2 = pushed s"
      using f0 by (simp_all add: t2_def)
    have step: "connectInNS dl ip port s =
        (andThen (onErr (sys (PConnect ?fd addr port)) (closeFd ?fd)
                 (Wrapf ''connect %s:%d: %w'' [AStr (ip_string ip), AInt (uint port)])) (\<lambda>_.
         andThen (onErr (sys (PNonblock ?fd)) (closeFd ?fd) id) (\<lambda>_ s.
           case fileConn ?fd s of (r, s') \<Rightarrow> (r, closeFd ?fd s')))) t2"
      using 0 u0 sa by (simp add: connectInNS_def sysSocket_def t2_def)
    obtain x3 t3 where 3: "sys (PConnect ?fd addr port) t2 = (x3, t3)" by fastforce
    obtain x4 t4 where 4: "sys (PNonblock ?fd) t3 = (x4, t4)" by fastforce
    obtain x5 t5 where 5: "fileConn ?fd t4 = (x5, t5)" by fastforce
    note f = sys_frame [OF 3] sys_frame [OF 4] fileConn_out [OF 5]
    consider e where "x3 = Inl e" | e where "x3 = Inr ()" "x4 = Inl e" | "x3 = Inr ()" "x4 = Inr ()"
      by (cases x3; cases x4) auto
    then show ?thesis
    proof cases
      case 1
      with assms step 3 f t2 show ?thesis by (auto simp: dialOut_def)
    next
      case 2
      with assms step 3 4 f t2 show ?thesis by (auto simp: dialOut_def)
    next
      case 3: 3
      with assms step \<open>sys (PConnect ?fd addr port) t2 = (x3, t3)\<close> 4 5 have "r = x5" "s' = closeFd ?fd t5" by auto
      with f t2 show ?thesis by (auto simp: dialOut_def split: sum.splits)
    qed
  qed
qed

lemma dialOut_trans: "dialOut s (Inl e) t \<Longrightarrow> dialOut t r u \<Longrightarrow> dialOut s r u"
  by (auto simp: dialOut_def fresh_only_def split: sum.splits intro: fresh_only_trans new_closed_trans)

lemma connectFirst_out:
  "connectFirst dl host port le ips s = (r, s') \<Longrightarrow> dialOut s r s' \<and> resCh s' = resCh s \<and> pushed s' = pushed s"
proof (induction ips arbitrary: le s)
  case Nil
  then show ?case by (auto simp: dialOut_def)
next
  case (Cons ip ips)
  obtain x t where c: "connectInNS dl ip port s = (x, t)" by fastforce
  note o = connectInNS_out [OF c]
  show ?case
  proof (cases x)
    case (Inl e)
    with Cons.prems c have "connectFirst dl host port (Some e) ips t = (r, s')" by simp
    from Cons.IH [OF this] o Inl show ?thesis by (auto intro: dialOut_trans)
  next
    case (Inr u)
    with Cons.prems c o show ?thesis by simp
  qed
qed

lemma resolveInNS_frame:
  "resolveInNS lookup host s = (r, s') \<Longrightarrow> pnet s' = pnet s \<and> openFds s' = openFds s \<and> resCh s' = resCh s \<and> pushed s' = pushed s"
  by (auto simp: resolveInNS_def split: option.splits)

text \<open>Whatever happens, the goroutine pushes exactly one result.\<close>

lemma dialBody_push:
  assumes "dialBody lookup host port s = (x, s')"
  shows "x = Inr () \<and> pushed s' \<and> (\<exists>r. resCh s' = resCh s @ [r] \<and> dialOut s r s')"
proof (cases "resolveInNS lookup host s")
  case (Pair y t)
  note f = resolveInNS_frame [OF Pair]
  show ?thesis
  proof (cases y)
    case (Inl e)
    with assms Pair f show ?thesis by (auto simp: dialBody_def push_def dialOut_def)
  next
    case (Inr ips)
    obtain r u where c: "connectFirst True host port None ips t = (r, u)" by fastforce
    with assms Pair Inr have "x = Inr ()" "s' = push r u" by (auto simp: dialBody_def)
    moreover have "dialOut s r (push r u)"
      using connectFirst_out [OF c] f by (auto simp: push_def intro: dialOut_cong)
    ultimately show ?thesis using connectFirst_out [OF c] f by (auto simp: push_def)
  qed
qed

lemma dialWorker_push: "\<exists>r. resCh (dialWorker lookup host port s) = [r] \<and> dialOut s r (dialWorker lookup host port s)"
proof -
  let ?s = "s\<lparr>resCh := [], pushed := False\<rparr>"
  obtain x t where n: "nsRun (dialBody lookup host port) ?s = (x, t)" by fastforce
  obtain x1 t1 where 1: "sys PUnshareFs ?s = (x1, t1)" by fastforce
  obtain x2 t2 where 2: "sys PSetnsMnt t1 = (x2, t2)" by fastforce
  obtain x3 t3 where 3: "sys PSetnsNet t2 = (x3, t3)" by fastforce
  note f = sys_frame [OF 1] sys_frame [OF 2] sys_frame [OF 3]
  show ?thesis
  proof (cases "x1 = Inr () \<and> x2 = Inr () \<and> x3 = Inr ()")
    case True
    with n 1 2 3 have "dialBody lookup host port t3 = (x, t)" by (simp add: nsRun_def)
    from dialBody_push [OF this] f obtain r where r: "x = Inr ()" "resCh t = [r]" "dialOut t3 r t" by auto
    then have "dialOut s r t" using f by (auto intro: dialOut_cong)
    with r n show ?thesis by (auto simp: dialWorker_def)
  next
    case False
    then obtain e where "x = Inl e" "pnet t = pnet s" "openFds t = openFds s" "resCh t = []" "\<not> pushed t"
      using n 1 2 3 f by (cases x1; cases x2; cases x3) (auto simp: nsRun_def)
    with n show ?thesis by (auto simp: dialWorker_def push_def dialOut_def)
  qed
qed

lemma dialOut_drop:
  assumes "dialOut s (Inr c) t"
  shows "dialOut s (Inl e) (modPNet (c_close c) t)"
proof -
  have "c < length (heap (pnet t))" using assms by (simp add: dialOut_def live_def)
  then show ?thesis
    using assms new_closed_close [of "pnet s" "pnet t" c] fresh_only_only [OF _ keeps_only_close, of "pnet s" "pnet t" c]
    by (simp add: dialOut_def modPNet_def)
qed

lemma dialOut_Inl: "dialOut s (Inl a) t \<Longrightarrow> dialOut s (Inl b) t"
  by (simp add: dialOut_def)

lemma dialInNS_out:
  assumes "dialInNS lookup expired dst s = (r, s')"
  shows "dialOut s r s'"
proof (cases "\<exists>host portStr port. splitHostPort dst = Inr (host, portStr) \<and> parseUint16 portStr = Inr port")
  case True
  then obtain host portStr port where p: "splitHostPort dst = Inr (host, portStr)" "parseUint16 portStr = Inr port"
    by blast
  let ?t = "dialWorker lookup host (word_of_nat port) s"
  obtain x where x: "resCh ?t = [x]" "dialOut s x ?t" using dialWorker_push by blast
  then have "dialOut s x (?t\<lparr>resCh := []\<rparr>)" by (auto intro: dialOut_cong)
  then show ?thesis
    using assms p x dialOut_drop [of s _ "?t\<lparr>resCh := []\<rparr>"]
    by (cases x; cases expired) (auto simp: dialInNS_def intro: dialOut_Inl)
next
  case False
  then show ?thesis
    using assms by (auto simp: dialInNS_def andThen_def dialOut_def split: sum.splits prod.splits)
qed

section \<open>Resources of a handler\<close>

text \<open>
  \<open>tidy c s s'\<close>: of the connections there were only \<open>c\<close> may have changed, the new ones are
  closed, and the open descriptors are the same.
\<close>

definition tidy :: "nat \<Rightarrow> psys \<Rightarrow> psys \<Rightarrow> bool" where
  "tidy c s s' \<longleftrightarrow> openFds s' = openFds s \<and> length (heap (pnet s)) \<le> length (heap (pnet s')) \<and>
     (c < length (heap (pnet s)) \<longrightarrow>
        (\<forall>j < length (heap (pnet s)). j \<noteq> c \<longrightarrow> heap (pnet s') ! j = heap (pnet s) ! j) \<and>
        new_closed (pnet s) (pnet s') {})"

lemma tidy_refl [simp]: "tidy c s s"
  by (simp add: tidy_def)

lemma tidy_trans:
  assumes st: "tidy c s t" and tu: "tidy c t u"
  shows "tidy c s u"
proof -
  have "isClosed (heap (pnet u) ! j)"
    if c: "c < length (heap (pnet s))" and j: "length (heap (pnet s)) \<le> j" "j < length (heap (pnet u))" for j
  proof (cases "j < length (heap (pnet t))")
    case True
    then have "isClosed (heap (pnet t) ! j)" using st c j by (simp add: tidy_def new_closed_def)
    moreover have "heap (pnet u) ! j = heap (pnet t) ! j" using st tu c j True by (simp add: tidy_def)
    ultimately show ?thesis by simp
  next
    case False
    then show ?thesis using st tu c j by (simp add: tidy_def new_closed_def)
  qed
  then show ?thesis using st tu by (simp add: tidy_def new_closed_def)
qed

lemma tidy_reflp [simp]: "reflp (tidy c)" and tidy_transp [simp]: "transp (tidy c)"
  by (auto simp: reflp_def transp_def intro: tidy_trans)

lemma tidy_only: "only c (pnet s) n \<Longrightarrow> tidy c s (s\<lparr>pnet := n\<rparr>)"
  by (auto simp: tidy_def only_def new_closed_def)

lemma tidy_onPNet: "keeps (only c) m \<Longrightarrow> keeps (tidy c) (onPNet m)"
proof
  fix s :: psys
  assume k: "keeps (only c) m"
  obtain r n where m: "m (pnet s) = (r, n)" by fastforce
  with keepsD [OF k m] show "tidy c s (snd (onPNet m s))" by (simp add: onPNet_eq tidy_only)
qed

lemma tidy_modPNet: "only c (pnet s) (f (pnet s)) \<Longrightarrow> tidy c s (modPNet f s)"
  by (simp add: modPNet_def tidy_only)

lemma tidy_reply: "keeps (tidy c) (writeSocks5Reply c code)"
proof
  fix s
  show "tidy c s (snd (writeSocks5Reply c code s))"
    using tidy_onPNet [OF keeps_only_write] by (simp add: writeSocks5Reply_def keeps_def)
qed

lemmas tidy_rules = keeps_andThen [OF tidy_transp] keeps_ret [OF tidy_reflp] keeps_throw [OF tidy_reflp]
  tidy_onPNet [OF keeps_only_readFull] tidy_onPNet [OF keeps_only_write] tidy_reply

lemma tidy_greet: "keeps (tidy c) (greetClient c)"
  unfolding greetClient_def giveUp_def by (auto intro!: tidy_rules)

lemma tidy_addr: "keeps (tidy c) (onPNet (readSocks5Addr c t))"
  unfolding readSocks5Addr_def by (intro tidy_onPNet keeps_only_readAddr)

lemma tidy_readTarget: "keeps (tidy c) (readTarget c)"
proof -
  have bad: "keeps (tidy c) (andThen (writeSocks5Reply c code) (\<lambda>_. giveUp))" for code
    unfolding giveUp_def by (auto intro!: tidy_rules)
  have port: "keeps (tidy c) (andThen (onPNet (c_readFull c 2)) (\<lambda>b. ret (joinHostPort h (formatUint (unat (be16_get b))))))" for h
    by (auto intro!: tidy_rules)
  have addr: "keeps (tidy c) (\<lambda>s. case onPNet (readSocks5Addr c t) s of
         (Inl e, s) \<Rightarrow> andThen (writeSocks5Reply c 0x01) (\<lambda>_. giveUp) s
       | (Inr host, s) \<Rightarrow> andThen (onPNet (c_readFull c 2)) (\<lambda>b. ret (joinHostPort host (formatUint (unat (be16_get b))))) s)" for t
  proof
    fix s
    obtain r u where r: "onPNet (readSocks5Addr c t) s = (r, u)" by fastforce
    note a = keepsD [OF tidy_addr r]
    show "tidy c s (snd (case onPNet (readSocks5Addr c t) s of
         (Inl e, s) \<Rightarrow> andThen (writeSocks5Reply c 0x01) (\<lambda>_. giveUp) s
       | (Inr host, s) \<Rightarrow> andThen (onPNet (c_readFull c 2)) (\<lambda>b. ret (joinHostPort host (formatUint (unat (be16_get b))))) s))"
      using a r bad [of "0x01"] port by (cases r) (auto simp: keeps_def intro: tidy_trans)
  qed
  show ?thesis unfolding readTarget_def by (auto intro!: tidy_rules bad addr)
qed

text \<open>The dialed connection is closed after the pipe, which touches no other.\<close>

lemma only_copyChunks: "only d s (copyChunks d bs s)"
proof (induction bs arbitrary: s)
  case (Cons b bs)
  obtain r t where w: "c_write d b s = (r, t)" by fastforce
  from keepsD [OF keeps_only_write w] have "only d s t" .
  with w Cons.IH [of t] show ?case by (cases r) (auto intro: only_trans)
qed simp

definition only2 :: "nat \<Rightarrow> nat \<Rightarrow> net \<Rightarrow> net \<Rightarrow> bool" where
  "only2 i k s s' \<longleftrightarrow> length (heap s') = length (heap s) \<and>
     (\<forall>j. j \<noteq> i \<and> j \<noteq> k \<longrightarrow> heap s' ! j = heap s ! j)"

lemma only2I: "only i s t \<Longrightarrow> only2 i k s t" "only k s t \<Longrightarrow> only2 i k s t"
  by (auto simp: only_def only2_def)

lemma only2_trans: "only2 i k s t \<Longrightarrow> only2 i k t u \<Longrightarrow> only2 i k s u"
  by (auto simp: only2_def)

lemma only2_copy: "only2 d src s (c_copy chunks d src s)"
proof -
  have "only2 d src s (copyChunks d bs (upd src f s))" for bs f
    by (rule only2_trans [OF only2I(2) [OF upd_only] only2I(1) [OF only_copyChunks]])
  then show ?thesis by (auto simp: c_copy_def only2_def)
qed

lemma only2_sym: "only2 i k s t = only2 k i s t"
  by (auto simp: only2_def)

lemma only_closeWrite: "only i s (c_closeWrite i s)"
  by (simp add: c_closeWrite_def)

lemma only2_pipe: "only2 a b s (pipe chunks a b s)"
  unfolding pipe_def
  by (rule only2_trans [OF only2_copy], rule only2_trans [OF only2I(1) [OF only_closeWrite]],
      rule only2_trans [OF _ only2I(2) [OF only_closeWrite]], subst only2_sym, rule only2_copy)

lemma tidy_serve: "tidy c s (snd (serve lookup chunks expired c target s))"
proof -
  obtain r t where d: "dialInNS lookup expired target s = (r, t)" by fastforce
  note o = dialInNS_out [OF d]
  show ?thesis
  proof (cases r)
    case (Inl e)
    then have "tidy c s t" using o by (auto simp: dialOut_def tidy_def fresh_only_def)
    moreover have "tidy c t (snd (writeSocks5Reply c 0x05 t))" using tidy_reply by (simp add: keeps_def)
    ultimately show ?thesis using d Inl by (auto simp: serve_def intro: tidy_trans)
  next
    case (Inr u)
    define b :: bytes where "b = [socks5Version, 0x00, 0x00, socks5AddrIPv4, 0, 0, 0, 0, 0, 0]"
    obtain x n where w: "c_write c b (pnet t) = (x, n)" by fastforce
    have wn: "only c (pnet t) n" using keepsD [OF keeps_only_write w] .
    define n' where "n' = (case x of Inl e \<Rightarrow> n | Inr k \<Rightarrow> pipe chunks c u n)"
    have 2: "only2 c u (pnet t) n'"
      using only2_trans [OF only2I(1) [OF wn] only2_pipe] only2I(1) [OF wn] by (cases x) (simp_all add: n'_def)
    have e: "snd (serve lookup chunks expired c target s) = t\<lparr>pnet := c_close u n'\<rparr>"
      using d Inr w by (cases x) (auto simp: serve_def onPNet_def b_def modPNet_def n'_def)
    have "u < length (heap n')" using o Inr 2 by (simp add: dialOut_def live_def only2_def)
    then show ?thesis
      unfolding e using o Inr 2
      by (auto simp: tidy_def dialOut_def new_closed_def fresh_only_def only2_def isClosed_close_iff)
        (auto simp: c_close_def, metis leD)
  qed
qed

lemma handle_tidy:
  "tidy c s (handleProxyConn lookup chunks expired c s) \<and>
   (c < length (heap (pnet s)) \<longrightarrow> isClosed (heap (pnet (handleProxyConn lookup chunks expired c s)) ! c))"
proof -
  let ?s = "modPNet (c_setDeadline c (InSeconds 15)) s"
  let ?m = "andThen (greetClient c) (\<lambda>_. andThen (readTarget c) (\<lambda>target.
       andThen (modS (modPNet (c_setDeadline c NoDeadline))) (\<lambda>_. serve lookup chunks expired c target)))"
  have "keeps (tidy c) (serve lookup chunks expired c target)" for target by (rule keepsI) (rule tidy_serve)
  moreover have "keeps (tidy c) (modS (modPNet (c_setDeadline c NoDeadline)))"
    by (intro keeps_modS tidy_modPNet keeps_only_deadline)
  ultimately have "keeps (tidy c) ?m" by (intro tidy_rules tidy_greet tidy_readTarget)
  then have "tidy c ?s (snd (?m ?s))" by (simp add: keeps_def)
  moreover have "tidy c s ?s" by (intro tidy_modPNet keeps_only_deadline)
  ultimately have m: "tidy c s (snd (?m ?s))" by (blast intro: tidy_trans)
  moreover have "tidy c (snd (?m ?s)) (handleProxyConn lookup chunks expired c s)"
    unfolding handleProxyConn_def by (intro tidy_modPNet keeps_only_close)
  ultimately have "tidy c s (handleProxyConn lookup chunks expired c s)" by (rule tidy_trans)
  moreover have "c < length (heap (pnet s)) \<Longrightarrow> c < length (heap (pnet (snd (?m ?s))))"
    using m by (simp add: tidy_def)
  ultimately show ?thesis by (simp add: handleProxyConn_def modPNet_def)
qed

section \<open>A successful request\<close>

definition chunking :: "(bytes \<Rightarrow> bytes list) \<Rightarrow> bool" where
  "chunking chunks \<longleftrightarrow> (\<forall>b. concat (chunks b) = b)"

text \<open>The messages a client sends up to the payload.\<close>

definition clientHello :: "saddr \<Rightarrow> uint16 \<Rightarrow> bytes" where
  "clientHello x port = [socks5Version, 1, socks5MethodNoAuth] @
     [socks5Version, socks5CmdConnect, 0] @ saddr_type x # saddr_body x @ be16_put port"

lemma greetClient_ok:
  assumes "writable (pnet s) c (Suc k)" "rx (heap (pnet s) ! c) = [socks5Version, 1, m] @ r"
  shows "greetClient c s = (Inr (), s\<lparr>pnet := putTx c [socks5Version, socks5MethodNoAuth] (setRx c r (pnet s))\<rparr>)"
proof -
  have rd: "readable (pnet s) c" by (rule writable_readable [OF assms(1)])
  have 1: "c_readFull c 2 (pnet s) = (Inr [socks5Version, 1], setRx c (m # r) (pnet s))"
    using rd assms(2) by (intro readFull_append) simp_all
  have 2: "c_readFull c 1 (setRx c (m # r) (pnet s)) = (Inr [m], setRx c r (pnet s))"
    using readFull_append [of "setRx c (m # r) (pnet s)" c "[m]" r 1] rd by simp
  have 3: "c_write c [socks5Version, socks5MethodNoAuth] (setRx c r (pnet s)) =
      (Inr 2, putTx c [socks5Version, socks5MethodNoAuth] (setRx c r (pnet s)))"
    using write_putTx [of "setRx c r (pnet s)" c k] assms(1) by simp
  show ?thesis using 1 2 3 by (simp add: greetClient_def onPNet_def)
qed

lemma readTarget_ok:
  assumes "readable (pnet s) c" "wf_saddr x"
    and "rx (heap (pnet s) ! c) = [socks5Version, socks5CmdConnect, rsv] @ saddr_type x # saddr_body x @ be16_put port @ r"
  shows "readTarget c s = (Inr (joinHostPort (saddr_string x) (formatUint (unat port))), s\<lparr>pnet := setRx c r (pnet s)\<rparr>)"
proof -
  let ?b = "saddr_body x @ be16_put port @ r"
  have 1: "c_readFull c 4 (pnet s) = (Inr [socks5Version, socks5CmdConnect, rsv, saddr_type x], setRx c ?b (pnet s))"
    using assms by (intro readFull_append) simp_all
  have 2: "readAddr c (saddr_type x) e (setRx c ?b (pnet s)) = (Inr (saddr_string x), setRx c (be16_put port @ r) (pnet s))" for e
    using readAddr_saddr [of "setRx c ?b (pnet s)" c x "be16_put port @ r" e] assms by simp
  have 3: "c_readFull c 2 (setRx c (be16_put port @ r) (pnet s)) = (Inr (be16_put port), setRx c r (pnet s))"
    using readFull_append [of "setRx c (be16_put port @ r) (pnet s)" c "be16_put port" r 2] assms(1) by simp
  show ?thesis using 1 2 3 by (simp add: readTarget_def onPNet_def readSocks5Addr_def)
qed

text \<open>With every system call succeeding, the first address of the host is the one dialed.\<close>

lemma sys_ok: "errs s = [] \<Longrightarrow> sys k s = (Inr (), s\<lparr>calls := calls s @ [k]\<rparr>)"
  by (simp add: sys_def)

lemma connectInNS_ok:
  assumes "errs s = []" "sockaddr ip = (v6, addr)" "netDial ''file'' ''tcp'' (pnet s) = (Inr u, n)"
  shows "connectInNS True ip port s = (Inr u, s\<lparr>pnet := n, nextFd := Suc (nextFd s),
     calls := calls s @ [PSocket v6, PSndTimeo (nextFd s), PConnect (nextFd s) addr port, PNonblock (nextFd s),
        PFileConn (nextFd s), PCloseFd (nextFd s)]\<rparr>)"
  using assms by (simp add: connectInNS_def sysSocket_def sys_ok fileConn_def onPNet_def closeFd_def)

lemma dialInNS_ok:
  assumes "errs s = []" "splitHostPort dst = Inr (host, portStr)" "parseUint16 portStr = Inr port"
    and "(case parseIP host of Some ip \<Rightarrow> Inr [ip] | None \<Rightarrow> lookup host) = Inr (ip # ips)"
    and "sockaddr ip = (v6, addr)" "netDial ''file'' ''tcp'' (pnet s) = (Inr u, n)"
  shows "\<exists>s'. dialInNS lookup False dst s = (Inr u, s') \<and> pnet s' = n \<and>
     PConnect (nextFd s) addr (word_of_nat port) \<in> set (calls s')"
proof -
  let ?t = "s\<lparr>resCh := [], pushed := False, calls := calls s @ [PUnshareFs, PSetnsMnt, PSetnsNet]\<rparr>"
  obtain t1 where r: "resolveInNS lookup host ?t = (Inr (ip # ips), t1)" and t1: "errs t1 = []"
      "pnet t1 = pnet s" "nextFd t1 = nextFd s" "resCh t1 = []"
    using assms(1,4) by (auto simp: resolveInNS_def split: option.splits)
  note c = connectInNS_ok [OF t1(1) assms(5), of u n "word_of_nat port", unfolded t1(2,3), OF assms(6)]
  have "nsRun (dialBody lookup host (word_of_nat port)) (s\<lparr>resCh := [], pushed := False\<rparr>) =
      dialBody lookup host (word_of_nat port) ?t"
    using assms(1) by (simp add: nsRun_def sys_ok)
  also have "\<dots> = (Inr (), push (Inr u) (snd (connectInNS True ip (word_of_nat port) t1)))"
    using r c by (simp add: dialBody_def)
  finally have "dialWorker lookup host (word_of_nat port) s = push (Inr u) (snd (connectInNS True ip (word_of_nat port) t1))"
    by (simp add: dialWorker_def)
  then show ?thesis using assms(2,3) c t1 by (simp add: dialInNS_def push_def)
qed

lemma copyChunks_ok:
  "writable s d (length bs) \<Longrightarrow> heap (copyChunks d bs s) ! d =
     (heap s ! d)\<lparr>tx := tx (heap s ! d) @ bs, wrLeft := wrLeft (heap s ! d) - length bs\<rparr>"
proof (induction bs arbitrary: s)
  case (Cons b bs)
  have w: "writable s d (Suc (length bs))" using Cons.prems by simp
  then have "d < length (heap s)" by (simp add: writable_def readable_def)
  with Cons.IH [OF writable_putTx [OF w], of b] write_putTx [OF w, of b] show ?case
    by (simp add: putTx_def)
qed simp

lemma copy_ok:
  assumes "d \<noteq> src" "readable s src" "writable s d (length (chunks (rx (heap s ! src))))"
  shows "heap (c_copy chunks d src s) ! d = (heap s ! d)\<lparr>tx := tx (heap s ! d) @ chunks (rx (heap s ! src)),
       wrLeft := wrLeft (heap s ! d) - length (chunks (rx (heap s ! src)))\<rparr> \<and>
     heap (c_copy chunks d src s) ! src = (heap s ! src)\<lparr>rx := []\<rparr> \<and>
     length (heap (c_copy chunks d src s)) = length (heap s)"
proof -
  let ?s = "upd src (\<lambda>c. c\<lparr>rx := []\<rparr>) s" and ?bs = "chunks (rx (heap s ! src))"
  have w: "writable ?s d (length ?bs)" using assms by (simp add: writable_def readable_def)
  have o: "only d ?s (copyChunks d ?bs ?s)" by (rule only_copyChunks)
  have e: "c_copy chunks d src s = copyChunks d ?bs ?s" using assms(2) by (simp add: c_copy_def readable_def)
  show ?thesis
    unfolding e using copyChunks_ok [OF w] o assms by (auto simp: only_def readable_def)
qed

text \<open>Both directions of a pipe are carried whole, and each end is told that no more comes.\<close>

lemma pipe_ok:
  assumes "a \<noteq> b" "writable s a (length (chunks (rx (heap s ! b))))" "writable s b (length (chunks (rx (heap s ! a))))"
    and "chunking chunks"
  shows "concat (tx (heap (pipe chunks a b s) ! a)) = concat (tx (heap s ! a)) @ rx (heap s ! b) \<and>
     concat (tx (heap (pipe chunks a b s) ! b)) = concat (tx (heap s ! b)) @ rx (heap s ! a) \<and>
     finSent (heap (pipe chunks a b s) ! a) \<and> finSent (heap (pipe chunks a b s) ! b)"
proof -
  let ?s1 = "c_copy chunks a b s"
  let ?s2 = "c_closeWrite a ?s1"
  have r: "readable s a" "readable s b" using assms(2,3) writable_readable by auto
  note 1 = copy_ok [of a b s chunks, OF assms(1) r(2) assms(2)]
  have l1: "a < length (heap ?s1)" "b < length (heap ?s1)" using r 1 by (auto simp: readable_def)
  have a2: "heap ?s2 ! a = (heap s ! a)\<lparr>tx := tx (heap s ! a) @ chunks (rx (heap s ! b)),
      wrLeft := wrLeft (heap s ! a) - length (chunks (rx (heap s ! b))), finSent := True\<rparr>"
    using 1 l1 by (simp add: c_closeWrite_def)
  have b2: "heap ?s2 ! b = (heap s ! b)\<lparr>rx := []\<rparr>" using 1 assms(1) by (simp add: c_closeWrite_def)
  have l2: "length (heap ?s2) = length (heap s)" using 1 by (simp add: c_closeWrite_def)
  have r2: "readable ?s2 a" using r(1) a2 l2 by (simp add: readable_def)
  have w2: "writable ?s2 b (length (chunks (rx (heap ?s2 ! a))))"
    using assms(3) a2 b2 l2 by (simp add: writable_def readable_def)
  note 3 = copy_ok [of b a ?s2 chunks, OF assms(1) [symmetric] r2 w2]
  let ?s3 = "c_copy chunks b a ?s2"
  have l3: "b < length (heap ?s3)" using 3 l2 r by (auto simp: readable_def)
  have "heap (pipe chunks a b s) ! a = (heap ?s2 ! a)\<lparr>rx := []\<rparr>"
    using 3 assms(1) by (simp add: pipe_def c_closeWrite_def)
  moreover have "heap (pipe chunks a b s) ! b = (heap ?s3 ! b)\<lparr>finSent := True\<rparr>"
    using l3 by (simp add: pipe_def c_closeWrite_def)
  ultimately show ?thesis using 3 a2 b2 assms(4) by (simp add: chunking_def)
qed

section \<open>Properties\<close>

text \<open>
  C8: a proxied connection leaves nothing behind. Whatever the client sends and whatever fails
  (the reads, the resolver, any system call, the dial, the writes, the time-out of the dial),
  when the handler is done the client's connection is closed, every connection it opened is
  closed, every file descriptor it opened is closed, and no other connection was touched.
\<close>

theorem handleProxyConn_no_leak:
  assumes "c < length (heap (pnet s))" "s' = handleProxyConn lookup chunks expired c s"
  shows "isClosed (heap (pnet s') ! c) \<and> new_closed (pnet s) (pnet s') {} \<and> openFds s' = openFds s \<and>
     (\<forall>j < length (heap (pnet s)). j \<noteq> c \<longrightarrow> heap (pnet s') ! j = heap (pnet s) ! j)"
  using handle_tidy [of c s lookup chunks expired] assms by (auto simp: tidy_def)

definition proxySys :: "conn list \<Rightarrow> conn list \<Rightarrow> goerr option list \<Rightarrow> psys" where
  "proxySys cs ds es = \<lparr>pnet = peerNet cs ds, errs = es, nextFd = 7, openFds = [1], calls = [], resCh = [], pushed = False\<rparr>"

theorem handleProxyConn_no_leak_witness:
  "let s' = handleProxyConn (\<lambda>h. Inr [[10, 0, 0, 9]]) (\<lambda>b. [b]) False 0
       (proxySys [peerConn (clientHello (SIP4 [10, 0, 0, 9]) 80) []] [peerConn [] []] [None, None, None, None, None, Some (Errno 111)])
   in isClosed (heap (pnet s') ! 0) \<and> openFds s' = [1]"
proof -
  let ?s = "proxySys [peerConn (clientHello (SIP4 [10, 0, 0, 9]) 80) []] [peerConn [] []] [None, None, None, None, None, Some (Errno 111)]"
  have "0 < length (heap (pnet ?s))" by (simp add: proxySys_def peerNet_def)
  from handleProxyConn_no_leak [OF this refl, of "\<lambda>h. Inr [[10, 0, 0, 9]]" "\<lambda>b. [b]" False] show ?thesis
    by (simp add: proxySys_def)
qed

text \<open>
  C29: \<open>dialInNS\<close> always ends with one answer and one connection at most. Whatever the outcome of
  each system call and of the resolver, its goroutine pushes exactly one result into the
  channel of capacity one (so neither it nor a reader blocks for ever), and a connection that
  is not returned, because the context expired first or another address worked, is closed.
\<close>

theorem dialInNS_one_result:
  "(\<exists>r. resCh (dialWorker lookup host port s) = [r]) \<and>
   (case dialInNS lookup expired dst s of
      (Inl e, s') \<Rightarrow> new_closed (pnet s) (pnet s') {} \<and> openFds s' = openFds s
    | (Inr u, s') \<Rightarrow> live (pnet s') u \<and> length (heap (pnet s)) \<le> u \<and>
        new_closed (pnet s) (pnet s') {u} \<and> openFds s' = openFds s)"
  using dialWorker_push [of lookup host port s] dialInNS_out [of lookup expired dst s]
  by (auto simp: dialOut_def split: prod.split sum.split)

lemma tx_close [simp]: "tx (heap (c_close i n) ! j) = tx (heap n ! j)"
  by (cases "i < length (heap n)"; cases "i = j") (simp_all add: c_close_def upd_def list_update_beyond)

text \<open>The state in which the dial starts, once the request is read.\<close>

lemma request_read:
  assumes "writable (pnet s) c (Suc k)" "rx (heap (pnet s) ! c) = clientHello x port @ payload" "wf_saddr x"
    "tx (heap (pnet s) ! c) = []"
  shows "\<exists>n. (andThen (greetClient c) (\<lambda>_. andThen (readTarget c) (\<lambda>target.
       andThen (modS (modPNet (c_setDeadline c NoDeadline))) (\<lambda>_. f target)))
       (modPNet (c_setDeadline c d) s) =
       f (joinHostPort (saddr_string x) (formatUint (unat port))) (s\<lparr>pnet := n\<rparr>)) \<and>
     only c (pnet s) n \<and> writable n c k \<and> rx (heap n ! c) = payload \<and>
     tx (heap n ! c) = [[socks5Version, socks5MethodNoAuth]]"
proof -
  let ?g = "[socks5Version, socks5MethodNoAuth]" and ?r = "[socks5Version, socks5CmdConnect, 0] @ saddr_type x # saddr_body x @ be16_put port @ payload"
  let ?s0 = "modPNet (c_setDeadline c d) s"
  let ?n1 = "putTx c ?g (setRx c ?r (pnet ?s0))"
  let ?n = "c_setDeadline c NoDeadline (setRx c payload ?n1)"
  have w0: "writable (pnet ?s0) c (Suc k)" using assms(1) by (simp add: modPNet_def)
  have rd: "readable (pnet ?s0) c" by (rule writable_readable [OF w0])
  have 1: "greetClient c ?s0 = (Inr (), ?s0\<lparr>pnet := ?n1\<rparr>)"
    using w0 assms(2) by (intro greetClient_ok [of _ _ k socks5MethodNoAuth]) (simp_all add: modPNet_def clientHello_def)
  have 2: "readTarget c (?s0\<lparr>pnet := ?n1\<rparr>) =
      (Inr (joinHostPort (saddr_string x) (formatUint (unat port))), ?s0\<lparr>pnet := ?n1\<rparr>\<lparr>pnet := setRx c payload ?n1\<rparr>)"
    using readTarget_ok [of "?s0\<lparr>pnet := ?n1\<rparr>" c x 0 port payload] rd assms(3) by simp
  have w1: "writable ?n1 c k" by (rule writable_putTx) (use w0 in simp)
  have "writable ?n c k" using w1 by simp
  moreover have "only c (pnet s) ?n"
    by (intro only_trans [OF _ keeps_only_deadline] only_trans [OF _ only_setRx])
      (auto simp: putTx_def modPNet_def intro: only_trans [OF keeps_only_deadline] only_trans [OF only_setRx upd_only])
  moreover have "rx (heap ?n ! c) = payload" "tx (heap ?n ! c) = [?g]"
    using rd assms(4) by (simp_all add: modPNet_def)
  moreover have "?s0\<lparr>pnet := ?n1\<rparr>\<lparr>pnet := setRx c payload ?n1\<rparr> = s\<lparr>pnet := setRx c payload ?n1\<rparr>"
    by (simp add: modPNet_def)
  ultimately show ?thesis using 1 2 by (intro exI [of _ ?n]) (simp add: modPNet_def)
qed

lemma handle_serves:
  assumes "c < length (heap (pnet s))" "s' = handleProxyConn lookup chunks False c s"
    and "rx (heap (pnet s) ! c) = clientHello x port @ payload" "wf_saddr x"
    and "CHR ''['' \<notin> set (saddr_string x)" "CHR '']'' \<notin> set (saddr_string x)"
    and "writable (pnet s) c (2 + length (chunks (rx up)))" "tx (heap (pnet s) ! c) = []"
    and "errs s = []" "script (pnet s) = Inr up # rest" "chunking chunks"
    and "length (chunks payload) \<le> wrLeft up" "wrCap up = None" "tx up = []"
    and "(case parseIP (saddr_string x) of Some ip \<Rightarrow> Inr [ip] | None \<Rightarrow> lookup (saddr_string x)) = Inr (ip # ips)"
    and "sockaddr ip = (v6, addr)"
  shows "PConnect (nextFd s) addr port \<in> set (calls s') \<and>
     concat (tx (heap (pnet s') ! c)) = [socks5Version, socks5MethodNoAuth] @
        [socks5Version, socks5RepSuccess, 0, socks5AddrIPv4, 0, 0, 0, 0, 0, 0] @ rx up \<and>
     concat (tx (heap (pnet s') ! length (heap (pnet s)))) = payload"
proof -
  let ?k = "Suc (length (chunks (rx up)))" and ?g = "[socks5Version, socks5MethodNoAuth]"
  let ?host = "saddr_string x" and ?u = "length (heap (pnet s))"
  let ?ok = "[socks5Version, 0x00, 0x00, socks5AddrIPv4, 0, 0, 0, 0, 0, 0]"
  let ?t = "joinHostPort ?host (formatUint (unat port))"
  have w: "writable (pnet s) c (Suc ?k)" using assms(7) by simp
  obtain n where h: "s' = modPNet (c_close c) (snd (serve lookup chunks False c ?t (s\<lparr>pnet := n\<rparr>)))"
    and n: "only c (pnet s) n" "writable n c ?k" "rx (heap n ! c) = payload" "tx (heap n ! c) = [?g]"
    using request_read [OF w assms(3,4,8), of "serve lookup chunks False c" "InSeconds 15"] assms(2)
    unfolding handleProxyConn_def by auto
  let ?up = "up\<lparr>isClosed := False, dline := NoDeadline\<rparr>"
  let ?n4 = "n\<lparr>dialed := dialed n @ [(''file'', ''tcp'')], script := rest, heap := heap n @ [?up]\<rparr>"
  have hn: "length (heap n) = ?u" "script n = Inr up # rest" using n(1) assms(10) by (simp_all add: only_def)
  have d: "netDial ''file'' ''tcp'' n = (Inr ?u, ?n4)" using hn by (simp add: netDial_def)
  obtain s4 where s4: "dialInNS lookup False ?t (s\<lparr>pnet := n\<rparr>) = (Inr ?u, s4)" "pnet s4 = ?n4"
    "PConnect (nextFd s) addr port \<in> set (calls s4)"
    using dialInNS_ok [of "s\<lparr>pnet := n\<rparr>" ?t ?host "formatUint (unat port)" "unat port" lookup ip ips v6 addr ?u ?n4]
      splitHostPort_join_format [OF assms(5,6)] assms(9,15,16) d by auto
  have w4: "writable ?n4 c (Suc (length (chunks (rx up))))"
    using n(2) hn assms(1) by (simp add: writable_def readable_def nth_append)
  let ?n5 = "putTx c ?ok ?n4"
  have c5: "heap ?n5 ! c = (heap n ! c)\<lparr>tx := [?g, ?ok], wrLeft := wrLeft (heap n ! c) - 1\<rparr>"
    "heap ?n5 ! ?u = ?up" "length (heap ?n5) = Suc ?u"
    using assms(1) hn n(4) by (simp_all add: putTx_def upd_def nth_append)
  have p1: "writable ?n5 c (length (chunks (rx (heap ?n5 ! ?u))))"
    unfolding c5(2) using writable_putTx [OF w4, of ?ok] by simp
  have p2: "writable ?n5 ?u (length (chunks (rx (heap ?n5 ! c))))"
    unfolding writable_def readable_def c5 using assms(12,13) n(3) by simp
  have "c_write c ?ok ?n4 = (Inr (length ?ok), ?n5)" by (rule write_putTx [OF w4])
  then have "snd (serve lookup chunks False c ?t (s\<lparr>pnet := n\<rparr>)) =
      modPNet (c_close ?u) (modPNet (pipe chunks c ?u) (s4\<lparr>pnet := ?n5\<rparr>))"
    using s4 by (simp add: serve_def onPNet_def)
  then have e: "s' = s4\<lparr>pnet := c_close c (c_close ?u (pipe chunks c ?u ?n5))\<rparr>" using h by (simp add: modPNet_def)
  have "c \<noteq> ?u" using assms(1) by simp
  from pipe_ok [OF this p1 p2 assms(11)] show ?thesis
    unfolding e using c5 n(3) s4(3) assms(14) by (simp add: socks5RepSuccess_def)
qed

text \<open>
  C28: the proxy serves the client it is asked to serve. When a client sends a greeting, a CONNECT
  request for an address and then its data, and the calls succeed, the proxy connects to the
  first address of exactly that host and to exactly that port, answers with a method choice
  and a success reply, and carries the client's data to the upstream and the upstream's data
  to the client, whole and in order.
\<close>

theorem handleProxyConn_serves:
  assumes "c < length (heap (pnet s))" "s' = handleProxyConn lookup chunks False c s"
    and "rx (heap (pnet s) ! c) = clientHello x port @ payload" "wf_saddr x"
    and "CHR ''['' \<notin> set (saddr_string x)" "CHR '']'' \<notin> set (saddr_string x)"
    and "writable (pnet s) c (2 + length (chunks (rx up)))" "tx (heap (pnet s) ! c) = []"
    and "errs s = []" "script (pnet s) = Inr up # rest" "chunking chunks"
    and "length (chunks payload) \<le> wrLeft up" "wrCap up = None" "tx up = []"
    and "(case parseIP (saddr_string x) of Some ip \<Rightarrow> Inr [ip] | None \<Rightarrow> lookup (saddr_string x)) = Inr (ip # ips)"
    and "sockaddr ip = (v6, addr)"
  shows "PConnect (nextFd s) addr port \<in> set (calls s') \<and>
     concat (tx (heap (pnet s') ! c)) = [socks5Version, socks5MethodNoAuth] @
        [socks5Version, socks5RepSuccess, 0, socks5AddrIPv4, 0, 0, 0, 0, 0, 0] @ rx up \<and>
     concat (tx (heap (pnet s') ! length (heap (pnet s)))) = payload"
  using assms by (rule handle_serves)

theorem handleProxyConn_serves_witness:
  "let s' = handleProxyConn (\<lambda>h. Inr [[10, 0, 0, 9]]) (\<lambda>b. [b]) False 0
       (proxySys [peerConn (clientHello (SDomain ''db'') 80 @ [1, 2, 3]) []] [peerConn [4, 5] []] [])
   in PConnect 7 [10, 0, 0, 9] 80 \<in> set (calls s') \<and> concat (tx (heap (pnet s') ! 1)) = [1, 2, 3]"
proof -
  let ?s = "proxySys [peerConn (clientHello (SDomain ''db'') 80 @ [1, 2, 3]) []] [peerConn [4, 5] []] []"
  have "parseIP ''db'' = None" by code_simp
  then show ?thesis
    using handleProxyConn_serves [of 0 ?s _ "\<lambda>h. Inr [[10, 0, 0, 9]]" "\<lambda>b. [b]" "SDomain ''db''" 80 "[1, 2, 3]"
        "peerConn [4, 5] []" "[]" "[10, 0, 0, 9]" "[]" False "[10, 0, 0, 9]", OF _ refl]
    by (simp add: proxySys_def peerNet_def peerConn_def writable_def readable_def chunking_def sockaddr_def ip_to4_def)
qed

text \<open>
  C40: an accept error does not stop the server, and only a cancelled context does. Every
  connection accepted before that is handed to a handler, exactly once and in order.
\<close>

theorem runProxy_serves_until_cancelled:
  "runProxy addr (Inr ()) evs =
     (let before = takeWhile (\<lambda>ev. case ev of AcceptErr e True \<Rightarrow> False | _ \<Rightarrow> True) evs
      in ([c. Accepted c \<leftarrow> before], if length before < length evs then Some None else None))"
proof -
  have "acceptLoop evs =
     (let before = takeWhile (\<lambda>ev. case ev of AcceptErr e True \<Rightarrow> False | _ \<Rightarrow> True) evs
      in ([c. Accepted c \<leftarrow> before], if length before < length evs then Some None else None))"
    by (induction evs rule: acceptLoop.induct) (auto simp: Let_def)
  then show ?thesis by (simp add: runProxy_def)
qed

end
