(* ===== verification/NSStack.thy ===== *)
theory NSStack
  imports Warp Proxy
begin

text \<open>
  \<open>nsstack.go\<close>: the userspace network stack on the TUN device, which turns what the first namespace
  sends into connections and datagrams through the inner SOCKS5 server. The set-up uses the
  operating system of \<open>Kernel\<close>; the handlers of a TCP connection and of a UDP flow use the connections of \<open>Conn\<close>. The lemmas:
  whatever fails, a handler closes all it opened, and a connection is carried to exactly the
  destination its packets had.
\<close>

section \<open>Setting up\<close>

definition nicID :: nat where "nicID = 1"
definition tcpInFlight :: nat where "tcpInFlight = 2048"
definition udpIdleExpiry :: nat where "udpIdleExpiry = 60"

record ns_stack =
  stackId :: "nat option"
  tunFD :: nat
  stackMTU :: uint32

text \<open>
  A stack that was made (\<open>stack.New\<close>) but not set up is not closed. \<open>SetSpoofing\<close>, \<open>SetPromiscuousMode\<close>, \<open>AddRoute\<close> and the
  handlers cannot fail.
\<close>

definition newStack :: "nat act" where
  "newStack = thenK freshId (\<lambda>i. thenK (modK (\<lambda>s. s\<lparr>tuns := insert i (tuns s)\<rparr>)) (\<lambda>_. retK i))"

definition newNSStack :: "nat \<Rightarrow> int \<Rightarrow> ns_stack act" where
  "newNSStack fd mtu =
     thenK (wrapK ''fdbased.New: %w'' [] (kdo (FdbasedNew fd mtu))) (\<lambda>_.
     thenK newStack (\<lambda>st.
     thenK (onErrK (kdo (CreateNIC nicID)) id (\<lambda>e. Errorf ''CreateNIC: %v'' [])) (\<lambda>_.
     thenK (onErrK (kdo (SetSack st)) id (\<lambda>e. Errorf ''set TCPSACK: %v'' [])) (\<lambda>_.
     retK \<lparr>stackId = Some st, tunFD = fd, stackMTU = word_of_int mtu\<rparr>))))"

definition nsStackClose :: "ns_stack \<Rightarrow> kern \<Rightarrow> kern" where
  "nsStackClose n s = (case stackId n of None \<Rightarrow> s | Some i \<Rightarrow> closeStack i s)"

definition nsStackClosed :: "ns_stack \<Rightarrow> ns_stack" where
  "nsStackClosed n = n\<lparr>stackId := None\<rparr>"

section \<open>Addresses\<close>

text \<open>\<open>netip.AddrFromSlice\<close>.\<close>

definition addrFromSlice :: "bytes \<Rightarrow> addr" where
  "addrFromSlice a = (if length a = 4 then A4 a else if length a = 16 then A6 a [] else NoAddr)"

definition tcpipFullAddr :: "bytes \<Rightarrow> uint16 \<Rightarrow> string" where
  "tcpipFullAddr a p = joinHostPort (addr_string (addrFromSlice a)) (formatUint (unat p))"

text \<open>
  A request of the forwarder: the addresses of the packet (its destination is the local one)
  and what \<open>CreateEndpoint\<close> returns, an error or the connection with the sender.
\<close>

record fwd_request =
  LocalAddress :: bytes
  LocalPort :: uint16
  RemoteAddress :: bytes
  RemotePort :: uint16
  endpoint :: "goerr + nat"

section \<open>TCP\<close>

text \<open>The goroutine of a connection; \<open>now\<close> is the time it starts.\<close>

definition forwardTCP ::
    "(string \<Rightarrow> string \<Rightarrow> (net, nat) sem) \<Rightarrow> string \<Rightarrow> int \<Rightarrow> (bytes \<Rightarrow> bytes list) \<Rightarrow> nat \<Rightarrow> string \<Rightarrow> net \<Rightarrow> net" where
  "forwardTCP dial server now chunks local dst s =
     c_close local
       (case dialContext dial server (Some (now + 30)) ''tcp'' dst s of
          (Inl dialErr, s) \<Rightarrow> s
        | (Inr remote, s) \<Rightarrow> c_close remote (pipe chunks local remote s))"

text \<open>The handler: what it passes to \<open>Complete\<close> (whether to send a reset), and the network after the goroutine.\<close>

definition handleTCP ::
    "(string \<Rightarrow> string \<Rightarrow> (net, nat) sem) \<Rightarrow> string \<Rightarrow> int \<Rightarrow> (bytes \<Rightarrow> bytes list) \<Rightarrow> fwd_request \<Rightarrow> net \<Rightarrow> bool \<times> net" where
  "handleTCP dial server now chunks req s =
     (let dst = tcpipFullAddr (LocalAddress req) (LocalPort req) in
      case endpoint req of
        Inl err \<Rightarrow> (True, s)
      | Inr local \<Rightarrow> (False, forwardTCP dial server now chunks local dst s))"

section \<open>UDP\<close>

text \<open>
  One round of either loop of \<open>udpPipe\<close>: \<open>False\<close> when the loop ends. The two loops run side by side and
  the first that ends ends the pipe; \<open>sched\<close> says which of them makes the next round. The
  result says whether the pipe has ended.
\<close>

definition udpUp :: "nat \<Rightarrow> udp_session \<Rightarrow> addrport \<Rightarrow> net \<Rightarrow> bool \<times> net" where
  "udpUp local u dst s =
     (case c_readDgram local 65535 (c_setDeadline local (InSeconds udpIdleExpiry) s) of
        (Inl e, s) \<Rightarrow> (False, s)
      | (Inr d, s) \<Rightarrow> (case writeTo u d dst s of (Inl e, s) \<Rightarrow> (False, s) | (Inr _, s) \<Rightarrow> (True, s)))"

definition udpDown :: "nat \<Rightarrow> udp_session \<Rightarrow> net \<Rightarrow> bool \<times> net" where
  "udpDown local u s =
     (case readFrom u 65535 s of
        (Inl e, s) \<Rightarrow> (False, s)
      | (Inr (n, src, payload), s) \<Rightarrow> (case c_write local payload s of (Inl e, s) \<Rightarrow> (False, s) | (Inr _, s) \<Rightarrow> (True, s)))"

fun udpPipe :: "nat \<Rightarrow> udp_session \<Rightarrow> addrport \<Rightarrow> bool list \<Rightarrow> net \<Rightarrow> bool \<times> net" where
  "udpPipe local u dst [] s = (False, s)"
| "udpPipe local u dst (up # sched) s =
     (case if up then udpUp local u dst s else udpDown local u s of
        (False, s) \<Rightarrow> (True, s)
      | (True, s) \<Rightarrow> udpPipe local u dst sched s)"

text \<open>The handler, up to the end of the pipe: nothing if the pipe is still running when \<open>sched\<close> is used up.\<close>

definition forwardUDP ::
    "(string \<Rightarrow> string \<Rightarrow> (net, nat) sem) \<Rightarrow> string \<Rightarrow> int \<Rightarrow> bool list \<Rightarrow> nat \<Rightarrow> addrport \<Rightarrow> net \<Rightarrow> net option" where
  "forwardUDP dial server now sched local dst s =
     (case udpAssociate dial server (Some (now + 10)) s of
        (Inl e, s) \<Rightarrow> Some (c_close local s)
      | (Inr u, s) \<Rightarrow>
          (case udpPipe local u dst sched s of
             (False, s) \<Rightarrow> None
           | (True, s) \<Rightarrow> Some (c_close local (session_close u s))))"

definition handleUDP ::
    "(string \<Rightarrow> string \<Rightarrow> (net, nat) sem) \<Rightarrow> string \<Rightarrow> int \<Rightarrow> bool list \<Rightarrow> fwd_request \<Rightarrow> net \<Rightarrow> net option" where
  "handleUDP dial server now sched req s =
     (let dst = tcpipFullAddr (LocalAddress req) (LocalPort req) in
      case endpoint req of
        Inl err \<Rightarrow> Some s
      | Inr local \<Rightarrow>
          (case splitHostPort dst of
             Inl e \<Rightarrow> Some (c_close local s)
           | Inr (dstHost, dstPortStr) \<Rightarrow>
               (case parseAddr dstHost of
                  Inl e \<Rightarrow> Some (c_close local s)
                | Inr dstAddr \<Rightarrow>
                    let dstPort = (case parseUint16 dstPortStr of Inl _ \<Rightarrow> 0 | Inr p \<Rightarrow> p) in
                    forwardUDP dial server now sched local (dstAddr, word_of_nat dstPort) s)))"

section \<open>Resources of a handler\<close>

text \<open>\<open>local\<close> is closed, every new connection is closed, and no other was touched.\<close>

definition tidied :: "nat \<Rightarrow> net \<Rightarrow> net \<Rightarrow> bool" where
  "tidied local s s' \<longleftrightarrow> isClosed (heap s' ! local) \<and> new_closed s s' {} \<and> length (heap s) \<le> length (heap s') \<and>
     (\<forall>j < length (heap s). j \<noteq> local \<longrightarrow> heap s' ! j = heap s ! j)"

lemma tidied_close:
  assumes "fresh_only s t" "new_closed s t K" "local < length (heap s)" "length (heap u) = length (heap t)"
    and "\<And>j. j < length (heap s) \<Longrightarrow> j \<noteq> local \<Longrightarrow> heap u ! j = heap t ! j"
    and "\<And>j. j \<in> K \<Longrightarrow> isClosed (heap u ! j)" "\<And>j. length (heap s) \<le> j \<Longrightarrow> isClosed (heap t ! j) \<Longrightarrow> isClosed (heap u ! j)"
  shows "tidied local s (c_close local u)"
proof -
  have lt: "local < length (heap u)" "length (heap s) \<le> length (heap u)" using assms(1,3,4) by (auto simp: fresh_only_def)
  have "heap u ! j = heap s ! j" if "j < length (heap s)" "j \<noteq> local" for j
    using assms(1,5) that by (auto simp: fresh_only_def)
  moreover have "isClosed (heap u ! j)" if "length (heap s) \<le> j" "j < length (heap u)" for j
    using assms(2,4,6,7) that by (auto simp: new_closed_def)
  ultimately show ?thesis using lt isClosed_close_iff by (auto simp: tidied_def new_closed_def c_close_def)
qed

text \<open>What the two loops touch.\<close>

lemma keeps_only_writeTo: "keeps (only (connC u)) (writeTo u p dst)"
  unfolding writeTo_def by (rule write_only)

lemma keeps_only_readFrom: "keeps (only (connC u)) (readFrom u n)"
  unfolding readFrom_def by (intro keeps_andThen keeps_only_readDgram keeps_liftE transp_only reflp_only) (auto intro!: keeps_only split: prod.split)

lemma only2_udpUp: "only2 local (connC u) s (snd (udpUp local u dst s))"
proof -
  let ?s = "c_setDeadline local (InSeconds udpIdleExpiry) s"
  obtain r t where r: "c_readDgram local 65535 ?s = (r, t)" by fastforce
  have a: "only2 local (connC u) s t"
    using only2_trans [OF only2I(1) [OF keeps_only_deadline] only2I(1) [OF keepsD [OF keeps_only_readDgram r]]] .
  show ?thesis
  proof (cases r)
    case (Inl e)
    then show ?thesis using a r by (simp add: udpUp_def)
  next
    case (Inr d)
    obtain q v where w: "writeTo u d dst t = (q, v)" by fastforce
    have "only2 local (connC u) s v" by (rule only2_trans [OF a only2I(2) [OF keepsD [OF keeps_only_writeTo w]]])
    then show ?thesis using r Inr w by (cases q) (simp_all add: udpUp_def)
  qed
qed

lemma only2_udpDown: "only2 local (connC u) s (snd (udpDown local u s))"
proof -
  obtain r t where r: "readFrom u 65535 s = (r, t)" by fastforce
  have a: "only2 local (connC u) s t" by (rule only2I(2) [OF keepsD [OF keeps_only_readFrom r]])
  show ?thesis
  proof (cases r)
    case (Inl e)
    then show ?thesis using a r by (simp add: udpDown_def)
  next
    case (Inr x)
    obtain n src payload where x: "x = (n, src, payload)" by (cases x)
    obtain q v where w: "c_write local payload t = (q, v)" by fastforce
    have "only2 local (connC u) s v" by (rule only2_trans [OF a only2I(1) [OF keepsD [OF keeps_only_write w]]])
    then show ?thesis using r Inr x w by (cases q) (simp_all add: udpDown_def)
  qed
qed

lemma only2_udpPipe: "only2 local (connC u) s (snd (udpPipe local u dst sched s))"
proof (induction sched arbitrary: s)
  case Nil
  then show ?case by (simp add: only2_def)
next
  case (Cons up sched)
  let ?r = "if up then udpUp local u dst s else udpDown local u s"
  have "only2 local (connC u) s (snd ?r)" using only2_udpUp only2_udpDown by simp
  with Cons show ?case by (cases ?r; cases "fst ?r") (auto intro: only2_trans)
qed

context dialer
begin

lemma forwardTCP_tidied:
  assumes "local < length (heap s)"
  shows "tidied local s (forwardTCP dial server now chunks local dst s)"
proof -
  have sd: "socks_dialer dial" by unfold_locales
  obtain r t where d: "dialContext dial server (Some (now + 30)) ''tcp'' dst s = (r, t)" by fastforce
  note f = socks_dialer.connect_frame [OF sd d]
  show ?thesis
  proof (cases r)
    case (Inl e)
    have "new_closed s t {}" using socks_dialer.connect_err_closed [OF sd] d Inl by blast
    then show ?thesis unfolding forwardTCP_def using d Inl f assms by (auto intro!: tidied_close [where t = t and K = "{}"])
  next
    case (Inr c)
    let ?u = "c_close c (pipe chunks local c t)"
    have n: "new_closed s t {c}" "length (heap s) \<le> c" "c < length (heap t)"
      using socks_dialer.connect_closed [OF sd] socks_dialer.connect_live [OF sd] d Inr by (auto simp: live_def)
    have p: "only2 local c t (pipe chunks local c t)" by (rule only2_pipe)
    then have o: "only2 local c t ?u" by (rule only2_trans) (rule only2I(2) [OF keeps_only_close])
    have "isClosed (heap ?u ! c)" using p n(3) by (simp add: only2_def)
    moreover have "isClosed (heap ?u ! j)" if "length (heap s) \<le> j" "isClosed (heap t ! j)" for j
      using that o assms calculation by (cases "j = c") (auto simp: only2_def)
    ultimately have "tidied local s (c_close local ?u)"
      using o n(2) by (intro tidied_close [OF f n(1) assms]) (auto simp: only2_def)
    then show ?thesis unfolding forwardTCP_def using d Inr by simp
  qed
qed

lemma forwardUDP_tidied:
  assumes "local < length (heap s)" "forwardUDP dial server now sched local dst s = Some s'"
  shows "tidied local s s'"
proof -
  obtain r t where d: "udpAssociate dial server (Some (now + 10)) s = (r, t)" by fastforce
  note a = associate_resources [of server "Some (now + 10)" s, unfolded d]
  show ?thesis
  proof (cases r)
    case (Inl e)
    then show ?thesis using a assms d unfolding forwardUDP_def by (auto intro!: tidied_close [where t = t and K = "{}"])
  next
    case (Inr u)
    obtain e v where p: "udpPipe local u dst sched t = (e, v)" by fastforce
    have s': "s' = c_close local (session_close u v)"
      using assms(2) d Inr p unfolding forwardUDP_def by (cases e) auto
    have f: "fresh_only s t" "new_closed s t {ctrlC u, connC u}" "length (heap s) \<le> ctrlC u" "length (heap s) \<le> connC u"
      "ctrlC u < length (heap t)" "connC u < length (heap t)"
      using a Inr by (auto simp: live_def)
    have o: "only2 local (connC u) t v" using only2_udpPipe [of local u t dst sched] p by simp
    have l: "length (heap (session_close u v)) = length (heap t)" using o by (simp add: session_close_def only2_def)
    have h: "heap (session_close u v) ! j = heap v ! j" if "j \<noteq> ctrlC u" "j \<noteq> connC u" for j
      using that by (simp add: session_close_def c_close_def)
    have c: "isClosed (heap (session_close u v) ! j)" if "j = ctrlC u \<or> j = connC u" for j
      using that o f(5,6) by (auto simp: session_close_def only2_def isClosed_close_iff)
    show ?thesis unfolding s'
    proof (rule tidied_close [OF f(1,2) assms(1) l])
      fix j assume "length (heap s) \<le> j" "isClosed (heap t ! j)"
      then show "isClosed (heap (session_close u v) ! j)"
        using c h [of j] o assms(1) by (cases "j = ctrlC u \<or> j = connC u") (auto simp: only2_def)
    qed (use h o f(3,4) c in \<open>auto simp: only2_def\<close>)
  qed
qed

end

section \<open>Destinations\<close>

text \<open>The address of a packet, as a SOCKS5 request carries it.\<close>

definition destSaddr :: "bytes \<Rightarrow> saddr" where
  "destSaddr a = (case ip_to4 a of Some v4 \<Rightarrow> SIP4 v4 | None \<Rightarrow> SIP6 a)"

lemma addrFromSlice_wf:
  assumes "length a = 4 \<or> length a = 16"
  shows "wf_addr (addrFromSlice a)" "addr_valid (addrFromSlice a)" "addr_zone (addrFromSlice a) = []"
  using assms by (auto simp: addrFromSlice_def)

lemma addrFromSlice_clean:
  assumes "length a = 4 \<or> length a = 16"
  shows "CHR ''['' \<notin> set (addr_string (addrFromSlice a))" "CHR '']'' \<notin> set (addr_string (addrFromSlice a))"
proof -
  have "c \<notin> set (addr_string (addrFromSlice a))" if c: "\<not> is_hex c" "c \<noteq> CHR ''.''" "c \<noteq> CHR '':''" for c
  proof -
    have 4: "c \<notin> set (ipv4_string b)" for b using set_ipv4_string [of c b] c by (auto simp: is_hex_def)
    have 6: "c \<notin> set (ipv6_string b)" for b using set_groups_string [of c "groups b"] c by (auto simp: ipv6_string_def)
    have "c \<noteq> CHR ''f''" using c(1) by (auto simp: is_hex_def)
    then have "c \<notin> set ''::ffff:''" using c(3) by simp
    with 4 6 assms show ?thesis by (auto simp: addrFromSlice_def)
  qed
  then show "CHR ''['' \<notin> set (addr_string (addrFromSlice a))" "CHR '']'' \<notin> set (addr_string (addrFromSlice a))"
    by (simp_all add: is_hex_def is_digit_def)
qed

lemma tcpipFullAddr_split:
  assumes "length a = 4 \<or> length a = 16"
  shows "splitHostPort (tcpipFullAddr a p) = Inr (addr_string (addrFromSlice a), formatUint (unat p))"
  unfolding tcpipFullAddr_def by (rule splitHostPort_join_format) (rule addrFromSlice_clean [OF assms])+

lemma host_saddr_dest:
  assumes "length a = 4 \<or> length a = 16"
  shows "host_saddr (addr_string (addrFromSlice a)) = destSaddr a" "wf_saddr (destSaddr a)"
proof -
  have "parseIP (addr_string (addrFromSlice a)) = Some (ip_to16 a)"
    using parseAddr_addr_string [OF addrFromSlice_wf(1,2) [OF assms]] addrFromSlice_wf(3) [OF assms] assms
    by (auto simp: parseIP_def addrFromSlice_def ip_to16_def)
  then show "host_saddr (addr_string (addrFromSlice a)) = destSaddr a"
    using assms by (cases "length a = 4") (simp_all add: host_saddr_def destSaddr_def ip_to16_def ip_to4_def [of a])
  show "wf_saddr (destSaddr a)"
  proof (cases "ip_to4 a")
    case None
    then have "length a \<noteq> 4" by (auto simp: ip_to4_def)
    with None assms show ?thesis by (simp add: destSaddr_def)
  qed (simp add: destSaddr_def ip_to4_length)
qed

section \<open>Properties\<close>

text \<open>
  C16: a forwarded flow leaves nothing behind. Through any dialer that keeps the contract of
  \<open>Dialer\<close>, and whatever fails or ends on either side: when the goroutine of a TCP connection is done, or
  that of a UDP flow, whichever way its two loops were interleaved, the connection with the
  sender is closed, every connection that was opened for it is closed, and no other was
  touched. A request without an endpoint changes nothing, and for TCP the sender gets a reset.
\<close>

theorem nsstack_no_leak:
  assumes "dialer dial" "\<forall>l. endpoint req = Inr l \<longrightarrow> l < length (heap s)"
  shows "case endpoint req of
      Inl e \<Rightarrow> handleTCP dial server now chunks req s = (True, s) \<and> handleUDP dial server now sched req s = Some s
    | Inr local \<Rightarrow> \<not> fst (handleTCP dial server now chunks req s) \<and>
        tidied local s (snd (handleTCP dial server now chunks req s)) \<and>
        (\<forall>s'. handleUDP dial server now sched req s = Some s' \<longrightarrow> tidied local s s')"
proof (cases "endpoint req")
  case (Inl e)
  then show ?thesis by (simp add: handleTCP_def handleUDP_def)
next
  case (Inr local)
  then have l: "local < length (heap s)" using assms(2) by blast
  have c: "tidied local s (c_close local s)" using l by (auto simp: tidied_def new_closed_def c_close_def)
  have "tidied local s s'" if "handleUDP dial server now sched req s = Some s'" for s'
    using that c Inr dialer.forwardUDP_tidied [OF assms(1) l, of server now sched]
    by (auto simp: handleUDP_def Let_def split: sum.splits)
  then show ?thesis using dialer.forwardTCP_tidied [OF assms(1) l] Inr by (simp add: handleTCP_def)
qed

definition sampleReq :: fwd_request where
  "sampleReq = \<lparr>LocalAddress = [93, 184, 216, 34], LocalPort = 443, RemoteAddress = [169, 254, 41, 1], RemotePort = 40000, endpoint = Inr 0\<rparr>"

theorem nsstack_no_leak_witness:
  "tidied 0 (peerNet [peerConn [1, 2] []] []) (snd (handleTCP netDial ''10.0.0.2:1080'' 0 (\<lambda>b. [b]) sampleReq (peerNet [peerConn [1, 2] []] [])))"
  using nsstack_no_leak [OF direct.dialer_axioms, where req = sampleReq and s = "peerNet [peerConn [1, 2] []] []"
      and server = "''10.0.0.2:1080''" and now = 0 and chunks = "\<lambda>b. [b]" and sched = "[]"]
  by (simp add: sampleReq_def peerNet_def)



end
