(* ===== verification/MainProg.thy ===== *)
theory MainProg
  imports NSStack RunCmd
begin

text \<open>
  \<open>main.go\<close>: the parts put together. \<open>setupAll\<close> starts them one after the other and closes what is
  running when a step fails. The lemmas: a set-up
  that fails, at whichever step, holds nothing; one that succeeds holds exactly its parts, and
  closing it releases them; it panics only on names that no check has refused. What it
  configures is in \<open>Confined\<close>, the subcommands are in \<open>Commands\<close>.
\<close>

section \<open>The state\<close>

record state =
  sWarpNS :: "netns option"
  sEgress :: "netns option"
  sWG :: "wg_client option"
  sTUN :: "tun_device option"
  sStack :: "ns_stack option"
  sWarpSvc :: "warp_proc option"

definition emptyState :: state where
  "emptyState = \<lparr>sWarpNS = None, sEgress = None, sWG = None, sTUN = None, sStack = None, sWarpSvc = None\<rparr>"

definition onSome :: "('a \<Rightarrow> kern \<Rightarrow> kern) \<Rightarrow> 'a option \<Rightarrow> kern \<Rightarrow> kern" where
  "onSome f x s = (case x of None \<Rightarrow> s | Some x \<Rightarrow> f x s)"

definition stateClose :: "state \<Rightarrow> kern \<Rightarrow> kern" where
  "stateClose st =
     onSome nsClose (sWarpNS st) \<circ> (onSome nsClose (sEgress st) \<circ> (wgClose (sWG st) \<circ>
     (onSome tunClose (sTUN st) \<circ> (onSome nsStackClose (sStack st) \<circ> killWarpSvc (sWarpSvc st)))))"

section \<open>Setting up\<close>

text \<open>
  What the set-up sees of its surroundings: the user it runs as, the random bytes and the name
  the kernel gives the TUN device, the resolver, the executables, the working directory, the output of the
  registration, the readiness polls, and whether the context is done before the daemon is up.
\<close>

record host =
  euid :: nat
  rndBytes :: bytes
  setIff :: "bytes \<Rightarrow> bytes"
  lookupHost :: "string \<Rightarrow> goerr + string list"
  lookPath :: lookpath
  workDir :: "goerr + string"
  unicodeLower :: "rune \<Rightarrow> rune"
  regOutput :: "nat \<Rightarrow> string \<times> string"
  ready :: ready_env
  earlyDone :: "goerr option"

definition stateDirBind :: "config \<Rightarrow> bind_mount list" where
  "stateDirBind cfg = (if WarpStateDir cfg \<noteq> ''''
     then [\<lparr>bmSource = WarpStateDir cfg, bmTarget = ''/var/lib/cloudflare-warp'', bmReadOnly = False\<rparr>] else [])"

text \<open>\<open>if err := m; err != nil { state.Close(); return nil, g err }\<close>.\<close>

abbreviation orClose :: "state \<Rightarrow> 'a act \<Rightarrow> (goerr \<Rightarrow> goerr) \<Rightarrow> 'a act" where
  "orClose st m g \<equiv> onErrK m (stateClose st) g"

definition startTunnel :: "host \<Rightarrow> config \<Rightarrow> wg_client option act" where
  "startTunnel h cfg =
     (if NoWireGuard cfg then retK None
      else thenK (orClose emptyState (startWireGuard (lookupHost h) cfg) (Wrapf ''wireguard: %w'' [])) (\<lambda>wg. retK (Some wg)))"

text \<open>From the registration of the device to the connection.\<close>

definition bringUp :: "host \<Rightarrow> config \<Rightarrow> netns \<Rightarrow> state \<Rightarrow> unit act" where
  "bringUp h cfg warpNS st =
     thenK (orClose st (case earlyDone h of Some e \<Rightarrow> failK e | None \<Rightarrow> retK ()) id) (\<lambda>_.
     thenK (orClose st (registerWarp (unicodeLower h) (regOutput h) (netnsRun warpNS) (WarpCli cfg) (WarpConnectRetry cfg) (WarpConnectDelay cfg)) id) (\<lambda>_.
     thenK (orClose st (setWarpTunnelProtocol (netnsRun warpNS) (WarpCli cfg) (WarpProtocol cfg) (WarpConnectRetry cfg) (WarpConnectDelay cfg)) id) (\<lambda>_.
     orClose st (connectWarp (netnsRun warpNS) (WarpCli cfg) (WarpConnectRetry cfg) (WarpConnectDelay cfg)) id)))"

text \<open>Up to the wait: the parts but for the egress namespace.\<close>

definition setupBegin :: "host \<Rightarrow> config \<Rightarrow> (state \<times> netns \<times> config) act" where
  "setupBegin h cfg =
     (if euid h \<noteq> 0 then failK (Errorf ''must run as root (CAP_NET_ADMIN required)'' [])
      else
        thenK (startTunnel h cfg) (\<lambda>wg.
        let st = emptyState\<lparr>sWG := wg\<rparr> in
        thenK (orClose st (liftK (case prepareWarpCommandBinds (lookPath h) (workDir h) cfg of (Inl e, _) \<Rightarrow> Inl e | (Inr b, c) \<Rightarrow> Inr (b, c))) id) (\<lambda>(binds, cfg).
        thenK (orClose st (createNetNS \<lparr>RootMode = NetNSRootSandbox, Nameserver = NetnsResolvNameserver cfg,
                 ExtraEtcBinds = [], ExtraBinds = binds @ stateDirBind cfg\<rparr>) (Wrapf ''warp netns: %w'' [])) (\<lambda>warpNS.
        let st = st\<lparr>sWarpNS := Some warpNS\<rparr> in
        thenK (orClose st (createTUN (rndBytes h) (setIff h) (TunDev cfg)) (Wrapf ''tun: %w'' [])) (\<lambda>tun.
        let st = st\<lparr>sTUN := Some tun\<rparr> in
        thenK (orClose st (moveToNetNS tun (fdNum (NetFD warpNS))) (Wrapf ''tun move: %w'' [])) (\<lambda>_.
        thenK (orClose st (newNSStack (fdNum (tunFile tun)) (TunMTU cfg)) (Wrapf ''netstack: %w'' [])) (\<lambda>stack.
        let st = st\<lparr>sStack := Some stack\<rparr> in
        thenK (orClose st (netnsRun warpNS (configureLinkInNS (tunName tun) tunAddrCIDR (TunMTU cfg))) (Wrapf ''configure warp netns link: %w'' [])) (\<lambda>_.
        thenK (orClose st (startWarpSvc warpNS (WarpSvcCmd cfg)) id) (\<lambda>warpSvc.
        let st = st\<lparr>sWarpSvc := warpSvc\<rparr> in
        thenK (bringUp h cfg warpNS st) (\<lambda>_.
        retK (st, warpNS, cfg)))))))))))"

definition setupEnd :: "config \<Rightarrow> netns \<Rightarrow> state \<Rightarrow> state act" where
  "setupEnd cfg warpNS st =
     thenK (orClose st (createEgressNS warpNS (NetnsResolvNameserver cfg) (WarpIface cfg)) (Wrapf ''egress: %w'' [])) (\<lambda>egress.
     retK (st\<lparr>sEgress := Some egress\<rparr>))"

text \<open>\<open>time.Duration(n) * time.Second\<close>, in nanoseconds: the product wraps around at 64 bits.\<close>

definition seconds :: "int \<Rightarrow> int" where
  "seconds n = sint (word_of_int (n * 1000000000) :: 64 word)"

definition setupAll :: "host \<Rightarrow> config \<Rightarrow> kern \<Rightarrow> (state outcome \<times> kern) option" where
  "setupAll h cfg s =
     (case setupBegin h cfg s of
        (Crashed p, s) \<Rightarrow> Some (Crashed p, s)
      | (Returned (Inl e), s) \<Rightarrow> Some (Err e, s)
      | (Returned (Inr (st, warpNS, cfg)), s) \<Rightarrow>
          (case waitForWarpRoute (ready h) warpNS (WarpIface cfg) (seconds (WarpReadyTimeout cfg)) s of
             None \<Rightarrow> None
           | Some (r, s) \<Rightarrow>
               Some (thenK (orClose st (\<lambda>s. (r, s)) (Wrapf ''warp readiness: %w'' [])) (\<lambda>_. setupEnd cfg warpNS st) s)))"

lemma seconds_exact: "\<bar>n\<bar> \<le> 9223372036 \<Longrightarrow> seconds n = n * 1000000000"
proof -
  assume n: "\<bar>n\<bar> \<le> 9223372036"
  have "seconds n = signed_take_bit 63 (n * 1000000000)" unfolding seconds_def by (simp only: sint_sbintrunc') simp
  also have "\<dots> = n * 1000000000" using n by (intro signed_take_bit_int_eq_self) auto
  finally show ?thesis .
qed

lemma seconds_range: "- (2 ^ 63) \<le> seconds n \<and> seconds n < 2 ^ 63"
  unfolding seconds_def using sint_greater_eq [where 'a = 64] sint_less [where 'a = 64] by simp

lemma seconds_wraps: "seconds 9223372037 < 0"
  by code_simp

section \<open>What the state holds\<close>

definition optUses :: "('a \<Rightarrow> res multiset) \<Rightarrow> 'a option \<Rightarrow> res multiset" where
  "optUses f x = (case x of None \<Rightarrow> {#} | Some x \<Rightarrow> f x)"

definition stateUses :: "state \<Rightarrow> res multiset" where
  "stateUses st = procUses (sWarpSvc st) + (optUses tunUses (sTUN st) + (optUses wgUses (sWG st) +
     (optUses nsUses (sEgress st) + optUses nsUses (sWarpNS st))))"

lemma frees_onSome: "(\<And>x. frees (f x) (u x)) \<Longrightarrow> frees (onSome f y) (optUses u y)"
  by (cases y) (auto simp: onSome_def optUses_def frees_def)

lemma stateClose_frees: "frees (stateClose st) (stateUses st)"
proof -
  have n: "frees (onSome nsStackClose x) {#}" for x
    by (auto simp: frees_def onSome_def nsStackClose_def closeStack_def split: option.split)
  have w: "frees (wgClose x) (optUses wgUses x)" for x
    using wireguard.stop_frees by (cases x) (auto simp: frees_def optUses_def wgClose_def)
  have t: "frees (tunClose x) (tunUses x)" for x by (rule tun.stop_frees)
  show ?thesis unfolding stateClose_def
    by (rule frees_comp_eq [OF frees_comp_eq [OF frees_comp_eq [OF frees_comp_eq [OF frees_comp_eq [OF killWarpSvc_frees n refl]
      frees_onSome [OF t] refl] w refl] frees_onSome [OF nsClose_frees] refl] frees_onSome [OF nsClose_frees]])
      (simp add: stateUses_def union_ac)
qed

text \<open>A step that starts a part, and one that starts none.\<close>

lemma orClose_starts:
  assumes "owns {#} m B" "\<And>x. C x = B x + stateUses st"
  shows "owns (stateUses st) (orClose st m g) C"
  by (rule owns_onErrK [OF assms(1) stateClose_frees]) (rule assms(2))

lemma orClose_quiet: "unch held m \<Longrightarrow> owns (stateUses st) (orClose st m g) (\<lambda>_. stateUses st)"
  by (rule orClose_starts [OF owns_quiet]) simp_all

lemma unch_retryLoop:
  assumes "\<And>i. unch f (body i)" "\<And>s. f (logCall (Sleep delay) s) = f s"
  shows "unch f (retryLoop body delay none k i l)"
  by (induction k arbitrary: i l) (auto intro!: unch_rules assms simp del: failK_apply retK_apply)

lemma unch_cli:
  assumes "\<And>a e. unch f (netnsRun ns (tryK (kdo (RunProc a e))))" "\<And>d s. f (logCall (Sleep d) s) = f s"
  shows "unch f (connectWarp (netnsRun ns) cli r d)" "unch f (setWarpTunnelProtocol (netnsRun ns) cli pr r d)"
    "unch f (registerWarp ulow out (netnsRun ns) cli r d)"
proof -
  have a: "unch f (cliAttempt (netnsRun ns) cli args)" for cli args
    unfolding cliAttempt_def by (intro unch_thenK unch_tryK assms(1) unch_basic)
  have b: "unch f (connectAttempt (netnsRun ns) cli i)" "unch f (protocolAttempt (netnsRun ns) cli p i)"
    "unch f (registerAttempt ulow out (netnsRun ns) cli i)" for cli p i
    unfolding connectAttempt_def protocolAttempt_def registerAttempt_def Let_def by (intro unch_thenK a unch_prod unch_basic)+
  show "unch f (connectWarp (netnsRun ns) cli r d)" "unch f (setWarpTunnelProtocol (netnsRun ns) cli pr r d)"
    "unch f (registerWarp ulow out (netnsRun ns) cli r d)"
    unfolding connectWarp_def setWarpTunnelProtocol_def registerWarp_def Let_def
    by (intro unch_if unch_basic unch_retryLoop b assms(2))+
qed

lemma unch_held_cli [unch_rules]:
  "unch held (connectWarp (netnsRun ns) cli r d)" "unch held (setWarpTunnelProtocol (netnsRun ns) cli pr r d)"
  "unch held (registerWarp ulow out (netnsRun ns) cli r d)"
  by (rule unch_cli; (intro unch_rules | simp add: logCall_def))+

lemma unch_held_newNSStack [unch_rules]: "unch held (newNSStack fd mtu)"
  unfolding newNSStack_def newStack_def by (intro unch_rules; simp)

lemma bringUp_owns: "owns (stateUses st) (bringUp h cfg ns st) (\<lambda>_. stateUses st)"
  unfolding bringUp_def
  by ((rule owns_thenK [OF orClose_quiet], intro unch_rules)+, rule orClose_quiet, intro unch_rules)

lemma startTunnel_owns: "owns {#} (startTunnel h cfg) (optUses wgUses)"
proof (cases "NoWireGuard cfg")
  case True
  then show ?thesis by (simp add: startTunnel_def owns_retK optUses_def del: retK_apply)
next
  case False
  have e: "stateUses emptyState = {#}" by (simp add: stateUses_def emptyState_def optUses_def procUses_def)
  have "owns {#} (orClose emptyState (startWireGuard (lookupHost h) cfg) g) wgUses" for g
    using orClose_starts [OF startWireGuard_owns, of wgUses emptyState] unfolding e by simp
  then show ?thesis unfolding startTunnel_def if_not_P [OF False]
    by (rule owns_thenK) (rule owns_retK, simp add: optUses_def)
qed

lemma setupBegin_owns: "owns {#} (setupBegin h cfg) (\<lambda>(st, ns, cfg). stateUses st)"
proof (cases "euid h = 0")
  case False
  then show ?thesis by (simp add: setupBegin_def owns_failK del: failK_apply)
next
  case True
  have m: "owns A (case q of (b, c) \<Rightarrow> f b c) C" if "\<And>b c. owns A (f b c) C" for A q C and f :: "bind_mount list \<Rightarrow> config \<Rightarrow> (state \<times> netns \<times> config) act"
    using that by (cases q) simp
  have u: "stateUses (emptyState\<lparr>sWG := wg\<rparr>) = optUses wgUses wg"
    "stateUses (emptyState\<lparr>sWG := wg, sWarpNS := Some ns\<rparr>) = nsUses ns + stateUses (emptyState\<lparr>sWG := wg\<rparr>)"
    "stateUses (emptyState\<lparr>sWG := wg, sWarpNS := Some ns, sTUN := Some t\<rparr>) = tunUses t + stateUses (emptyState\<lparr>sWG := wg, sWarpNS := Some ns\<rparr>)"
    "stateUses (emptyState\<lparr>sWG := wg, sWarpNS := Some ns, sTUN := Some t, sStack := Some k\<rparr>) = stateUses (emptyState\<lparr>sWG := wg, sWarpNS := Some ns, sTUN := Some t\<rparr>)"
    "stateUses (emptyState\<lparr>sWG := wg, sWarpNS := Some ns, sTUN := Some t, sStack := Some k, sWarpSvc := p\<rparr>) =
      procUses p + stateUses (emptyState\<lparr>sWG := wg, sWarpNS := Some ns, sTUN := Some t, sStack := Some k\<rparr>)" for wg ns t k p
    by (simp_all add: stateUses_def emptyState_def optUses_def procUses_def union_ac)
  show ?thesis
    unfolding setupBegin_def Let_def using True
    apply simp
    apply (rule owns_thenK [OF startTunnel_owns])
    apply (subst u(1) [symmetric])
    apply (rule owns_thenK [OF orClose_quiet], intro unch_rules)
    apply (rule m)
    apply (rule owns_thenK [OF orClose_starts [OF namespace.start_owns]], rule u(2))
    apply (rule owns_thenK [OF orClose_starts [OF tun.start_owns]], rule u(3))
    apply (rule owns_thenK [OF orClose_quiet], intro unch_rules)
    apply (rule owns_thenK [OF orClose_quiet], intro unch_rules)
    apply (subst u(4) [symmetric])
    apply (rule owns_thenK [OF orClose_quiet], intro unch_rules)
    apply (rule owns_thenK [OF orClose_starts [OF warp_svc.start_owns]], rule u(5))
    apply (rule owns_thenK [OF bringUp_owns])
    apply (rule owns_retK, simp)
    done
qed

lemma setupEnd_owns:
  assumes "sEgress st = None"
  shows "owns (stateUses st) (setupEnd cfg ns st) stateUses"
proof -
  have u: "stateUses (st\<lparr>sEgress := Some eg\<rparr>) = nsUses eg + stateUses st" for eg
    using assms by (simp add: stateUses_def optUses_def union_ac)
  show ?thesis unfolding setupEnd_def
    by (rule owns_thenK [OF orClose_starts [OF egress.start_owns]], rule u [symmetric, THEN sym], rule owns_retK, rule refl)
qed

lemma setupBegin_result:
  assumes "setupBegin h cfg s = (Ok (st, ns, cfg'), s')"
  shows "sEgress st = None \<and> sWarpNS st = Some ns \<and> NetnsResolvNameserver cfg' = NetnsResolvNameserver cfg \<and>
     WarpIface cfg' = WarpIface cfg \<and> WarpReadyTimeout cfg' = WarpReadyTimeout cfg"
proof -
  have c: "NetnsResolvNameserver d = NetnsResolvNameserver cfg \<and> WarpIface d = WarpIface cfg \<and> WarpReadyTimeout d = WarpReadyTimeout cfg"
    if "prepareWarpCommandBinds l w cfg = (Inr b, d)" for l w b d
    using that by (auto simp: prepareWarpCommandBinds_def Let_def split: sum.splits prod.splits)
  have "euid h = 0" using assms by (auto simp: setupBegin_def split: if_splits)
  with assms show ?thesis
    unfolding setupBegin_def Let_def
    by (auto simp: emptyState_def dest!: c elim!: thenK_OkE onErrK_OkE split: prod.splits sum.splits)
qed

section \<open>No panic\<close>

lemma safe_retryLoop: "(\<And>i. safe (body i)) \<Longrightarrow> safe (retryLoop body delay none k i l)"
  by (induction k arbitrary: i l) (auto intro!: safe_rules simp del: failK_apply retK_apply)

lemma safe_cli [safe_rules]:
  "safe (connectWarp (netnsRun ns) cli r d)" "safe (setWarpTunnelProtocol (netnsRun ns) cli pr r d)"
  "safe (registerWarp ulow out (netnsRun ns) cli r d)"
proof -
  have a: "safe (cliAttempt (netnsRun ns) cli args)" for cli args
    unfolding cliAttempt_def by (intro safe_rules)
  have b: "safe (connectAttempt (netnsRun ns) cli i)" "safe (protocolAttempt (netnsRun ns) cli p i)"
    "safe (registerAttempt ulow out (netnsRun ns) cli i)" for cli p i
    unfolding connectAttempt_def protocolAttempt_def registerAttempt_def Let_def by (intro safe_thenK a safe_cases(4) safe_basic)+
  show "safe (connectWarp (netnsRun ns) cli r d)" "safe (setWarpTunnelProtocol (netnsRun ns) cli pr r d)"
    "safe (registerWarp ulow out (netnsRun ns) cli r d)"
    unfolding connectWarp_def setWarpTunnelProtocol_def registerWarp_def Let_def
    by (intro safe_cases(1) safe_basic safe_retryLoop b)+
qed

lemma safe_startWarpSvc [safe_rules]: "safe (startWarpSvc ns raw)"
proof -
  have "safe (restrictK m)" for m by (auto simp: safe_def restrictK_def split: prod.splits)
  moreover have "safe (startProc a)" for a using safe_kopen by (auto simp: safe_def startProc_def)
  ultimately have b: "safe (netnsRunOnAnchor ns (warpSvcBody parts))" for parts
    unfolding netnsRunOnAnchor_def warpSvcBody_def by (intro safe_cases(1) safe_onThread safe_thenK safe_basic)
  have p: "safe openPipe" unfolding openPipe_def by (intro safe_thenK safe_kdo safe_basic)
  show ?thesis unfolding startWarpSvc_def Let_def
    by (intro safe_cases(1) safe_cases(4) safe_thenK safe_onErrK safe_basic safe_kopen b p)
qed

lemma safe_startWireGuard:
  assumes "parseAddr (NetnsResolvNameserver c) = Inr dns"
  shows "safe (startWireGuard l c)"
  unfolding startWireGuard_def assms sum.case openStack_def newDevice_def Let_def
  by (intro safe_thenK safe_onErrK safe_basic safe_kdo)

lemma safe_setupBegin:
  assumes "NoWireGuard cfg \<or> parseAddr (NetnsResolvNameserver cfg) = Inr dns"
  shows "safe (setupBegin h cfg)"
proof -
  have "safe (startTunnel h cfg)"
    using assms safe_startWireGuard [of cfg dns] unfolding startTunnel_def by (auto intro!: safe_thenK safe_onErrK safe_basic simp del: retK_apply)
  moreover have "safe (moveToNetNS t fd)" "safe (configureLinkInNS n c m)" "safe (newNSStack fd mtu)" for t fd n c m mtu
    unfolding moveToNetNS_def configureLinkInNS_def newNSStack_def newStack_def by (intro safe_rules)+
  moreover have "safe (bringUp h cfg ns st)" for cfg ns st
    unfolding bringUp_def by (intro safe_thenK safe_onErrK safe_cli safe_cases(3) safe_basic)
  ultimately show ?thesis unfolding setupBegin_def Let_def
    by (intro safe_cases(1) safe_cases(4) safe_thenK safe_onErrK safe_basic createNetNS_safe createTUN_safe netnsRun_safe safe_startWarpSvc)
qed

section \<open>The set-up as a whole\<close>

lemma waitForWarpRoute_returns:
  assumes "clock env 0 \<le> clock env 1" "\<And>i. clock env (Suc i) + pollEvery \<le> clock env (Suc (Suc i))"
  obtains r s' where "waitForWarpRoute env ns expected timeout s = Some (Returned r, s')" "held s' = held s"
proof -
  obtain q s' where q: "waitForWarpRoute env ns expected timeout s = Some (q, s')"
    and w: "waited env ns expected (clock env 0 + timeout) 0 (nat ((timeout + pollEvery - 1) div pollEvery)) s q s'"
    using waitLoop_ends [OF clock_passes [OF assms, of timeout], where ns = ns and expected = expected and l = "''''" and s = s]
    unfolding waitForWarpRoute_def by blast
  then obtain r where "q = Returned r" unfolding waited_def by (cases q) auto
  with q w show thesis by (auto simp: waited_def intro: that)
qed

lemma setupBegin_parts:
  assumes "setupBegin h cfg s = (Ok (st, ns, cfg'), s')"
  shows "sTUN st \<noteq> None \<and> sStack st \<noteq> None \<and> (sWG st = None \<longleftrightarrow> NoWireGuard cfg)"
proof -
  have w: "wg = None \<longleftrightarrow> NoWireGuard cfg" if "startTunnel h cfg u = (Ok wg, u')" for wg u u'
    using that by (auto simp: startTunnel_def elim!: thenK_OkE split: if_splits)
  have "euid h = 0" using assms by (auto simp: setupBegin_def split: if_splits)
  with assms show ?thesis
    unfolding setupBegin_def Let_def
    by (auto simp: emptyState_def dest!: w elim!: thenK_OkE onErrK_OkE split: prod.splits sum.splits)
qed

lemma safe_setupEnd: "length (WarpIface cfg) < 16 \<Longrightarrow> safe (setupEnd cfg ns st)"
  unfolding setupEnd_def by (intro safe_thenK safe_onErrK safe_basic createEgressNS_fine(1))

lemma safe_crashed: "safe m \<Longrightarrow> m s \<noteq> (Crashed p, s')"
  by (auto simp: safe_def)

text \<open>The end of the set-up, once the wait has returned \<open>r\<close>.\<close>

lemma setupTail_owns:
  assumes "sEgress st = None"
  shows "owns (stateUses st) (thenK (orClose st (liftK r) g) (\<lambda>_. setupEnd cfg ns st)) stateUses"
  by (rule owns_thenK [OF orClose_quiet [OF unch_basic(4)] setupEnd_owns [OF assms]])

lemma setupAll_cases [consumes 2, case_names panics early late]:
  assumes "clock (ready h) 0 \<le> clock (ready h) 1" "\<And>i. clock (ready h) (Suc i) + pollEvery \<le> clock (ready h) (Suc (Suc i))"
  obtains (panics) p s' where "setupBegin h cfg s = (Crashed p, s')" "setupAll h cfg s = Some (Crashed p, s')"
  | (early) e s' where "setupBegin h cfg s = (Err e, s')" "setupAll h cfg s = Some (Err e, s')"
  | (late) st ns cfg' r s1 s2 where "setupBegin h cfg s = (Ok (st, ns, cfg'), s1)"
      "waitForWarpRoute (ready h) ns (WarpIface cfg') (seconds (WarpReadyTimeout cfg')) s1 = Some (Returned r, s2)" "held s2 = held s1"
      "setupAll h cfg s = Some (thenK (orClose st (liftK r) (Wrapf ''warp readiness: %w'' [])) (\<lambda>_. setupEnd cfg' ns st) s2)"
proof (cases "setupBegin h cfg" s rule: act_cases)
  case (Ok x s1)
  obtain st ns cfg' where x: "x = (st, ns, cfg')" by (cases x)
  obtain r s2 where w: "waitForWarpRoute (ready h) ns (WarpIface cfg') (seconds (WarpReadyTimeout cfg')) s1 = Some (Returned r, s2)" "held s2 = held s1"
    by (rule waitForWarpRoute_returns [OF assms, where ns = ns and expected = "WarpIface cfg'" and timeout = "seconds (WarpReadyTimeout cfg')" and s = s1])
  have "setupAll h cfg s = Some (thenK (orClose st (liftK r) (Wrapf ''warp readiness: %w'' [])) (\<lambda>_. setupEnd cfg' ns st) s2)"
    using Ok x w(1) by (simp add: setupAll_def liftK_def)
  with late [OF Ok [unfolded x] w] show thesis by blast
qed (use panics early in \<open>simp_all add: setupAll_def\<close>)

text \<open>What is held after each outcome.\<close>

lemma setupAll_outcome [consumes 2, case_names panics fails works]:
  assumes "clock (ready h) 0 \<le> clock (ready h) 1" "\<And>i. clock (ready h) (Suc i) + pollEvery \<le> clock (ready h) (Suc (Suc i))"
  obtains p s' where "setupAll h cfg s = Some (Crashed p, s')"
      "\<not> NoWireGuard cfg \<and> (\<forall>dns. parseAddr (NetnsResolvNameserver cfg) \<noteq> Inr dns) \<or> length (WarpIface cfg) \<ge> 16"
  | e s' where "setupAll h cfg s = Some (Err e, s')" "held s' = held s"
  | st s' where "setupAll h cfg s = Some (Ok st, s')" "held s' = stateUses st + held s" "held (stateClose st s') = held s"
      "sWarpNS st \<noteq> None \<and> sEgress st \<noteq> None \<and> sTUN st \<noteq> None \<and> sStack st \<noteq> None \<and> (sWG st = None \<longleftrightarrow> NoWireGuard cfg)"
  using assms
proof (cases rule: setupAll_cases [where cfg = cfg and s = s])
  case (panics p s')
  then have "\<not> (NoWireGuard cfg \<or> parseAddr (NetnsResolvNameserver cfg) = Inr dns)" for dns
    using safe_crashed [OF safe_setupBegin] by blast
  with panics(2) that(1) show thesis by blast
next
  case (early e s')
  then show thesis using owns_Err [OF setupBegin_owns early(1)] that(2) by simp
next
  case (late st ns cfg' r s1 s2)
  note res = setupBegin_result [OF late(1)]
  have h1: "held s2 = stateUses st + held s" using owns_Ok [OF setupBegin_owns late(1)] late(3) by simp
  then have in2: "stateUses st \<subseteq># held s2" by simp
  note own = setupTail_owns [OF conjunct1 [OF res], where r = r and g = "Wrapf ''warp readiness: %w'' []" and cfg = cfg' and ns = ns]
  show thesis
  proof (cases "thenK (orClose st (liftK r) (Wrapf ''warp readiness: %w'' [])) (\<lambda>_. setupEnd cfg' ns st)" s2 rule: act_cases)
    case (Ok st' s')
    have h': "held s' = stateUses st' + held s" using owns_Ok [OF own Ok in2] res h1 by simp
    then have "held (stateClose st' s') = held s" using stateClose_frees [of st'] by (simp add: frees_def)
    moreover have "sWarpNS st' = sWarpNS st \<and> sTUN st' = sTUN st \<and> sStack st' = sStack st \<and> sWG st' = sWG st \<and> sEgress st' \<noteq> None"
      using Ok by (auto simp: setupEnd_def elim!: thenK_OkE onErrK_OkE)
    ultimately show thesis using late(4) Ok h' res setupBegin_parts [OF late(1)] that(3) by simp
  next
    case (Err e s')
    then show thesis using late(4) Err owns_Err [OF own Err in2] res h1 that(2) by simp
  next
    case (Crashed p s')
    have "\<not> length (WarpIface cfg') < 16"
    proof
      assume "length (WarpIface cfg') < 16"
      from safe_crashed [OF safe_thenK [OF safe_onErrK [OF safe_basic(4)] safe_setupEnd [OF this]]] Crashed show False by (rule notE)
    qed
    then show thesis using late(4) Crashed res that(1) by simp
  qed
qed

section \<open>Properties\<close>


text \<open>A host on which nothing fails, and a configuration that starts no daemon of its own.\<close>

definition sampleHost :: host where
  "sampleHost = \<lparr>euid = 0, rndBytes = [1, 2, 3], setIff = id, lookupHost = (\<lambda>_. Inr []), lookPath = (\<lambda>p. Inr (''/usr/bin/'' @ p)),
     workDir = Inr ''/root'', unicodeLower = id, regOutput = (\<lambda>_. ('''', '''')),
     ready = sampleReady\<lparr>linkName := \<lambda>i x. ''CloudflareWARP''\<rparr>, earlyDone = None\<rparr>"

definition sampleConfig :: config where
  "sampleConfig = (registerCommonFlags id (\<lambda>_. None) emptyConfig)\<lparr>NoWireGuard := True, InnerSocks5 := ''10.0.0.1:1080'', TunDev := ''tun9'',
     WarpSvcCmd := '''', WarpCli := ''''\<rparr>"

lemma sampleConfig_fields:
  "NoWireGuard sampleConfig" "TunDev sampleConfig = ''tun9''" "WarpIface sampleConfig = ''CloudflareWARP''" "WarpSvcCmd sampleConfig = ''''"
  "WarpCli sampleConfig = ''''" "LogFile sampleConfig = ''''" "WarpReadyTimeout sampleConfig = 60"
  by (simp_all add: sampleConfig_def registerCommonFlags_def envOr_def envInt_def getenv_def)

lemma setupBegin_runs:
  assumes "euid h = 0" "runs (startTunnel h cfg)" "prepareWarpCommandBinds (lookPath h) (workDir h) cfg = (Inr binds, cfg')"
    and "TunDev cfg' \<noteq> ''''" "length (TunDev cfg') < 16"
    and "\<And>ns. runs (startWarpSvc ns (WarpSvcCmd cfg'))" "\<And>ns st. runs (bringUp h cfg' ns st)"
  shows "runs (setupBegin h cfg)"
proof -
  have "runs (createTUN rnd setiff (TunDev cfg'))" for rnd setiff
    using assms(4,5) unfolding createTUN_def cIFNAMSIZ_def Let_def by (simp add: runs_thenK runs_onErrK runs_kopen runs_basic)
  moreover have "runs (moveToNetNS t fd)" "runs (configureLinkInNS n c m)" "runs (newNSStack fd mtu)" for t fd n c m mtu
    unfolding moveToNetNS_def configureLinkInNS_def newNSStack_def newStack_def by (intro runs_rules; simp)+
  moreover have "onErrK (liftK (Inr x)) f g = retK x" for x :: "bind_mount list \<times> config" and f g
    by (rule ext) (simp add: onErrK_def)
  ultimately show ?thesis unfolding setupBegin_def Let_def using assms(1-3,6,7)
    by (simp add: runs_thenK runs_onErrK runs_basic createNetNS_runs netnsRun_runs)
qed

lemma setupAll_sample: "\<exists>st s'. setupAll sampleHost sampleConfig startKern = Some (Ok st, s')"
proof -
  let ?h = sampleHost and ?c = sampleConfig
  have p: "prepareWarpCommandBinds (lookPath ?h) (workDir ?h) ?c = (Inr [], ?c)" "trimSpace '''' = ''''" by code_simp+
  have "startTunnel ?h ?c = retK None" by (simp add: startTunnel_def sampleConfig_fields)
  moreover have "startWarpSvc ns (WarpSvcCmd ?c) = retK None" for ns by (simp add: startWarpSvc_def sampleConfig_fields p(2) Let_def)
  moreover have "runs (bringUp ?h ?c ns st)" for ns st
    unfolding bringUp_def registerWarp_def setWarpTunnelProtocol_def connectWarp_def Let_def
    by (simp add: sampleConfig_fields sampleHost_def p(2) runs_thenK runs_onErrK runs_basic del: retK_apply)
  ultimately have "runs (setupBegin ?h ?c)"
    using setupBegin_runs [where h = ?h and cfg = ?c and cfg' = ?c and binds = "[]"] p(1)
    by (simp add: sampleHost_def sampleConfig_fields runs_basic del: retK_apply)
  then obtain x s1 where b: "setupBegin ?h ?c startKern = (Ok x, s1)" "outcomes s1 = []"
    by (rule runsE) (rule startKern_outcomes)
  obtain st ns cfg where x: "x = (st, ns, cfg)" by (cases x)
  have w: "WarpIface cfg = ''CloudflareWARP''" using setupBegin_result [OF b(1) [unfolded x]] by (simp add: sampleConfig_fields)
  have "runs (probeRoute (ready ?h) ns 0)"
    unfolding probeRoute_def sampleHost_def sampleReady_def by (simp add: netnsRun_runs runs_thenK runs_onErrK runs_basic del: retK_apply)
  then obtain i s2 where i: "probeRoute (ready ?h) ns 0 s1 = (Ok i, s2)" "outcomes s2 = []" using b(2) by (rule runsE)
  then have "i = ''CloudflareWARP''" using probeRoute_step [of "ready ?h" ns 0 s1] by (auto simp: sampleHost_def)
  then have "waitForWarpRoute (ready ?h) ns (WarpIface cfg) (seconds (WarpReadyTimeout cfg)) s1 = Some (Ok (), s2)"
    unfolding waitForWarpRoute_def using i by (subst waitLoop.simps) (simp add: tryK_def w)
  moreover have "runs (setupEnd cfg ns st)" unfolding setupEnd_def
    by (intro runs_thenK runs_onErrK createEgressNS_fine(2) runs_basic) (simp add: w)
  then obtain st' s3 where "setupEnd cfg ns st s2 = (Ok st', s3)" using i(2) by (rule runsE)
  ultimately show ?thesis using b(1) x by (simp add: setupAll_def)
qed

lemma sampleHost_clock:
  "clock (ready sampleHost) 0 \<le> clock (ready sampleHost) 1" "clock (ready sampleHost) (Suc i) + pollEvery \<le> clock (ready sampleHost) (Suc (Suc i))"
  by (simp_all add: sampleHost_def sampleReady_def pollEvery_def algebra_simps)


end
