(* ===== verification/Confined.thy ===== *)
theory Confined
  imports MainProg
begin

text \<open>
  The network configuration of a whole set-up: which routes and packet filter rules \<open>setupAll\<close> makes, in
  which namespaces, and that they confine the egress namespace to the WARP interface. Identities
  (of namespaces, threads, descriptors) are handed out in order, which tells the two namespaces
  apart and keeps the meaning of an open descriptor.
\<close>

section \<open>Identities only grow\<close>

definition newer :: "kern \<Rightarrow> kern \<Rightarrow> bool" where
  "newer s t \<longleftrightarrow> fresh s \<le> fresh t \<and> (\<forall>x < fresh s. nsOf t x = nsOf s x)"

lemma newer_refl: "newer s s"
  by (simp add: newer_def)

lemma newer_trans: "newer s t \<Longrightarrow> newer t u \<Longrightarrow> newer s u"
  by (auto simp: newer_def)

lemma newer_same: "fresh t = fresh s \<Longrightarrow> nsOf t = nsOf s \<Longrightarrow> newer s t"
  by (simp add: newer_def)

definition grows :: "'a act \<Rightarrow> bool" where
  "grows m \<longleftrightarrow> (\<forall>s. newer s (snd (m s)))"

named_theorems grows_rules \<open>operations that keep the identities handed out\<close>

lemma growsD: "grows m \<Longrightarrow> m s = (r, s') \<Longrightarrow> newer s s'"
  unfolding grows_def by (metis snd_conv)

lemma grows_basic [grows_rules]: "grows (retK x)" "grows (failK e)" "grows (panicK p)" "grows (liftK r)" "grows (kdo c)" "grows freshId"
  by (auto simp: grows_def newer_def kdo_def logCall_def freshId_def split: list.splits option.splits)

lemma grows_modK [grows_rules]: "(\<And>s. newer s (f s)) \<Longrightarrow> grows (modK f)"
  by (simp add: grows_def)

lemma grows_thenK [grows_rules]:
  assumes "grows m" "\<And>x. grows (f x)"
  shows "grows (thenK m f)"
  unfolding grows_def
proof
  fix s
  show "newer s (snd (thenK m f s))"
  proof (cases m s rule: act_cases)
    case (Ok x s')
    then show ?thesis using newer_trans [OF growsD [OF assms(1) Ok]] assms(2) by (simp add: grows_def)
  qed (use assms(1) in \<open>auto dest: growsD\<close>)
qed

lemma grows_onErrK [grows_rules]:
  assumes "grows m" "\<And>s. newer s (h s)"
  shows "grows (onErrK m h g)"
  unfolding grows_def
proof
  fix s
  show "newer s (snd (onErrK m h g s))"
  proof (cases m s rule: act_cases)
    case (Err e s')
    then show ?thesis using newer_trans [OF growsD [OF assms(1) Err] assms(2)] by simp
  qed (use assms(1) in \<open>auto dest: growsD\<close>)
qed

lemma grows_tryK [grows_rules]: "grows m \<Longrightarrow> grows (tryK m)"
  by (auto simp: grows_def tryK_def split: prod.splits outcome.splits) (metis snd_conv)+

lemma grows_forK [grows_rules]: "(\<And>x. grows (f x)) \<Longrightarrow> grows (forK f xs)"
  by (induction xs) (auto intro: grows_rules simp del: retK_apply)

lemma grows_cases [grows_rules]:
  "grows m \<Longrightarrow> grows k \<Longrightarrow> grows (if b then m else k)"
  "(\<And>e. grows (f e)) \<Longrightarrow> (\<And>x. grows (g x)) \<Longrightarrow> grows (case r of Inl e \<Rightarrow> f e | Inr x \<Rightarrow> g x)"
  "(\<And>x y. grows (h x y)) \<Longrightarrow> grows (case p of (x, y) \<Rightarrow> h x y)"
  "grows z \<Longrightarrow> (\<And>x. grows (w x)) \<Longrightarrow> grows (case v of None \<Rightarrow> z | Some x \<Rightarrow> w x)"
  by (simp_all split: sum.split prod.split option.split)

lemma grows_state: "(\<And>r. grows (m r)) \<Longrightarrow> grows (\<lambda>s. m (g s) s)"
  by (auto simp: grows_def)

lemma grows_if_state [grows_rules]: "grows m \<Longrightarrow> grows k \<Longrightarrow> grows (\<lambda>s. (if b s then m else k) s)"
  by (auto simp: grows_def)

lemma grows_onThread [grows_rules]: "grows m \<Longrightarrow> grows (onThread m)"
  by (auto simp: grows_def onThread_def newer_def split: prod.split) (metis snd_conv)+

lemma newer_simps [simp]:
  "newer s (hold r t) = newer s t" "newer s (release r t) = newer s t" "newer s (t\<lparr>curNet := n\<rparr>) = newer s t" "newer s (t\<lparr>curMnt := n\<rparr>) = newer s t"
  "newer s (t\<lparr>curNet := n, curMnt := m, curTid := k\<rparr>) = newer s t" "newer s (t\<lparr>curTid := k, capsOf := c\<rparr>) = newer s t"
  "newer s (t\<lparr>tuns := u\<rparr>) = newer s t" "newer s (t\<lparr>did := d\<rparr>) = newer s t"
  by (simp_all add: newer_def hold_def release_def)

lemma grows_spawn [grows_rules]: "grows m \<Longrightarrow> grows (spawn m)"
  unfolding spawn_def by (intro grows_rules) (simp add: newer_refl)

lemma grows_kopen [grows_rules]: "grows (kopen c mk)"
  unfolding kopen_def by (intro grows_rules) (simp add: newer_refl)

section \<open>The steps of the set-up\<close>

lemma grows_openNs: "grows (openNs n)"
  unfolding openNs_def kopen_def
proof -
  have "newer s (snd (thenK (thenK (kdo (OpenNs n)) (\<lambda>_. thenK freshId (\<lambda>i. thenK (modK (hold (Fd i))) (\<lambda>_. retK i))))
      (\<lambda>fd. thenK (modK (\<lambda>s. s\<lparr>nsOf := (nsOf s)(fd := n)\<rparr>)) (\<lambda>_. retK fd)) s))" for s
    by (auto simp: thenK_def kdo_def logCall_def freshId_def hold_def newer_def split: list.splits option.splits)
  then show "grows (thenK (thenK (kdo (OpenNs n)) (\<lambda>_. thenK freshId (\<lambda>i. thenK (modK (hold (Fd i))) (\<lambda>_. retK i))))
      (\<lambda>fd. thenK (modK (\<lambda>s. s\<lparr>nsOf := (nsOf s)(fd := n)\<rparr>)) (\<lambda>_. retK fd)))"
    by (simp add: grows_def)
qed

lemma grows_files:
  "grows (createCharDevice p m a b)" "grows (setupMinimalDev dir)" "grows (applyBindMount dir x)" "grows (mkRootDir dir d)"
  "grows unshareNet" "grows unshareMnt" "grows mkdirTemp"
proof -
  show c: "grows (createCharDevice p m a b)" for p m a b
    unfolding createCharDevice_def by (intro grows_rules; simp add: newer_refl)
  show "grows (setupMinimalDev dir)" unfolding setupMinimalDev_def by (intro grows_rules c; simp add: newer_refl)
  show "grows (applyBindMount dir x)" unfolding applyBindMount_def Let_def by (intro grows_rules; simp add: newer_refl)
  show "grows (mkRootDir dir d)" unfolding mkRootDir_def by (intro grows_rules; simp add: newer_refl)
  show "grows unshareNet" "grows unshareMnt" unfolding unshareNet_def unshareMnt_def by (intro grows_rules; simp add: newer_refl)+
  have "grows (thenK (kdo (MkdirTemp ''mwarp-root-'')) (\<lambda>_. thenK freshId (\<lambda>i.
     let dir = t @ ''/mwarp-root-'' @ formatUint i in thenK (modK (hold (TempDir dir))) (\<lambda>_. retK dir))))" for t
    unfolding Let_def by (intro grows_rules; simp add: newer_refl)
  then show "grows mkdirTemp" unfolding mkdirTemp_def by (rule grows_state)
qed

lemma grows_anchor: "grows (anchor dir opts)"
proof -
  have "grows (setupHostRootResolvOverlay dir opts)" "grows (setupSandboxRoot dir opts)"
    unfolding setupHostRootResolvOverlay_def setupSandboxRoot_def Let_def by (intro grows_rules grows_files; simp add: newer_refl)+
  moreover have "grows (\<lambda>s. (Ok (curTid s, curNet s, curMnt s), hold (Anchor (curTid s)) s))"
    by (simp add: grows_def newer_refl)
  ultimately show ?thesis unfolding anchor_def by (intro grows_rules grows_files; simp add: newer_refl)
qed

lemma grows_createNetNS: "grows (createNetNS opts)"
  unfolding createNetNS_def by (intro grows_rules grows_files grows_anchor grows_openNs; simp add: newer_refl)

lemma unch_curNet_files:
  "unch curNet (createCharDevice p m a b)" "unch curNet (setupMinimalDev dir)" "unch curNet (applyBindMount dir x)" "unch curNet (mkRootDir dir d)"
proof -
  have k: "unch curNet (kdo c)" for c by (rule unch_kdo) simp_all
  show c: "unch curNet (createCharDevice p m a b)" for p m a b unfolding createCharDevice_def by (intro unch_rules k; simp)
  show "unch curNet (setupMinimalDev dir)" unfolding setupMinimalDev_def by (intro unch_rules k c; simp)
  show "unch curNet (applyBindMount dir x)" unfolding applyBindMount_def Let_def by (intro unch_rules k; simp)
  show "unch curNet (mkRootDir dir d)" unfolding mkRootDir_def by (intro unch_rules k; simp)
qed

lemma anchor_net:
  assumes "anchor dir opts s = (Ok (tid, net, mnt), s')"
  shows "net = fresh s \<and> fresh s < fresh s'"
proof -
  have k: "unch curNet (kdo c)" for c by (rule unch_kdo) simp_all
  have f: "unch curNet freshId" by (simp add: unch_def freshId_def)
  have u: "unch curNet unshareMnt" unfolding unshareMnt_def by (intro unch_rules k f; simp)
  have r: "unch curNet (if b then setupHostRootResolvOverlay dir opts else setupSandboxRoot dir opts)" for b
    unfolding setupHostRootResolvOverlay_def setupSandboxRoot_def Let_def by (intro unch_rules unch_curNet_files k; simp)
  let ?rest = "thenK (wrapK ''unshare newns: %w'' [] unshareMnt) (\<lambda>_.
     thenK (wrapK ''mount private root: %w'' [] (kdo (Mount '''' ''/'' '''' [MS_REC, MS_PRIVATE] ''''))) (\<lambda>_.
     if RootMode opts = NetNSRootHost then setupHostRootResolvOverlay dir opts else setupSandboxRoot dir opts))"
  from assms obtain s1 s4 where 1: "unshareNet s = (Ok (), s1)" and 2: "?rest s1 = (Ok (), s4)" and 3: "net = curNet s4" "s' = hold (Anchor (curTid s4)) s4"
    unfolding anchor_def thenK_assoc [symmetric] by (auto elim!: thenK_OkE onErrK_OkE)
  have "unch curNet ?rest" by (intro unch_thenK unch_onErrK u k r; simp)
  then have "curNet s4 = curNet s1" using 2 by (rule unchD)
  moreover have "curNet s1 = fresh s" "fresh s1 = Suc (fresh s)"
    using 1 by (auto simp: unshareNet_def freshId_def kdo_def logCall_def elim!: thenK_OkE split: list.splits option.splits)
  moreover have "grows ?rest"
    unfolding setupHostRootResolvOverlay_def setupSandboxRoot_def Let_def by (intro grows_rules grows_files; simp add: newer_refl)
  then have "newer s1 s4" using 2 by (rule growsD)
  ultimately show ?thesis using 3 by (auto simp: newer_def hold_def)
qed

text \<open>The descriptor and the namespace of a new \<open>NetNS\<close> are new, and one is for the other.\<close>

lemma createNetNS_new:
  assumes "createNetNS opts s = (Ok n, s')"
  shows "\<exists>fd. NetFD n = Some fd \<and> fresh s \<le> fd \<and> fd < fresh s' \<and> nsOf s' fd = anchorNet n \<and> fresh s \<le> anchorNet n \<and> anchorNet n < fresh s'"
proof -
  from assms obtain dir s1 tid net mnt s2 fd s3 fd' where
    1: "mkdirTemp s = (Ok dir, s1)" and 2: "spawn (anchor dir opts) s1 = (Ok (tid, net, mnt), s2)"
    and 3: "openNs net s2 = (Ok fd, s3)" and 4: "openNs mnt s3 = (Ok fd', s')" and n: "NetFD n = Some fd" "anchorNet n = net"
    unfolding createNetNS_def by (auto elim!: thenK_OkE onErrK_OkE split: prod.splits)
  have o: "fd = fresh s2" "nsOf s3 fd = net" "fresh s3 = Suc (fresh s2)"
    using 3 by (auto simp: openNs_def kopen_def freshId_def hold_def kdo_def logCall_def elim!: thenK_OkE split: list.splits option.splits)
  from 2 obtain u t where "anchor dir opts u = (Ok (tid, net, mnt), t)" "fresh u = Suc (fresh s1)" "fresh s2 = fresh t"
    by (auto simp: spawn_def onThread_def freshId_def thenK_def split: prod.splits)
  with anchor_net have "fresh s1 < net \<and> net < fresh s2" by force
  moreover have "newer s s1" "newer s3 s'" by (rule growsD [OF grows_files(7) 1], rule growsD [OF grows_openNs 4])
  ultimately show ?thesis using n o by (auto simp: newer_def)
qed

section \<open>The configuration a set-up makes\<close>

lemma waitLoop_rel:
  assumes "\<And>i s r s'. probeRoute env ns i s = (r, s') \<Longrightarrow> Q s s'" "\<And>s. Q s s" "\<And>s t u. Q s t \<Longrightarrow> Q t u \<Longrightarrow> Q s u"
    and "waitLoop env ns expected timeout deadline i l s = Some y"
  shows "Q s (snd y)"
proof -
  have "env = env \<longrightarrow> ns = ns \<longrightarrow> Q s (snd y)"
  proof (rule waitLoop.raw_induct [where P = "\<lambda>env' ns' x t d i l s y. env' = env \<longrightarrow> ns' = ns \<longrightarrow> Q s (snd y)", OF _ assms(4)], intro impI)
    fix f env' ns' x t d i l s y
    assume IH: "\<And>env' ns' x t d i l s y. f env' ns' x t d i l s = Some y \<Longrightarrow> env' = env \<longrightarrow> ns' = ns \<longrightarrow> Q s (snd y)"
      and e: "env' = env" "ns' = ns"
      and eq: "(case tryK (probeRoute env' ns' i) s of
        (Returned (Inl e), s') \<Rightarrow> Some (Err e, s')
      | (Returned (Inr r), s') \<Rightarrow>
          if r = Inr x then Some (Ok (), s')
          else let l = (case r of Inl x \<Rightarrow> l | Inr iface \<Rightarrow> iface)
               in if \<not> clock env' (Suc i) < d
                  then Some (Err (case r of Inl e \<Rightarrow> Wrapf ''warp not ready after %s: %w'' [AInt t] e
                              | Inr xa \<Rightarrow> Errorf ''warp not ready after %s: route still via %q (expected %q)'' [AInt t, AStr l, AStr x]), s')
                  else (case doneAt env' i of None \<Rightarrow> f env' ns' x t d (Suc i) l s' | Some e \<Rightarrow> Some (Err e, s'))
      | (Crashed p, s') \<Rightarrow> Some (Crashed p, s')) = Some y"
    obtain q u where q: "tryK (probeRoute env ns i) s = (q, u)" by fastforce
    then have "Q s u" using assms(1) by (auto simp: tryK_def split: prod.splits outcome.splits)
    moreover have "u = snd y \<or> Q u (snd y)"
      using eq [unfolded e q] IH by (auto simp: Let_def split: outcome.splits sum.splits if_splits option.splits)
    ultimately show "Q s (snd y)" using assms(3) by blast
  qed
  then show ?thesis by simp
qed

lemma unch_netLog_steps:
  "unch netLog (startWireGuard l c)" "unch netLog (createTUN rnd setiff name)" "unch netLog (moveToNetNS t fd)"
  "unch netLog (newNSStack fd mtu)" "unch netLog (startWarpSvc ns raw)" "unch netLog (probeRoute env ns i)"
proof -
  have o: "unch netLog (kopen c mk)" if "\<not> netCfg c" for c mk
    unfolding kopen_def using that by (intro unch_rules; simp)
  show "unch netLog (startWireGuard l c)"
    unfolding startWireGuard_def openStack_def newDevice_def devClose_def closeStack_def Let_def
    by (intro unch_rules; simp add: netLog_def hold_def release_def)
  show "unch netLog (createTUN rnd setiff name)"
    unfolding createTUN_def Let_def by (intro unch_rules o; simp)
  show "unch netLog (moveToNetNS t fd)" "unch netLog (newNSStack fd mtu)"
    unfolding moveToNetNS_def newNSStack_def newStack_def by (intro unch_rules; simp add: netLog_def)+
  have p: "unch netLog openPipe" unfolding openPipe_def by (intro unch_rules; simp)
  have r: "unch netLog (restrictK m)" for m by (auto simp: unch_def restrictK_def netLog_def split: prod.split)
  have s: "unch netLog (startProc a)" for a using o [of "StartProc a _" Child] by (simp add: unch_def startProc_def)
  have "unch netLog (netnsRunOnAnchor ns (warpSvcBody parts))" for parts
    unfolding netnsRunOnAnchor_def warpSvcBody_def by (intro unch_rules r s; simp add: netLog_def)
  then show "unch netLog (startWarpSvc ns raw)"
    unfolding startWarpSvc_def Let_def by (intro unch_rules o p; simp add: readLogs_def)
  show "unch netLog (probeRoute env ns i)"
    unfolding probeRoute_def by (cases "routesAt env i") (simp_all, (intro unch_rules; simp)+)
qed

lemma unch_netLog_cli:
  "unch netLog (connectWarp (netnsRun ns) cli r d)" "unch netLog (setWarpTunnelProtocol (netnsRun ns) cli pr r d)"
  "unch netLog (registerWarp ulow out (netnsRun ns) cli r d)"
proof -
  have a: "unch netLog (netnsRun ns (tryK (kdo (RunProc a e))))" for a e by (intro unch_rules) simp
  have b: "netLog (logCall (Sleep d) s) = netLog s" for d s by (simp add: logCall_def netLog_def)
  show "unch netLog (connectWarp (netnsRun ns) cli r d)" "unch netLog (setWarpTunnelProtocol (netnsRun ns) cli pr r d)"
    "unch netLog (registerWarp ulow out (netnsRun ns) cli r d)"
    by (rule unch_cli [OF a b])+
qed

lemma grows_netnsRun [grows_rules]: "grows m \<Longrightarrow> grows (netnsRun n m)"
  unfolding netnsRun_def setnsMnt_def setnsNet_def by (intro grows_rules; simp add: newer_refl)

lemma grows_retryLoop: "(\<And>i. grows (body i)) \<Longrightarrow> grows (retryLoop body delay none k i l)"
  by (induction k arbitrary: i l) (auto intro!: grows_rules newer_same simp: logCall_def simp del: failK_apply retK_apply)

lemma grows_steps:
  "grows (createTUN rnd setiff name)" "grows (moveToNetNS t fd)" "grows (newNSStack fd mtu)" "grows (configureLinkInNS nm c m)"
  "grows (startWarpSvc ns raw)" "grows (probeRoute env ns i)"
  "grows (registerWarp ulow out (netnsRun ns) cli r d)" "grows (setWarpTunnelProtocol (netnsRun ns) cli pr r d)" "grows (connectWarp (netnsRun ns) cli r d)"
proof -
  show "grows (createTUN rnd setiff name)" "grows (moveToNetNS t fd)" "grows (newNSStack fd mtu)" "grows (configureLinkInNS nm c m)"
    unfolding createTUN_def moveToNetNS_def newNSStack_def newStack_def configureLinkInNS_def Let_def
    by (intro grows_rules; simp add: newer_refl)+
  have r: "grows (restrictK m)" for m by (auto simp: grows_def restrictK_def newer_def split: prod.split)
  have s: "grows (startProc a)" for a unfolding startProc_def by (rule grows_state) (rule grows_kopen)
  have "grows (netnsRunOnAnchor ns (warpSvcBody parts))" for parts
    unfolding netnsRunOnAnchor_def warpSvcBody_def by (intro grows_rules r s; simp add: newer_refl)
  moreover have "grows openPipe" unfolding openPipe_def by (intro grows_rules; simp add: newer_refl)
  ultimately show "grows (startWarpSvc ns raw)"
    unfolding startWarpSvc_def Let_def by (intro grows_rules; simp add: newer_refl readLogs_def)
  show "grows (probeRoute env ns i)"
    unfolding probeRoute_def by (cases "routesAt env i") (simp_all, (intro grows_rules; simp add: newer_refl)+)
  have a: "grows (cliAttempt (netnsRun ns) cli args)" for cli args
    unfolding cliAttempt_def by (intro grows_rules)
  have b: "grows (connectAttempt (netnsRun ns) cli i)" "grows (protocolAttempt (netnsRun ns) cli p i)"
    "grows (registerAttempt ulow out (netnsRun ns) cli i)" for cli p i
    unfolding connectAttempt_def protocolAttempt_def registerAttempt_def Let_def by (intro grows_thenK a grows_cases(3) grows_basic)+
  show "grows (registerWarp ulow out (netnsRun ns) cli r d)" "grows (setWarpTunnelProtocol (netnsRun ns) cli pr r d)" "grows (connectWarp (netnsRun ns) cli r d)"
    unfolding connectWarp_def setWarpTunnelProtocol_def registerWarp_def Let_def
    by (intro grows_cases(1) grows_basic grows_retryLoop b)+
qed

lemma cfg_configureLinkInNS: "configures (configureLinkInNS name cidr mtu) (map (\<lambda>d. RouteReplace (Route name (Some d) None)) defaultDsts)"
proof -
  have m: "configures (if mtu > 0 then wrapK ''set mtu: %w'' [] (kdo (LinkSetMTU name mtu)) else retK ()) []"
    using cfg_onErrK [OF cfg_kdo [of "LinkSetMTU name mtu"]] by (auto intro: cfg_retK simp del: retK_apply)
  show ?thesis unfolding configureLinkInNS_def defaultDsts_def forK.simps by (rule m cfg_rules | simp)+
qed

lemma setupBegin_steps:
  assumes "setupBegin h cfg s = (Ok (st, ns, cfg'), s')"
  obtains wg s1 opts s2 t s3 s4 k s5 s6 p s7 st' where "startTunnel h cfg s = (Ok wg, s1)" "createNetNS opts s1 = (Ok ns, s2)"
    "createTUN (rndBytes h) (setIff h) (TunDev cfg') s2 = (Ok t, s3)" "moveToNetNS t (fdNum (NetFD ns)) s3 = (Ok (), s4)"
    "newNSStack (fdNum (tunFile t)) (TunMTU cfg') s4 = (Ok k, s5)"
    "netnsRun ns (configureLinkInNS (tunName t) tunAddrCIDR (TunMTU cfg')) s5 = (Ok (), s6)"
    "startWarpSvc ns (WarpSvcCmd cfg') s6 = (Ok p, s7)" "bringUp h cfg' ns st' s7 = (Ok (), s')" "sTUN st = Some t"
proof -
  have "euid h = 0" using assms by (auto simp: setupBegin_def split: if_splits)
  with assms show thesis
    unfolding setupBegin_def Let_def
    apply (simp only: simp_thms if_False)
    apply (elim thenK_OkE onErrK_OkE)
    apply (simp only: split: prod.splits)
    apply (elim thenK_OkE onErrK_OkE)
    apply clarsimp
    apply (rule that, assumption+)
    apply simp
    done
qed

lemma bringUp_steps:
  assumes "bringUp h cfg ns st s = (Ok (), s')"
  shows "netLog s' = netLog s \<and> newer s s'"
proof -
  from assms obtain s1 s2 where
    1: "registerWarp (unicodeLower h) (regOutput h) (netnsRun ns) (WarpCli cfg) (WarpConnectRetry cfg) (WarpConnectDelay cfg) s = (Ok (), s1)"
    and 2: "setWarpTunnelProtocol (netnsRun ns) (WarpCli cfg) (WarpProtocol cfg) (WarpConnectRetry cfg) (WarpConnectDelay cfg) s1 = (Ok (), s2)"
    and 3: "connectWarp (netnsRun ns) (WarpCli cfg) (WarpConnectRetry cfg) (WarpConnectDelay cfg) s2 = (Ok (), s')"
    unfolding bringUp_def by (auto elim!: thenK_OkE onErrK_OkE split: option.splits)
  show ?thesis
    using unchD [OF unch_netLog_cli(3) 1] unchD [OF unch_netLog_cli(2) 2] unchD [OF unch_netLog_cli(1) 3]
      newer_trans [OF growsD [OF grows_steps(7) 1] newer_trans [OF growsD [OF grows_steps(8) 2] growsD [OF grows_steps(9) 3]]] by simp
qed

text \<open>Up to the wait: the two default routes to the TUN device, in the namespace of \<open>ns\<close>.\<close>

lemma setupBegin_log:
  assumes "setupBegin h cfg s = (Ok (st, ns, cfg'), s')"
  shows "\<exists>fd t. NetFD ns = Some fd \<and> fd < fresh s' \<and> nsOf s' fd < fresh s' \<and> sTUN st = Some t \<and>
     netLog s' = netLog s @ map (\<lambda>d. (nsOf s' fd, RouteReplace (Route (tunName t) (Some d) None))) defaultDsts"
  using assms
proof (rule setupBegin_steps)
  fix wg s1 opts s2 t s3 s4 k s5 s6 p s7 st'
  assume 1: "startTunnel h cfg s = (Ok wg, s1)" and 2: "createNetNS opts s1 = (Ok ns, s2)"
    and 3: "createTUN (rndBytes h) (setIff h) (TunDev cfg') s2 = (Ok t, s3)" and 4: "moveToNetNS t (fdNum (NetFD ns)) s3 = (Ok (), s4)"
    and 5: "newNSStack (fdNum (tunFile t)) (TunMTU cfg') s4 = (Ok k, s5)"
    and 6: "netnsRun ns (configureLinkInNS (tunName t) tunAddrCIDR (TunMTU cfg')) s5 = (Ok (), s6)"
    and 7: "startWarpSvc ns (WarpSvcCmd cfg') s6 = (Ok p, s7)" and 8: "bringUp h cfg' ns st' s7 = (Ok (), s')" and st: "sTUN st = Some t"
  obtain fd where fd: "NetFD ns = Some fd" "fd < fresh s2" "nsOf s2 fd < fresh s2" using createNetNS_new [OF 2] by auto
  have w: "netLog s1 = netLog s"
    using 1 unchD [OF unch_netLog_steps(1)] by (auto simp: startTunnel_def elim!: thenK_OkE onErrK_OkE split: if_splits)
  have l: "netLog s5 = netLog s"
    using w unchD [OF unch_netLog_createNetNS 2] unchD [OF unch_netLog_steps(2) 3] unchD [OF unch_netLog_steps(3) 4]
      unchD [OF unch_netLog_steps(4) 5] by simp
  have n5: "newer s2 s5"
    by (rule newer_trans [OF growsD [OF grows_steps(1) 3] newer_trans [OF growsD [OF grows_steps(2) 4] growsD [OF grows_steps(3) 5]]])
  have n': "newer s5 s'"
    by (rule newer_trans [OF growsD [OF grows_netnsRun [OF grows_steps(4)] 6] newer_trans [OF growsD [OF grows_steps(5) 7] conjunct2 [OF bringUp_steps [OF 8]]]])
  have "netLog s' = netLog s6" using unchD [OF unch_netLog_steps(5) 7] bringUp_steps [OF 8] by simp
  moreover have "fd < fresh s5" "nsOf s5 fd = nsOf s2 fd" using n5 fd by (auto simp: newer_def)
  moreover have "fresh s5 \<le> fresh s'" "fresh s2 \<le> fresh s5" "nsOf s' fd = nsOf s5 fd" using n' n5 calculation(2) by (auto simp: newer_def)
  ultimately show ?thesis
    using cfg_netnsRun [OF cfg_configureLinkInNS 6] l st fd by (intro exI [of _ fd] exI [of _ t]) (simp add: fdNum_def)
qed

lemma createEgressNS_new:
  assumes "createEgressNS ns r w s = (Ok eg, s')"
  shows "newer s s' \<and> (\<exists>fd. NetFD eg = Some fd \<and> nsOf s' fd = anchorNet eg \<and> fresh s \<le> anchorNet eg)"
proof -
  from assms obtain s1 s2 s3 where
    1: "createNetNS \<lparr>RootMode = NetNSRootHost, Nameserver = r, ExtraEtcBinds = [], ExtraBinds = []\<rparr> s = (Ok eg, s1)"
    and 2: "netnsRun ns (vethSetup eg) s1 = (Ok (), s2)"
    and 3: "netnsRun ns (installWarpForwardingRules w) s2 = (Ok (), s3)"
    and 4: "netnsRun eg edgeSetup s3 = (Ok (), s')"
    unfolding createEgressNS_def by (auto elim!: thenK_OkE onErrK_OkE)
  have g: "grows (vethSetup eg)" "grows (installWarpForwardingRules w)" "grows edgeSetup"
    unfolding vethSetup_def addLinkAddr_def writeSysctl_def installWarpForwardingRules_def installForwardGuard_def installMasquerade_def
      installMasqueradeFamily_def ifname_def edgeSetup_def by (intro grows_rules; simp add: newer_refl)+
  have n: "newer s1 s'"
    by (rule newer_trans [OF growsD [OF grows_netnsRun [OF g(1)] 2] newer_trans [OF growsD [OF grows_netnsRun [OF g(2)] 3] growsD [OF grows_netnsRun [OF g(3)] 4]]])
  obtain fd where "NetFD eg = Some fd" "fd < fresh s1" "nsOf s1 fd = anchorNet eg" "fresh s \<le> anchorNet eg" using createNetNS_new [OF 1] by blast
  moreover from this n have "nsOf s' fd = nsOf s1 fd" by (simp add: newer_def)
  ultimately show ?thesis using newer_trans [OF growsD [OF grows_createNetNS 1] n] by auto
qed

text \<open>All the routes and rules of a set-up, and the namespaces they are made in.\<close>

lemma setupAll_log:
  assumes "setupAll h cfg s = Some (Ok st, s')" "ifaceName (WarpIface cfg)"
  obtains ns eg t where "sWarpNS st = Some ns" "sEgress st = Some eg" "sTUN st = Some t"
    "nsOf s' (fdNum (NetFD eg)) = anchorNet eg" "nsOf s' (fdNum (NetFD ns)) \<noteq> anchorNet eg"
    "netLog s' = netLog s @ map (\<lambda>d. (nsOf s' (fdNum (NetFD ns)), RouteReplace (Route (tunName t) (Some d) None))) defaultDsts @
       map (\<lambda>b. (nsOf s' (fdNum (NetFD ns)), NftFlush b)) (ownBatches (WarpIface cfg)) @ map (\<lambda>r. (anchorNet eg, RouteReplace r)) edgeRoutes"
proof -
  from assms(1) obtain st0 ns cfg' s1 r s2 where
    1: "setupBegin h cfg s = (Ok (st0, ns, cfg'), s1)"
    and 2: "waitForWarpRoute (ready h) ns (WarpIface cfg') (seconds (WarpReadyTimeout cfg')) s1 = Some (r, s2)"
    and 3: "thenK (orClose st0 (\<lambda>s. (r, s)) (Wrapf ''warp readiness: %w'' [])) (\<lambda>_. setupEnd cfg' ns st0) s2 = (Ok st, s')"
    by (auto simp: setupAll_def split: prod.splits outcome.splits sum.splits option.splits)
  note res = setupBegin_result [OF 1]
  from 3 res obtain eg where 4: "createEgressNS ns (NetnsResolvNameserver cfg) (WarpIface cfg) s2 = (Ok eg, s')" and st: "st = st0\<lparr>sEgress := Some eg\<rparr>"
    by (auto simp: setupEnd_def elim!: thenK_OkE onErrK_OkE)
  have "netLog (snd (r, s2)) = netLog s1 \<and> newer s1 (snd (r, s2))"
  proof (rule waitLoop_rel [where Q = "\<lambda>s t. netLog t = netLog s \<and> newer s t", OF _ _ _ 2 [unfolded waitForWarpRoute_def]])
    show "netLog t' = netLog t \<and> newer t t'" if "probeRoute (ready h) ns i t = (q, t')" for i t q t'
      using unchD [OF unch_netLog_steps(6) that] growsD [OF grows_steps(6) that] by simp
  qed (auto simp: newer_refl intro: newer_trans)
  then have w: "netLog s2 = netLog s1" "newer s1 s2" by simp_all
  obtain fd t where b: "NetFD ns = Some fd" "fd < fresh s1" "nsOf s1 fd < fresh s1" "sTUN st0 = Some t"
    "netLog s1 = netLog s @ map (\<lambda>d. (nsOf s1 fd, RouteReplace (Route (tunName t) (Some d) None))) defaultDsts"
    using setupBegin_log [OF 1] by blast
  obtain fe where e: "newer s2 s'" "NetFD eg = Some fe" "nsOf s' fe = anchorNet eg" "fresh s2 \<le> anchorNet eg" using createEgressNS_new [OF 4] by blast
  have "nsOf s' fd = nsOf s1 fd" using b w(2) e(1) by (auto simp: newer_def)
  moreover have "nsOf s1 fd < nsOf s' fe" using b(3) w(2) e(3,4) by (auto simp: newer_def)
  ultimately show thesis
    using createEgressNS_log [OF 4 assms(2)] w(1) b e(2,3) res st by (intro that [of ns eg t]) (simp_all add: fdNum_def)
qed

section \<open>Properties\<close>



end
