(* ===== verification/Flags.thy ===== *)
theory Flags
  imports Config "HOL-Library.Sublist"
begin

text \<open>
  The command line: the flags \<open>registerCommonFlags\<close> of \<open>config.go\<close> declares and what Go's package \<open>flag\<close> does
  with them. The lemmas: the parser comes to an end, it reads back every way of writing a list of
  settings, in order, up to the \<open>--\<close> that ends them, and leaves the rest of the command line untouched;
  integers survive printing and parsing.
\<close>

section \<open>Numbers and truth values\<close>

text \<open>\<open>lower\<close> of \<open>strconv\<close> sets one bit; on letters it is the lower case.\<close>

definition lowerAscii :: "char \<Rightarrow> char" where
  "lowerAscii c = (if 65 \<le> ord c \<and> ord c \<le> 90 then chr (ord c + 32) else c)"

definition digitOf :: "char \<Rightarrow> nat option" where
  "digitOf c =
     (if is_digit c then Some (digit_val c)
      else let l = ord (lowerAscii c) in if 97 \<le> l \<and> l \<le> 122 then Some (l - 97 + 10) else None)"

text \<open>The digits of \<open>strconv.ParseUint(s, 0, 64)\<close>, once the base is known. Underscores are skipped.\<close>

fun digitLoop :: "nat \<Rightarrow> string \<Rightarrow> nat \<Rightarrow> string \<Rightarrow> goerr + nat" where
  "digitLoop bs s0 n [] = Inr n"
| "digitLoop bs s0 n (c # cs) =
     (if c = CHR ''_'' then digitLoop bs s0 n cs
      else (case digitOf c of
              None \<Rightarrow> Inl (NumSyntax s0)
            | Some d \<Rightarrow>
                if d \<ge> bs then Inl (NumSyntax s0)
                else let n1 = n * bs + d in if n1 > 2 ^ 64 - 1 then Inl (NumRange s0) else digitLoop bs s0 n1 cs))"

datatype saw = SawNothing | SawDigit | SawUnderscore | SawOther

fun underscoreLoop :: "bool \<Rightarrow> saw \<Rightarrow> string \<Rightarrow> bool" where
  "underscoreLoop hex w [] = (w \<noteq> SawUnderscore)"
| "underscoreLoop hex w (c # cs) =
     (if is_digit c \<or> hex \<and> is_hex c then underscoreLoop hex SawDigit cs
      else if c = CHR ''_'' then (if w \<noteq> SawDigit then False else underscoreLoop hex SawUnderscore cs)
      else if w = SawUnderscore then False
      else underscoreLoop hex SawOther cs)"

text \<open>The base a prefix stands for, with the digits after it: \<open>0b\<close>, \<open>0o\<close>, \<open>0x\<close>, or \<open>0\<close> for octal.\<close>

definition basePrefix :: "string \<Rightarrow> nat \<times> string" where
  "basePrefix s =
     (case s of
        a # b # r \<Rightarrow>
          if a \<noteq> CHR ''0'' then (10, s)
          else if r \<noteq> [] \<and> lowerAscii b = CHR ''b'' then (2, r)
          else if r \<noteq> [] \<and> lowerAscii b = CHR ''o'' then (8, r)
          else if r \<noteq> [] \<and> lowerAscii b = CHR ''x'' then (16, r)
          else (8, b # r)
      | [a] \<Rightarrow> if a = CHR ''0'' then (8, []) else (10, s)
      | [] \<Rightarrow> (10, s))"

definition underscoreOK :: "string \<Rightarrow> bool" where
  "underscoreOK s =
     (case s of
        a # b # r \<Rightarrow>
          if a = CHR ''0'' \<and> lowerAscii b \<in> {CHR ''b'', CHR ''o'', CHR ''x''}
          then underscoreLoop (lowerAscii b = CHR ''x'') SawDigit r
          else underscoreLoop False SawNothing s
      | _ \<Rightarrow> underscoreLoop False SawNothing s)"

definition parseUint0 :: "string \<Rightarrow> goerr + nat" where
  "parseUint0 s =
     (if s = [] then Inl (NumSyntax s)
      else let (bs, r) = basePrefix s in
        (case digitLoop bs s 0 r of
           Inl e \<Rightarrow> Inl e
         | Inr n \<Rightarrow> if CHR ''_'' \<in> set r \<and> \<not> underscoreOK s then Inl (NumSyntax s) else Inr n))"

text \<open>\<open>strconv.ParseInt(s, 0, 64)\<close>.\<close>

definition parseInt0 :: "string \<Rightarrow> goerr + int" where
  "parseInt0 s =
     (let neg = (s \<noteq> [] \<and> hd s = CHR ''-'');
          mag = (if s \<noteq> [] \<and> (hd s = CHR ''-'' \<or> hd s = CHR ''+'') then tl s else s)
      in case parseUint0 mag of
           Inl (NumRange _) \<Rightarrow> Inl (NumRange s)
         | Inl _ \<Rightarrow> Inl (NumSyntax s)
         | Inr n \<Rightarrow>
             if \<not> neg \<and> n \<ge> 2 ^ 63 then Inl (NumRange s)
             else if neg \<and> n > 2 ^ 63 then Inl (NumRange s)
             else Inr (if neg then - int n else int n))"

text \<open>\<open>strconv.ParseBool\<close>.\<close>

definition parseBool :: "string \<Rightarrow> goerr + bool" where
  "parseBool s =
     (if s \<in> {''1'', ''t'', ''T'', ''true'', ''TRUE'', ''True''} then Inr True
      else if s \<in> {''0'', ''f'', ''F'', ''false'', ''FALSE'', ''False''} then Inr False
      else Inl (NumSyntax s))"

section \<open>Flags\<close>

text \<open>A flag is the field it sets.\<close>

datatype flag_var =
    BoolVar "bool \<Rightarrow> config \<Rightarrow> config"
  | StringVar "string \<Rightarrow> config \<Rightarrow> config"
  | IntVar "int \<Rightarrow> config \<Rightarrow> config"

definition commonFlags :: "(string \<times> flag_var) list" where
  "commonFlags =
    [(''no-wireguard'', BoolVar (\<lambda>v c. c\<lparr>NoWireGuard := v\<rparr>)),
     (''wg-endpoint'', StringVar (\<lambda>v c. c\<lparr>WGEndpoint := v\<rparr>)),
     (''wg-public-key'', StringVar (\<lambda>v c. c\<lparr>WGPublicKey := v\<rparr>)),
     (''wg-preshared-key'', StringVar (\<lambda>v c. c\<lparr>WGPresharedKey := v\<rparr>)),
     (''inner-socks5'', StringVar (\<lambda>v c. c\<lparr>InnerSocks5 := v\<rparr>)),
     (''outer-socks5'', StringVar (\<lambda>v c. c\<lparr>OuterSocks5 := v\<rparr>)),
     (''wg-address'', StringVar (\<lambda>v c. c\<lparr>wgAddrRaw := v\<rparr>)),
     (''wg-allowed-ips'', StringVar (\<lambda>v c. c\<lparr>wgAllowedRaw := v\<rparr>)),
     (''wg-mtu'', IntVar (\<lambda>v c. c\<lparr>WGMTU := v\<rparr>)),
     (''wg-persistent-keepalive'', IntVar (\<lambda>v c. c\<lparr>WGPersistentKA := v\<rparr>)),
     (''wg-over-tcp'', BoolVar (\<lambda>v c. c\<lparr>WGOverTCP := v\<rparr>)),
     (''tun-dev'', StringVar (\<lambda>v c. c\<lparr>TunDev := v\<rparr>)),
     (''tun-mtu'', IntVar (\<lambda>v c. c\<lparr>TunMTU := v\<rparr>)),
     (''resolv-nameserver'', StringVar (\<lambda>v c. c\<lparr>NetnsResolvNameserver := v\<rparr>)),
     (''warp-svc-cmd'', StringVar (\<lambda>v c. c\<lparr>WarpSvcCmd := v\<rparr>)),
     (''warp-cli'', StringVar (\<lambda>v c. c\<lparr>WarpCli := v\<rparr>)),
     (''protocol'', StringVar (\<lambda>v c. c\<lparr>WarpProtocol := v\<rparr>)),
     (''warp-connect-retries'', IntVar (\<lambda>v c. c\<lparr>WarpConnectRetry := v\<rparr>)),
     (''warp-connect-delay'', IntVar (\<lambda>v c. c\<lparr>WarpConnectDelay := v\<rparr>)),
     (''warp-ready-timeout'', IntVar (\<lambda>v c. c\<lparr>WarpReadyTimeout := v\<rparr>)),
     (''warp-iface'', StringVar (\<lambda>v c. c\<lparr>WarpIface := v\<rparr>)),
     (''warp-state-dir'', StringVar (\<lambda>v c. c\<lparr>WarpStateDir := v\<rparr>)),
     (''log-file'', StringVar (\<lambda>v c. c\<lparr>LogFile := v\<rparr>))]"

text \<open>The flag only \<open>proxy\<close> has.\<close>

definition listenFlag :: "string \<times> flag_var" where
  "listenFlag = (''listen'', StringVar (\<lambda>v c. c\<lparr>ProxyListen := v\<rparr>))"

text \<open>\<open>Value.Set\<close>.\<close>

fun setFlag :: "flag_var \<Rightarrow> string \<Rightarrow> config \<Rightarrow> goerr + config" where
  "setFlag (BoolVar f) v c = (case parseBool v of Inl e \<Rightarrow> Inl e | Inr b \<Rightarrow> Inr (f b c))"
| "setFlag (StringVar f) v c = Inr (f v c)"
| "setFlag (IntVar f) v c = (case parseInt0 v of Inl e \<Rightarrow> Inl e | Inr i \<Rightarrow> Inr (f i c))"

definition isBoolFlag :: "flag_var \<Rightarrow> bool" where
  "isBoolFlag x = (case x of BoolVar f \<Rightarrow> True | _ \<Rightarrow> False)"

text \<open>The name of a flag, and its value if it is written after \<open>=\<close>.\<close>

definition cutFlag :: "string \<Rightarrow> string \<times> string option" where
  "cutFlag body =
     (let name = takeWhile (\<lambda>ch. ch \<noteq> CHR ''='') body
      in (name, if name = body then None else Some (drop (Suc (length name)) body)))"

text \<open>
  The second half of \<open>FlagSet.parseOne\<close>: the value, which may be the next argument, is set. The
  result is the arguments left and the configuration.
\<close>

definition takeFlag :: "flag_var \<Rightarrow> string \<Rightarrow> string option \<Rightarrow> string list \<Rightarrow> config \<Rightarrow> goerr + (string list \<times> config)" where
  "takeFlag x name val rest c =
     (if isBoolFlag x then
        let v = (case val of None \<Rightarrow> ''true'' | Some v \<Rightarrow> v) in
        (case setFlag x v c of
           Inl e \<Rightarrow> Inl (Wrapf ''invalid boolean value %q for -%s: %v'' [AStr v, AStr name] e)
         | Inr c \<Rightarrow> Inr (rest, c))
      else
        (case (case val of Some v \<Rightarrow> Some (v, rest) | None \<Rightarrow> (case rest of [] \<Rightarrow> None | v # r \<Rightarrow> Some (v, r))) of
           None \<Rightarrow> Inl (Errorf ''flag needs an argument: -%s'' [AStr name])
         | Some (v, rest) \<Rightarrow>
             (case setFlag x v c of
                Inl e \<Rightarrow> Inl (Wrapf ''invalid value %q for flag -%s: %v'' [AStr v, AStr name] e)
              | Inr c \<Rightarrow> Inr (rest, c))))"

text \<open>
  \<open>FlagSet.parseOne\<close>: an error, or whether a flag was seen with the arguments left and the
  configuration after it.
\<close>

definition parseOne :: "(string \<times> flag_var) list \<Rightarrow> string list \<Rightarrow> config \<Rightarrow> goerr + (bool \<times> string list \<times> config)" where
  "parseOne fl as c =
     (case as of
        [] \<Rightarrow> Inr (False, as, c)
      | s # rest \<Rightarrow>
          if length s < 2 \<or> hd s \<noteq> CHR ''-'' then Inr (False, as, c)
          else if s = ''--'' then Inr (False, rest, c)
          else
            let body = (if s ! 1 = CHR ''-'' then drop 2 s else drop 1 s) in
            if body = '''' \<or> hd body = CHR ''-'' \<or> hd body = CHR ''='' then Inl (Errorf ''bad flag syntax: %s'' [AStr s])
            else
              let (name, val) = cutFlag body in
              (case map_of fl name of
                 None \<Rightarrow>
                   if name = ''help'' \<or> name = ''h'' then Inl (Errorf ''flag: help requested'' [])
                   else Inl (Errorf ''flag provided but not defined: -%s'' [AStr name])
               | Some x \<Rightarrow> (case takeFlag x name val rest c of Inl e \<Rightarrow> Inl e | Inr (rest, c) \<Rightarrow> Inr (True, rest, c))))"

lemma takeFlag_shorter: "takeFlag x name val rest c = Inr (rest', c') \<Longrightarrow> length rest' \<le> length rest"
  by (auto simp: takeFlag_def Let_def split: if_splits option.splits sum.splits list.splits)

lemma parseOne_shorter: "parseOne fl as c = Inr (True, as', c') \<Longrightarrow> length as' < length as"
  by (cases as) (auto simp: parseOne_def Let_def less_Suc_eq_le dest: takeFlag_shorter split: if_splits option.splits sum.splits prod.splits)

text \<open>\<open>FlagSet.Parse\<close>: the arguments after the flags (\<open>FlagSet.Args\<close>), and the configuration.\<close>

function parseFlags :: "(string \<times> flag_var) list \<Rightarrow> string list \<Rightarrow> config \<Rightarrow> goerr + (string list \<times> config)" where
  "parseFlags fl as c =
     (case parseOne fl as c of
        Inl e \<Rightarrow> Inl e
      | Inr (seen, as', c') \<Rightarrow> if seen then parseFlags fl as' c' else Inr (as', c'))"
  by pat_completeness auto
termination
  by (relation "measure (\<lambda>(fl, as, c). length as)") (auto dest: parseOne_shorter)

declare parseFlags.simps [simp del]

section \<open>Writing flags\<close>

text \<open>The ways to write a setting, with one or two dashes: \<open>-name=value\<close>, \<open>-name value\<close>, and \<open>-name\<close> for a truth value.\<close>

datatype spelling = Joined bool | Spaced bool | Bare bool

definition dashes :: "bool \<Rightarrow> string" where
  "dashes two = (if two then ''--'' else ''-'')"

fun spell :: "spelling \<times> string \<times> string \<Rightarrow> string list" where
  "spell (Joined d, n, v) = [dashes d @ n @ ''='' @ v]"
| "spell (Spaced d, n, v) = [dashes d @ n, v]"
| "spell (Bare d, n, v) = [dashes d @ n]"

fun spellable :: "flag_var \<Rightarrow> spelling \<Rightarrow> string \<Rightarrow> bool" where
  "spellable x (Joined d) v = True"
| "spellable x (Spaced d) v = (\<not> isBoolFlag x)"
| "spellable x (Bare d) v = (isBoolFlag x \<and> v = ''true'')"

text \<open>The settings applied one after the other.\<close>

fun setAll :: "(string \<times> flag_var) list \<Rightarrow> (string \<times> string) list \<Rightarrow> config \<Rightarrow> goerr + config" where
  "setAll fl [] c = Inr c"
| "setAll fl ((n, v) # ss) c =
     (case map_of fl n of
        None \<Rightarrow> Inl (Errorf ''flag provided but not defined: -%s'' [AStr n])
      | Some x \<Rightarrow> (case setFlag x v c of Inl e \<Rightarrow> Inl e | Inr c \<Rightarrow> setAll fl ss c))"

definition goodName :: "string \<Rightarrow> bool" where
  "goodName n \<longleftrightarrow> n \<noteq> '''' \<and> hd n \<noteq> CHR ''-'' \<and> CHR ''='' \<notin> set n"

lemma commonFlags_names: "list_all (\<lambda>(n, x). goodName n) (commonFlags @ [listenFlag])" "distinct (map fst (commonFlags @ [listenFlag]))"
  by (simp_all add: commonFlags_def listenFlag_def goodName_def)

lemma goodNameE:
  assumes "goodName n"
  obtains a m where "n = a # m" "a \<noteq> CHR ''-''" "a \<noteq> CHR ''=''" "CHR ''='' \<notin> set n"
  using assms by (cases n) (auto simp: goodName_def)

lemma cutFlag_name: "CHR ''='' \<notin> set n \<Longrightarrow> cutFlag n = (n, None)"
  "CHR ''='' \<notin> set n \<Longrightarrow> cutFlag (n @ CHR ''='' # v) = (n, Some v)"
proof -
  assume "CHR ''='' \<notin> set n"
  then have "takeWhile (\<lambda>ch. ch \<noteq> CHR ''='') n = n" "takeWhile (\<lambda>ch. ch \<noteq> CHR ''='') (n @ CHR ''='' # v) = n"
    by (auto simp: takeWhile_eq_all_conv takeWhile_append)
  then show "cutFlag n = (n, None)" "cutFlag (n @ CHR ''='' # v) = (n, Some v)" by (simp_all add: cutFlag_def)
qed

text \<open>One setting, however it is written.\<close>

lemma parseOne_dashed:
  assumes "goodName n" "map_of fl n = Some x"
  shows "parseOne fl ((dashes d @ n) # rest) c = (case takeFlag x n None rest c of Inl e \<Rightarrow> Inl e | Inr (rest, c) \<Rightarrow> Inr (True, rest, c))"
    "parseOne fl ((dashes d @ n @ CHR ''='' # v) # rest) c = (case takeFlag x n (Some v) rest c of Inl e \<Rightarrow> Inl e | Inr (rest, c) \<Rightarrow> Inr (True, rest, c))"
proof -
  obtain a m where n: "n = a # m" "a \<noteq> CHR ''-''" "a \<noteq> CHR ''=''" "CHR ''='' \<notin> set n" using assms(1) by (rule goodNameE)
  note cut = cutFlag_name [OF n(4), unfolded n(1)] assms(2) [unfolded n(1)]
  show "parseOne fl ((dashes d @ n) # rest) c = (case takeFlag x n None rest c of Inl e \<Rightarrow> Inl e | Inr (rest, c) \<Rightarrow> Inr (True, rest, c))"
    "parseOne fl ((dashes d @ n @ CHR ''='' # v) # rest) c = (case takeFlag x n (Some v) rest c of Inl e \<Rightarrow> Inl e | Inr (rest, c) \<Rightarrow> Inr (True, rest, c))"
    using n(2,3) cut unfolding parseOne_def n(1) dashes_def by (simp_all add: Let_def)
qed

lemma parseOne_spell:
  assumes "goodName n" "map_of fl n = Some x" "spellable x sp v"
  shows "case setFlag x v c of
     Inl e \<Rightarrow> \<exists>e'. parseOne fl (spell (sp, n, v) @ rest) c = Inl e'
   | Inr c' \<Rightarrow> parseOne fl (spell (sp, n, v) @ rest) c = Inr (True, rest, c')"
  using assms(3) by (cases sp) (auto simp: parseOne_dashed [OF assms(1,2)] takeFlag_def Let_def split: sum.split)

lemma parseFlags_spell:
  assumes "list_all (\<lambda>(n, x). goodName n) fl"
    and "list_all (\<lambda>(sp, n, v). \<exists>x. map_of fl n = Some x \<and> spellable x sp v) ss"
  shows "case setAll fl (map snd ss) c of
     Inl e \<Rightarrow> \<exists>e'. parseFlags fl (concat (map spell ss) @ rest) c = Inl e'
   | Inr c' \<Rightarrow> parseFlags fl (concat (map spell ss) @ rest) c = parseFlags fl rest c'"
  using assms(2)
proof (induction ss arbitrary: c)
  case (Cons a ss)
  obtain sp n v where a: "a = (sp, n, v)" by (cases a)
  with Cons.prems obtain x where x: "map_of fl n = Some x" "spellable x sp v" by auto
  have g: "goodName n" using assms(1) map_of_SomeD [OF x(1)] by (auto simp: list_all_iff)
  note one = parseOne_spell [OF g x, where c = c and rest = "concat (map spell ss) @ rest"]
  show ?case
  proof (cases "setFlag x v c")
    case (Inl e)
    with one obtain e' where "parseOne fl (spell (sp, n, v) @ concat (map spell ss) @ rest) c = Inl e'" by auto
    then show ?thesis using Inl a x(1) by (subst parseFlags.simps) simp
  next
    case (Inr c1)
    then have "parseFlags fl (concat (map spell (a # ss)) @ rest) c = parseFlags fl (concat (map spell ss) @ rest) c1"
      using one a by (subst parseFlags.simps) simp
    moreover have "setAll fl (map snd (a # ss)) c = setAll fl (map snd ss) c1" using Inr a x(1) by simp
    ultimately show ?thesis using Cons.IH [of c1] Cons.prems by (auto split: sum.splits)
  qed
qed simp

section \<open>Printed numbers\<close>

definition formatInt :: "int \<Rightarrow> string" where
  "formatInt i = (if i < 0 then CHR ''-'' # formatUint (nat (- i)) else formatUint (nat i))"

lemma digitLoop_digits: "list_all is_digit s \<Longrightarrow> digitLoop 10 s0 n s = parse_digits (2 ^ 64 - 1) s0 n s"
proof (induction s arbitrary: n)
  case (Cons c s)
  then have "is_digit c" by simp
  moreover from this have "c \<noteq> CHR ''_''" "digit_val c < 10" by (auto simp: is_digit_def digit_val_def)
  ultimately show ?case using Cons by (simp add: digitOf_def Let_def)
qed simp

lemma formatUint_lead: "n \<noteq> 0 \<Longrightarrow> hd (formatUint n) \<noteq> CHR ''0''"
  using hd_formatUint [of n] by auto

lemma parseUint0_formatUint: "n < 2 ^ 64 \<Longrightarrow> parseUint0 (formatUint n) = Inr n"
proof (cases "n = 0")
  case True
  have "parseUint0 (formatUint 0) = Inr 0" by code_simp
  then show ?thesis using True by simp
next
  case False
  assume n: "n < 2 ^ 64"
  obtain a m where f: "formatUint n = a # m" by (cases "formatUint n") auto
  then have "a \<noteq> CHR ''0''" using formatUint_lead [OF False] by simp
  then have "basePrefix (formatUint n) = (10, formatUint n)" using f by (cases m) (simp_all add: basePrefix_def)
  moreover have "CHR ''_'' \<notin> set (formatUint n)" by (rule formatUint_not_member) (simp add: is_digit_def)
  ultimately show ?thesis
    using n by (simp add: parseUint0_def digitLoop_digits [OF formatUint_digits] parse_digits_formatUint)
qed

lemma parseInt0_formatInt: "- (2 ^ 63) \<le> i \<Longrightarrow> i < 2 ^ 63 \<Longrightarrow> parseInt0 (formatInt i) = Inr i"
proof -
  assume i: "- (2 ^ 63) \<le> i" "i < 2 ^ 63"
  have h: "hd (formatUint n) \<noteq> CHR ''-'' \<and> hd (formatUint n) \<noteq> CHR ''+''" for n
    using formatUint_digits [of n] by (cases "formatUint n") (auto simp: is_digit_def)
  show ?thesis
  proof (cases "i < 0")
    case True
    then have "parseUint0 (formatUint (nat (- i))) = Inr (nat (- i))" using i by (intro parseUint0_formatUint) simp
    then show ?thesis using True i by (simp add: parseInt0_def formatInt_def)
  next
    case False
    then have "parseUint0 (formatUint (nat i)) = Inr (nat i)" using i by (intro parseUint0_formatUint) simp
    then show ?thesis using False i h by (simp add: parseInt0_def formatInt_def)
  qed
qed

section \<open>What parsing yields\<close>

text \<open>Go's \<open>int\<close> has 64 bits. The integers of a configuration are written as unbounded ones; that they fit is a lemma.\<close>

definition fits64 :: "int \<Rightarrow> bool" where
  "fits64 i \<longleftrightarrow> - (2 ^ 63) \<le> i \<and> i < 2 ^ 63"

definition configInts :: "config \<Rightarrow> int list" where
  "configInts c = [WGMTU c, WGPersistentKA c, TunMTU c, WarpConnectRetry c, WarpConnectDelay c, WarpReadyTimeout c]"

lemma parseInt0_fits: "parseInt0 s = Inr i \<Longrightarrow> fits64 i"
  by (auto simp: parseInt0_def fits64_def Let_def split: sum.splits if_splits goerr.splits)

lemma envInt_fits: "fits64 d \<Longrightarrow> fits64 (envInt env key d)"
  by (auto simp: envInt_def atoi_def fits64_def Let_def split: sum.splits if_splits goerr.splits)

lemma registerCommonFlags_fits: "list_all fits64 (configInts (registerCommonFlags ulow env c))"
proof -
  have "fits64 1280" "fits64 25" "fits64 1420" "fits64 5" "fits64 2" "fits64 60" by (simp_all add: fits64_def)
  then show ?thesis by (simp add: configInts_def registerCommonFlags_def envInt_fits)
qed

text \<open>A flag that keeps the integers of a configuration in range, whatever value it is given.\<close>

definition fitting :: "flag_var \<Rightarrow> bool" where
  "fitting x \<longleftrightarrow> (\<forall>v c c'. list_all fits64 (configInts c) \<and> setFlag x v c = Inr c' \<longrightarrow> list_all fits64 (configInts c'))"

lemma fitting_Var:
  "(\<And>b c. configInts (f b c) = configInts c) \<Longrightarrow> fitting (BoolVar f)"
  "(\<And>v c. configInts (g v c) = configInts c) \<Longrightarrow> fitting (StringVar g)"
  "(\<And>i c. fits64 i \<Longrightarrow> list_all fits64 (configInts c) \<Longrightarrow> list_all fits64 (configInts (k i c))) \<Longrightarrow> fitting (IntVar k)"
  by (auto simp: fitting_def dest: parseInt0_fits split: sum.splits)

lemma commonFlags_fitting: "list_all (\<lambda>(n, x). fitting x) (commonFlags @ [listenFlag])"
  unfolding commonFlags_def listenFlag_def list.pred_inject append.simps prod.case
  by (intro conjI TrueI fitting_Var) (simp_all add: configInts_def)

lemma parseOne_keeps:
  assumes "list_all (\<lambda>(n, x). fitting x) fl" "parseOne fl as c = Inr (b, as', c')" "list_all fits64 (configInts c)"
  shows "list_all fits64 (configInts c') \<and> suffix as' as"
proof -
  have f: "fitting x" if "map_of fl n = Some x" for n x using assms(1) map_of_SomeD [OF that] by (auto simp: list_all_iff)
  have t: "list_all fits64 (configInts c') \<and> suffix as' rest"
    if "takeFlag x name val rest c = Inr (as', c')" "map_of fl name = Some x" for x name val rest
    using that(1) f [OF that(2)] assms(3) unfolding fitting_def
    by (auto simp: takeFlag_def Let_def suffix_ConsI split: if_splits sum.splits option.splits list.splits)
  show ?thesis
    using assms(2,3) by (cases as) (auto simp: parseOne_def Let_def suffix_ConsI split: if_splits option.splits sum.splits prod.splits dest!: t)
qed

lemma parseFlags_keeps:
  assumes "list_all (\<lambda>(n, x). fitting x) fl" "parseFlags fl as c = Inr (rest, c')" "list_all fits64 (configInts c)"
  shows "list_all fits64 (configInts c') \<and> suffix rest as"
  using assms
proof (induction fl as c rule: parseFlags.induct [case_names step])
  case (step fl as c)
  from step.prems(2) obtain b as1 c1 where 1: "parseOne fl as c = Inr (b, as1, c1)"
    and r: "if b then parseFlags fl as1 c1 = Inr (rest, c') else as1 = rest \<and> c1 = c'"
    by (subst (asm) parseFlags.simps) (auto split: sum.splits if_splits)
  note k = parseOne_keeps [OF step.prems(1) 1 step.prems(3)]
  show ?case
  proof (cases b)
    case True
    then have "list_all fits64 (configInts c') \<and> suffix rest as1" using step.IH [OF 1 refl refl _ step.prems(1)] r k by simp
    then show ?thesis using k suffix_order.trans by blast
  qed (use r k in simp)
qed

section \<open>Properties\<close>



end
