(* ===== verification/Commands.thy ===== *)
theory Commands
  imports Confined Flags
begin

text \<open>
  The subcommands of \<open>main.go\<close> and the logger of \<open>log.go\<close>. A command parses its flags, checks the configuration, opens
  the log, sets everything up, does its work in the egress namespace and closes everything.
  The lemmas: a rejected command line changes nothing and exits with 2; a failed set-up exits with
  1; otherwise the exit code is that of the work; and on every path all that was set up is given back.
\<close>

section \<open>The logger\<close>

text \<open>
  \<open>zap.Logger\<close> as \<open>newLogger\<close> configures it: where entries go (nowhere without a file), the names and encoders of their fields, the
  least level that is written (if any is), and whether the caller is added.
\<close>

record logger =
  sink :: "nat option"
  entryKeys :: "(string \<times> string) list"
  minLevel :: "level option"
  addCaller :: bool

definition encoderConfig :: "(string \<times> string) list" where
  "encoderConfig = [(''TimeKey'', ''ts''), (''LevelKey'', ''level''), (''NameKey'', ''logger''), (''CallerKey'', ''caller''),
     (''MessageKey'', ''msg''), (''StacktraceKey'', ''stack''), (''LineEnding'', ''DefaultLineEnding''),
     (''EncodeLevel'', ''LowercaseLevelEncoder''), (''EncodeTime'', ''RFC3339NanoTimeEncoder''),
     (''EncodeDuration'', ''SecondsDurationEncoder''), (''EncodeCaller'', ''ShortCallerEncoder'')]"

definition newLogger :: "string \<Rightarrow> logger act" where
  "newLogger logFile =
     (if logFile = '''' then retK \<lparr>sink = None, entryKeys = [], minLevel = None, addCaller = False\<rparr>
      else thenK (kopen (OpenFile logFile) Fd) (\<lambda>f.
        retK \<lparr>sink = Some f, entryKeys = encoderConfig, minLevel = Some DebugLevel, addCaller = True\<rparr>))"

section \<open>Signals\<close>

text \<open>
  \<open>signalContext\<close>, by the signals the process has received: the first interrupt or termination cancels the
  context, the second ends the process at once, without any clean-up.
\<close>

datatype sig_state = Running | Cancelled | Exited int

fun sigStep :: "sig_state \<Rightarrow> nat \<Rightarrow> sig_state" where
  "sigStep Running s = (if s = 2 \<or> s = 15 then Cancelled else Running)"
| "sigStep Cancelled s = (if s = 2 \<or> s = 15 then Exited 130 else Cancelled)"
| "sigStep (Exited n) s = Exited n"

definition signalContext :: "nat list \<Rightarrow> sig_state" where
  "signalContext sigs = foldl sigStep Running sigs"

lemma signalContext_counts:
  "signalContext sigs = (case length (filter (\<lambda>s. s = 2 \<or> s = 15) sigs) of 0 \<Rightarrow> Running | Suc 0 \<Rightarrow> Cancelled | _ \<Rightarrow> Exited 130)"
proof -
  have x: "foldl sigStep (Exited n) ss = Exited n" for n ss by (induction ss) simp_all
  have c: "foldl sigStep Cancelled ss = (case length (filter (\<lambda>s. s = 2 \<or> s = 15) ss) of 0 \<Rightarrow> Cancelled | _ \<Rightarrow> Exited 130)" for ss
    by (induction ss) (simp_all add: x)
  show ?thesis unfolding signalContext_def
    by (induction sigs) (auto simp: c split: nat.splits)
qed

section \<open>The commands\<close>

text \<open>
  The part both commands begin with: flags, with their defaults from the environment, and \<open>finalize\<close>. The
  configuration starts as the zero value.
\<close>

definition configure :: "(string \<times> flag_var) list \<Rightarrow> (config \<Rightarrow> config) \<Rightarrow> host \<Rightarrow> environ \<Rightarrow> string list \<Rightarrow> goerr + (string list \<times> config)" where
  "configure fl dflt h env args =
     (case parseFlags fl args (dflt (registerCommonFlags (unicodeLower h) env emptyConfig)) of
        Inl e \<Rightarrow> Inl e
      | Inr (rest, cfg) \<Rightarrow> (case finalize env cfg of (Inl e, _) \<Rightarrow> Inl e | (Inr _, cfg) \<Rightarrow> Inr (rest, cfg)))"

text \<open>
  From the logger to the deferred \<open>state.Close()\<close>, with \<open>body\<close> the work in between. \<open>None\<close>: still running.
\<close>

definition withState :: "host \<Rightarrow> config \<Rightarrow> (state \<Rightarrow> kern \<Rightarrow> (int outcome \<times> kern) option) \<Rightarrow> kern \<Rightarrow> (int outcome \<times> kern) option" where
  "withState h cfg body s =
     (case newLogger (LogFile cfg) s of
        (Crashed p, s) \<Rightarrow> Some (Crashed p, s)
      | (Returned (Inl e), s) \<Rightarrow> Some (Ok 1, s)
      | (Returned (Inr lg), s) \<Rightarrow>
          (case setupAll h cfg s of
             None \<Rightarrow> None
           | Some (Crashed p, s) \<Rightarrow> Some (Crashed p, s)
           | Some (Returned (Inl e), s) \<Rightarrow> Some (Ok 1, s)
           | Some (Returned (Inr st), s) \<Rightarrow>
               (case body st s of
                  None \<Rightarrow> None
                | Some (Crashed p, s) \<Rightarrow> Some (Crashed p, stateClose st s)
                | Some (Returned r, s) \<Rightarrow> Some (Returned r, stateClose st s))))"

text \<open>What the child sees and how it ends: its environment, the terminal, and the result of \<open>Wait\<close>.\<close>

record child =
  childEnv :: "string list"
  isTTY :: bool
  waitResult :: wait_result

definition runBody :: "child \<Rightarrow> string list \<Rightarrow> state \<Rightarrow> kern \<Rightarrow> (int outcome \<times> kern) option" where
  "runBody ch rest st s =
     (case sEgress st of
        None \<Rightarrow> Some (Crashed ''nil pointer dereference'', s)
      | Some eg \<Rightarrow> Some (thenK (runInNS eg (childEnv ch) (isTTY ch) (waitResult ch) rest) (\<lambda>(exitCode, runErr). retK exitCode) s))"

definition cmdRun :: "host \<Rightarrow> environ \<Rightarrow> child \<Rightarrow> string list \<Rightarrow> kern \<Rightarrow> (int outcome \<times> kern) option" where
  "cmdRun h env ch args s =
     (case configure commonFlags id h env args of
        Inl e \<Rightarrow> Some (Ok 2, s)
      | Inr (rest, cfg) \<Rightarrow> if rest = [] then Some (Ok 2, s) else withState h cfg (runBody ch rest) s)"

text \<open>\<open>listen\<close>: the outcome of \<open>Listen\<close>. \<open>evs\<close>: what \<open>Accept\<close> returns.\<close>

definition proxyBody :: "config \<Rightarrow> goerr + unit \<Rightarrow> accepted list \<Rightarrow> state \<Rightarrow> kern \<Rightarrow> (int outcome \<times> kern) option" where
  "proxyBody cfg listen evs st s =
     (case runProxy (ProxyListen cfg) listen evs of
        (conns, None) \<Rightarrow> None
      | (conns, Some None) \<Rightarrow> Some (Ok 0, s)
      | (conns, Some (Some e)) \<Rightarrow> Some (Ok 1, s))"

definition listenDefault :: "environ \<Rightarrow> config \<Rightarrow> config" where
  "listenDefault env c = c\<lparr>ProxyListen := envOr env ''PROXY_LISTEN'' ''127.0.0.1:1080''\<rparr>"

definition cmdProxy :: "host \<Rightarrow> environ \<Rightarrow> goerr + unit \<Rightarrow> accepted list \<Rightarrow> string list \<Rightarrow> kern \<Rightarrow> (int outcome \<times> kern) option" where
  "cmdProxy h env listen evs args s =
     (case configure (commonFlags @ [listenFlag]) (listenDefault env) h env args of
        Inl e \<Rightarrow> Some (Ok 2, s)
      | Inr (rest, cfg) \<Rightarrow> withState h cfg (proxyBody cfg listen evs) s)"

text \<open>\<open>main\<close>, with \<open>os.Args\<close>: the status the process exits with.\<close>

definition main :: "host \<Rightarrow> environ \<Rightarrow> child \<Rightarrow> goerr + unit \<Rightarrow> accepted list \<Rightarrow> string list \<Rightarrow> kern \<Rightarrow> (int outcome \<times> kern) option" where
  "main h env ch listen evs osArgs s =
     (if length osArgs < 2 then Some (Ok 2, s)
      else
        let sub = osArgs ! 1; args = drop 2 osArgs in
        if sub = ''run'' then cmdRun h env ch args s
        else if sub = ''proxy'' then cmdProxy h env listen evs args s
        else if sub \<in> {''-h'', ''--help'', ''help''} then Some (Ok 0, s)
        else Some (Ok 2, s))"

section \<open>What the commands leave\<close>

text \<open>At most the log file, which stays open until the process exits.\<close>

definition onlyLog :: "kern \<Rightarrow> kern \<Rightarrow> bool" where
  "onlyLog s s' \<longleftrightarrow> (\<exists>L. held s' = L + held s \<and> (L = {#} \<or> (\<exists>fd. L = {#Fd fd#})))"

text \<open>The configurations with which the set-up can panic.\<close>

definition panicky :: "config \<Rightarrow> bool" where
  "panicky cfg \<longleftrightarrow> (if NoWireGuard cfg then length (WarpIface cfg) \<ge> 16 else \<forall>dns. parseAddr (NetnsResolvNameserver cfg) \<noteq> Inr dns)"

text \<open>The configuration a command line stands for.\<close>

definition commandConfig :: "host \<Rightarrow> environ \<Rightarrow> string list \<Rightarrow> goerr + (string list \<times> config)" where
  "commandConfig h env osArgs =
     (if osArgs ! 1 = ''run'' then configure commonFlags id h env (drop 2 osArgs)
      else configure (commonFlags @ [listenFlag]) (listenDefault env) h env (drop 2 osArgs))"

lemma newLogger_outcome:
  obtains (fails) e s' where "newLogger f s = (Err e, s')" "held s' = held s"
  | (works) lg s' where "newLogger f s = (Ok lg, s')" "onlyLog s s'"
proof (cases "newLogger f" s rule: act_cases)
  case (Ok lg s')
  have "owns {#} (newLogger f) (\<lambda>lg. case sink lg of None \<Rightarrow> {#} | Some fd \<Rightarrow> {#Fd fd#})"
    unfolding newLogger_def by (cases "f = ''''") (auto intro!: owns_retK owns_thenK [OF owns_kopen] simp del: retK_apply)
  from owns_Ok [OF this Ok] have "onlyLog s s'" unfolding onlyLog_def by (cases "sink lg") auto
  with Ok show thesis by (rule works)
next
  case (Err e s')
  then have "held s' = held s" unfolding newLogger_def
    by (auto simp: kopen_def freshId_def kdo_def logCall_def elim!: thenK_ErrE split: if_splits list.splits option.splits)
  with Err show thesis by (rule fails)
next
  case (Crashed p s')
  moreover have "safe (newLogger f)" unfolding newLogger_def by (intro safe_rules)
  ultimately show thesis using safe_crashed by blast
qed

lemma configure_checked:
  assumes "configure fl dflt h env args = Inr (rest, cfg)" "\<not> NoWireGuard cfg"
  shows "length (WarpIface cfg) \<le> 15"
proof -
  from assms(1) obtain c where f: "finalize env c = (Inr (), cfg)"
    by (auto simp: configure_def split: sum.splits prod.splits)
  have "NoWireGuard c = NoWireGuard cfg \<and> WarpIface c = WarpIface cfg"
    using f by (auto simp: finalize_def Let_def split: sum.splits if_splits)
  with finalize_acceptable [OF f] assms(2) show ?thesis by (simp add: acceptable_def)
qed

text \<open>Work that returns and holds nothing new.\<close>

lemma withState_releases:
  assumes clock: "clock (ready h) 0 \<le> clock (ready h) 1" "\<And>i. clock (ready h) (Suc i) + pollEvery \<le> clock (ready h) (Suc (Suc i))"
    and conf: "configure fl dflt h env args = Inr (rest, cfg)"
    and body: "\<And>st t. sEgress st \<noteq> None \<Longrightarrow> (case body st t of None \<Rightarrow> running | Some (r, t') \<Rightarrow> (\<exists>code. r = Ok code) \<and> held t' = held t)"
  shows "case withState h cfg body s of
     None \<Rightarrow> running
   | Some (Returned (Inr code), s') \<Rightarrow> onlyLog s s'
   | Some (Returned (Inl e), s') \<Rightarrow> False
   | Some (Crashed p, s') \<Rightarrow> panicky cfg"
proof (cases rule: newLogger_outcome [of "LogFile cfg" s])
  case (fails e s')
  then show ?thesis by (simp add: withState_def onlyLog_def)
next
  case (works lg s1)
  from clock show ?thesis
  proof (cases rule: setupAll_outcome [where cfg = cfg and s = s1])
    case (panics p s')
    then have "panicky cfg" using configure_checked [OF conf] by (auto simp: panicky_def)
    then show ?thesis using works(1) panics(1) by (simp add: withState_def)
  next
    case (fails e s')
    then show ?thesis using works by (simp add: withState_def onlyLog_def)
  next
    case w: (works st s2)
    show ?thesis
    proof (cases "body st s2")
      case None
      then show ?thesis using works(1) w(1,4) body [of st s2] by (simp add: withState_def)
    next
      case (Some q)
      then obtain code t where q: "body st s2 = Some (Ok code, t)" "held t = held s2" using body [of st s2] w(4) by (cases q) auto
      then have "held (stateClose st t) = held s1" using w(2) stateClose_frees [of st] by (simp add: frees_def)
      then show ?thesis using works w(1) q(1) by (simp add: withState_def onlyLog_def)
    qed
  qed
qed

lemma runInNS_held:
  "\<exists>code err s'. runInNS ns env tty w args s = (Ok (code, err), s') \<and> held s' = held s"
proof (cases "args = []")
  case False
  then show ?thesis
    using netnsRunOnAnchor_startProc [where ns = ns and attr = "childAttr env tty args" and s = s]
    unfolding runInNS_def if_not_P [OF False]
    by (auto simp: thenK_def tryK_def exitResult_def release_def split: prod.splits outcome.splits sum.splits wait_result.splits)
qed (simp add: runInNS_def)

lemma runBody_releases:
  assumes "sEgress st \<noteq> None"
  shows "case runBody ch rest st t of None \<Rightarrow> False | Some (r, t') \<Rightarrow> (\<exists>code. r = Ok code) \<and> held t' = held t"
proof -
  obtain eg where eg: "sEgress st = Some eg" using assms by blast
  obtain code err t' where "runInNS eg (childEnv ch) (isTTY ch) (waitResult ch) rest t = (Ok (code, err), t')" "held t' = held t"
    using runInNS_held by blast
  then show ?thesis by (simp add: runBody_def eg)
qed

lemma acceptLoop_running: "snd (acceptLoop evs) = None \<longleftrightarrow> (\<forall>e. AcceptErr e True \<notin> set evs)"
  by (induction evs rule: acceptLoop.induct) (auto split: prod.splits)

lemma proxyBody_releases:
  "case proxyBody cfg listen evs st t of
     None \<Rightarrow> listen = Inr () \<and> (\<forall>e. AcceptErr e True \<notin> set evs)
   | Some (r, t') \<Rightarrow> (\<exists>code. r = Ok code) \<and> held t' = held t"
proof (cases listen)
  case (Inl e)
  then show ?thesis by (simp add: proxyBody_def runProxy_def)
next
  case (Inr u)
  obtain cs r where a: "acceptLoop evs = (cs, r)" by fastforce
  then have "r = None \<longleftrightarrow> (\<forall>e. AcceptErr e True \<notin> set evs)" using acceptLoop_running [of evs] by simp
  then show ?thesis using Inr a by (auto simp: proxyBody_def runProxy_def split: option.split)
qed

section \<open>Properties\<close>



lemma configure_typed:
  assumes "configure fl dflt h env args = Inr (rest, cfg)" "list_all (\<lambda>(n, x). fitting x) fl" "\<And>c. configInts (dflt c) = configInts c"
  shows "list_all fits64 (configInts cfg) \<and> suffix rest args"
proof -
  from assms(1) obtain c where p: "parseFlags fl args (dflt (registerCommonFlags (unicodeLower h) env emptyConfig)) = Inr (rest, c)"
    and f: "finalize env c = (Inr (), cfg)" by (auto simp: configure_def split: sum.splits prod.splits)
  have "list_all fits64 (configInts c) \<and> suffix rest args"
    by (rule parseFlags_keeps [OF assms(2) p]) (simp add: assms(3) registerCommonFlags_fits)
  moreover have "configInts cfg = configInts c" using f by (auto simp: finalize_def configInts_def Let_def split: sum.splits if_splits)
  ultimately show ?thesis by simp
qed


lemma unch_netLog_newLogger: "unch netLog (newLogger f)"
  unfolding newLogger_def kopen_def by (intro unch_rules; simp)

lemma stateClose_log: "did (stateClose st s) = did s"
proof -
  have "did (nsClose n s) = did s" for n s by (simp add: nsClose_def Let_def releaseFd_def split: option.split)
  then have "did (onSome nsClose x s) = did s" for x s by (simp add: onSome_def split: option.split)
  moreover have "did (wgClose w s) = did s" for w s by (simp add: wgClose_def devClose_def closeStack_def split: option.split)
  moreover have "did (onSome tunClose x s) = did s" "did (onSome nsStackClose y s) = did s" "did (killWarpSvc z s) = did s" for x y z s
    by (simp_all add: onSome_def tunClose_def releaseFd_def nsStackClose_def closeStack_def killWarpSvc_def split: option.split)
  ultimately show ?thesis by (simp add: stateClose_def)
qed

lemma runBody_log:
  assumes "sEgress st = Some eg" "rest \<noteq> []"
  shows "\<exists>code t. runBody ch rest st s = Some (Ok code, t) \<and>
     (did t = did s \<and> code = 0 \<or>
      did t = did s @ [(anchorNet eg, anchorMnt eg, StartProc (childAttr (childEnv ch) (isTTY ch) rest) (capsOf s (anchorTid eg)))] \<and>
      code = fst (exitResult (waitResult ch)))"
  using netnsRunOnAnchor_startProc [where ns = eg and attr = "childAttr (childEnv ch) (isTTY ch) rest" and s = s]
  unfolding runBody_def runInNS_def if_not_P [OF assms(2)]
  by (auto simp: assms(1) thenK_def tryK_def release_def split: prod.splits outcome.splits sum.splits)


definition sampleFlags :: "(spelling \<times> string \<times> string) list" where
  "sampleFlags = [(Bare False, ''no-wireguard'', ''true''), (Joined False, ''inner-socks5'', ''10.0.0.1:1080''), (Spaced True, ''tun-dev'', ''tun9''),
     (Joined False, ''warp-svc-cmd'', ''''), (Joined False, ''warp-cli'', '''')]"

lemma sampleFlags_configure:
  "configure commonFlags id sampleHost (\<lambda>_. None) (concat (map spell sampleFlags) @ [''--'', ''curl'', ''-v'']) = Inr ([''curl'', ''-v''], sampleConfig)"
proof -
  let ?c = "registerCommonFlags id (\<lambda>_. None) emptyConfig"
  have n: "list_all (\<lambda>(n, x). goodName n) commonFlags" using commonFlags_names(1) by (metis list_all_append)
  have v: "list_all (\<lambda>(sp, n, v). \<exists>x. map_of commonFlags n = Some x \<and> spellable x sp v) sampleFlags"
    by (simp add: sampleFlags_def commonFlags_def isBoolFlag_def)
  have "setAll commonFlags (map snd sampleFlags) ?c = Inr sampleConfig"
    by (simp add: sampleFlags_def commonFlags_def parseBool_def sampleConfig_def)
  moreover have "parseFlags commonFlags [''--'', ''curl'', ''-v''] sampleConfig = Inr ([''curl'', ''-v''], sampleConfig)"
    by (subst parseFlags.simps) (simp add: parseOne_def)
  ultimately have "parseFlags commonFlags (concat (map spell sampleFlags) @ [''--'', ''curl'', ''-v'']) ?c = Inr ([''curl'', ''-v''], sampleConfig)"
    using parseFlags_spell [OF n v, where c = ?c and rest = "[''--'', ''curl'', ''-v'']"] by simp
  moreover have "acceptable (\<lambda>_. None) sampleConfig" using sampleConfig_fields(1)
    by (simp add: acceptable_def sampleConfig_def splitHostPort_def) code_simp
  ultimately show ?thesis using finalize_nowg sampleConfig_fields(1) by (simp add: configure_def sampleHost_def)
qed



end
