(* ===== verification/Spec2Isabelle.thy ===== *)
theory Spec2Isabelle
  imports Commands
begin

text \<open>
  A verification library for \<^emph>\<open>mwarp\<close>, a Go program that runs Cloudflare WARP inside a network
  namespace whose only way out is a WireGuard tunnel, itself optionally carried over TCP or through
  an outer SOCKS5 proxy, and that runs a command, or serves a SOCKS5 proxy on the host, in a second
  namespace whose only way out is the WARP interface of the first. The library models the program's own
  logic as executable HOL functions and proves what makes each part correct.

  \<^bold>\<open>The program and its parts.\<close>

  \<^item> \<open>src/main.go\<close> is the program: the subcommands \<open>run\<close> and \<open>proxy\<close> read their flags, set everything up with
    \<open>setupAll\<close>, do their work in the egress namespace and close everything (theories \<open>MainProg\<close>, \<open>Confined\<close>,
    \<open>Commands\<close>); \<open>src/log.go\<close> opens the log (\<open>newLogger\<close> in \<open>Commands\<close>).
  \<^item> \<open>src/config.go\<close> declares the flags (theory \<open>Flags\<close>, with the part of Go's package \<open>flag\<close> that reads them),
    reads the environment into \<open>Config\<close> and checks it (theory \<open>Config\<close>).
  \<^item> \<open>src/netns.go\<close> creates network and mount namespaces, held by an anchor thread, with a root file system
    of their own or the host's, runs functions in them and closes them (theory \<open>NetNS\<close>).
  \<^item> \<open>src/tundev.go\<close> creates the TUN device of the first namespace (theory \<open>TunDev\<close>), \<open>src/nsstack.go\<close> the userspace
    network stack on it, whose forwarders pass TCP and UDP to the inner SOCKS5 proxy (theory \<open>NSStack\<close>).
  \<^item> \<open>src/wg.go\<close> starts the WireGuard device (theory \<open>WireGuard\<close>) over one of three binds: the library's own UDP one,
    \<open>TCPBind\<close> of \<open>src/tcpbind.go\<close> (theory \<open>TcpBind\<close>), which frames datagrams on one TCP connection
    and reconnects on failures, or \<open>Socks5Bind\<close> of \<open>src/socks5bind.go\<close> (theory \<open>Socks5Bind\<close>), which
    carries them by SOCKS5 UDP ASSOCIATE.
  \<^item> \<open>src/socks5.go\<close> is the SOCKS5 client (theory \<open>Socks5\<close>) both binds use to leave through the outer
    proxy, and that the forwarders of \<open>src/nsstack.go\<close> use to reach the inner one.
  \<^item> \<open>src/warp.go\<close> starts the WARP daemon with the capabilities \<open>src/caps.go\<close> leaves it (theory \<open>Caps\<close>), registers and
    connects it by retried \<open>warp-cli\<close> commands, and \<open>src/warpready.go\<close> waits for its routes (theory \<open>Warp\<close>);
    \<open>src/warpcmd.go\<close> and \<open>splitArgs\<close> of \<open>src/warp.go\<close> prepare the command lines (theory \<open>WarpCmd\<close>).
  \<^item> \<open>src/egress.go\<close> creates the egress namespace, the veth pair to the first one, its routes and the nftables
    rules that confine it (theory \<open>Egress\<close>).
  \<^item> \<open>src/run.go\<close> runs the user's command there (theory \<open>RunCmd\<close>); \<open>src/proxy.go\<close> is the host-side SOCKS5 server
    (theory \<open>Proxy\<close>), which dials there with \<open>NetNS.Run\<close> and copies data with \<open>pipe\<close> of \<open>src/nsstack.go\<close>.

  \<^bold>\<open>The layers of the library.\<close>

  \<^item> \<open>Prelude\<close>: bytes, Go errors as the datatype \<open>goerr\<close> (with \<open>%w\<close> wrapping and \<open>errors.Is\<close>), the state
    and error type \<open>('s, 'a) sem\<close> in which sequential code is written (\<open>andThen\<close> is
    \<open>if err != nil { return err }\<close>, \<open>onErr\<close> adds a clean-up), frame conditions \<open>keeps\<close>, big-endian
    words, and the collections \<open>sem_simps\<close> and \<open>sem_elims\<close>.
  \<^item> \<open>GoText\<close>, \<open>GoNet\<close> and \<open>Encoding\<close>: what the sources use of Go's \<open>strings\<close>, \<open>strconv\<close>, \<open>unicode/utf8\<close>, \<open>net\<close>,
    \<open>net/netip\<close>, \<open>encoding/base64\<close> and \<open>encoding/hex\<close>: trimming, splitting, number and address parsers and
    printers, \<open>SplitHostPort\<close>, decoders, with the round trips the components rest on.
  \<^item> \<open>Conn\<close>: the network. A connection has the bytes its peer will send, the error that ends them, the
    writes it accepts and what was written; dials consume a script of outcomes. All theorems quantify
    over these scripts, so they hold for every behaviour of the peer and of the network. The
    locale \<open>dialer\<close> is the contract of a dial function (what it leaves open on each outcome) and the
    locale \<open>stream_codec\<close> that of a message reader on a stream.
  \<^item> \<open>Threads\<close>: goroutines. A program is a sequence of atomic steps (the critical sections and the
    network calls between them); \<open>runP\<close> runs one alone and \<open>psteps\<close> is the inductive relation of any
    interleaving. \<open>Bind\<close> is the contract of WireGuard's \<open>conn.Bind\<close> as the locale \<open>wg_bind\<close>.
  \<^item> \<open>Kernel\<close>: the operating system under the set-up code. A call (\<open>kcall\<close>) succeeds or fails as the list of outcomes
    says, is logged with the namespaces of the thread that makes it, and \<open>held\<close> is the multiset of
    what is open: descriptors, directories, anchors, devices, child processes. Code is an \<open>act\<close>, which returns,
    fails or panics. \<open>owns\<close>, \<open>frees\<close>, \<open>unch\<close>, \<open>safe\<close> and \<open>runs\<close> are its program logic: what an action holds
    afterwards, gives back, leaves alone, that it does not panic, and that it succeeds when no call fails.
    The locale \<open>managed\<close> is the contract of something created and closed.
  \<^item> \<open>Socks5\<close>, \<open>TcpBind\<close>, \<open>Socks5Bind\<close>, \<open>Proxy\<close>, \<open>Config\<close>, \<open>WarpCmd\<close>, \<open>Caps\<close>, \<open>NetNS\<close>, \<open>TunDev\<close>, \<open>Egress\<close>, \<open>WireGuard\<close>, \<open>Warp\<close>,
    \<open>NSStack\<close>, \<open>RunCmd\<close>, \<open>MainProg\<close>: one theory per source file (\<open>Warp\<close> has two), its types as records and datatypes, one definition
    per function in the order of the code, then its invariants, lemmas and properties. \<open>Flags\<close>, \<open>Confined\<close> and \<open>Commands\<close>
    build on them as said above; this theory holds the properties of the client against the server and of both binds.

  \<^bold>\<open>Interfaces.\<close> The SOCKS5 client is proved correct for any \<open>dialer\<close> and is one itself (\<open>socks_dialer\<close>),
  so that \<open>TCPBind\<close> is verified once for direct dials and for dials through the outer proxy. Both
  binds interpret \<open>wg_bind\<close>, which gives their freedom from leaks over any sequence of calls; the
  interleaving theorems of \<open>TCPBind\<close> come from the locale \<open>tcp_actions\<close>, interpreted once for the
  invariant that a closed bind stays closed and once for the one that frames stay whole. Namespaces, the egress
  namespace, the TUN device, the WireGuard device and the daemon each interpret \<open>managed\<close>, from which
  the set-up's freedom from leaks is put together; the \<open>warp-cli\<close> commands are verified in \<open>command_ns\<close>
  for any way to run a command in a namespace, interpreted on \<open>NetNS.Run\<close>.

  \<^bold>\<open>What is shown.\<close>

  \<^item> \<^emph>\<open>Confinement.\<close> After a successful set-up the egress namespace has only the default routes to the first
    one, which forwards its packets by the WARP interface only, whatever compatible rules others added; the user's
    command is started there and nowhere else. The daemon keeps two capabilities.
  \<^item> \<^emph>\<open>Nothing leaks.\<close> The set-up, failing at any step, and both commands, returning by any path, give back all they
    opened; so do the client, the binds, the proxy, and the forwarders on every error path.
  \<^item> \<^emph>\<open>Formats.\<close> The wire formats are exact (a reader accepts precisely the well-formed messages and consumes precisely
    their bytes) and round-trip; keys, command lines, flags and address lists survive printing and parsing.
  \<^item> \<^emph>\<open>Function.\<close> Datagrams cross the TCP tunnel unchanged and in order; the WireGuard device gets exactly the
    configuration asked for; the sandbox has exactly the layout described; a forwarded connection reaches its
    destination; the exit status is the command's; the client and the server understand each other.
  \<^item> \<^emph>\<open>Concurrency and time.\<close> A closed bind stays closed, frames stay whole and packets fit their buffers under any
    interleaving; the wait for the routes ends.
  \<^item> Where the code does otherwise than its comments say there is a theorem with the schedule or input that shows it.

  \<^bold>\<open>Bounds and termination.\<close> No fuel is used. Loops of the code are structural recursions over finite
  data, except the bounding-set loop of \<open>caps.go\<close> (its measure is the distance to the kernel's
  last capability), \<open>stripAnsi\<close>, the text functions on UTF-8 and the flag parser (the length of the input), \<open>sendLoop\<close>, whose two attempts are the
  code's own bound, and the wait for the routes, a \<open>partial_function\<close>: that it returns is proved under the
  hypothesis that a poll interval passes between two readings of the clock. The loops that
  wait for events (accept loops, \<open>udpPipe\<close>) recurse over the list of events that occurred; their result says
  whether they have returned. Integers of the configuration are unbounded in the model; that they
  fit Go's 64 bits is proved, and where a product of them wraps around (\<open>seconds\<close>) it is written so.

  \<^bold>\<open>Not modelled.\<close> The kernel and third-party packages (wireguard-go, gVisor, netlink, nftables, zap) are
  parameters, scripted outcomes or logged calls; nftables rules have the meaning its documentation gives
  them. The texts that are logged or printed are left out, as are \<open>logger.Sync\<close>, the goroutine that waits for
  the daemon to log its exit, \<open>isatty\<close> (one ioctl, whose result is an argument), the unused \<open>errCancelled\<close> and
  the check of a structure's size in \<open>init\<close> of \<open>tundev.go\<close>. A panic ends the model's run. Time appears as
  deadlines that are set, as readings of a clock, and, where a time-out decides a branch, as an argument.
\<close>

section \<open>The client of \<open>socks5.go\<close> against the server of \<open>proxy.go\<close>\<close>

lemma host_saddr_string_clean:
  assumes "splitHostPort address = Inr (host, portStr)"
  shows "CHR ''['' \<notin> set (saddr_string (host_saddr host))" "CHR '']'' \<notin> set (saddr_string (host_saddr host))"
  using splitHostPort_no_bracket [OF assms] ip_string_no_bracket
  by (auto simp: host_saddr_def ip_to4_length parseIP_length split: option.split)

lemma host_saddr_resolves:
  "(case parseIP (saddr_string (host_saddr host)) of Some ip \<Rightarrow> Inr [ip] | None \<Rightarrow> lookup (saddr_string (host_saddr host))) =
   (case parseIP host of Some ip \<Rightarrow> Inr [ip] | None \<Rightarrow> lookup host)"
  by (cases "parseIP host") (simp_all add: saddr_string_host saddr_string_host_ip)

text \<open>
  C9: the two ends of SOCKS5 in this program speak the same protocol. Let the proxy read, on a
  connection, what \<open>DialContext\<close> writes for an address and then a payload; let the client read on
  its side what the proxy wrote. When the calls succeed, \<open>DialContext\<close> succeeds, it wrote exactly
  the bytes the proxy read, the next byte it reads is the first byte of the upstream's data,
  and the proxy connected to the first address of the host and the port asked for and
  delivered the payload there.
\<close>

theorem client_through_proxy:
  assumes "splitHostPort address = Inr (host, portStr)" "parseUint16 portStr = Inr port" "network \<in> {''tcp'', ''tcp4'', ''tcp6''}"
    and wf: "wf_saddr (host_saddr host)"
    and "(case parseIP host of Some ip \<Rightarrow> Inr [ip] | None \<Rightarrow> lookup host) = Inr (ip # ips)"
    and "c < length (heap (pnet p))" "p' = handleProxyConn lookup chunks False c p" "errs p = []"
    and "rx (heap (pnet p) ! c) = clientHello (host_saddr host) (word_of_nat port) @ payload"
    and "writable (pnet p) c (2 + length (chunks (rx up)))" "tx (heap (pnet p) ! c) = []" "chunking chunks"
    and "script (pnet p) = Inr up # ups" "length (chunks payload) \<le> wrLeft up" "wrCap up = None" "tx up = []"
    and "script s = Inr conn # conns" "2 \<le> wrLeft conn" "wrCap conn = None" "tx conn = []"
    and "rx conn = concat (tx (heap (pnet p') ! c))"
  shows "\<exists>s'. dialContext netDial server ctx network address s = (Inr (length (heap s)), s') \<and>
     concat (tx (heap s' ! length (heap s))) @ payload = rx (heap (pnet p) ! c) \<and>
     rx (heap s' ! length (heap s)) = rx up \<and>
     PConnect (nextFd p) (snd (sockaddr ip)) (word_of_nat port) \<in> set (calls p') \<and>
     concat (tx (heap (pnet p') ! length (heap (pnet p)))) = payload"
proof -
  let ?x = "host_saddr host" and ?port = "word_of_nat port :: uint16"
  have p: "PConnect (nextFd p) (snd (sockaddr ip)) ?port \<in> set (calls p') \<and>
     concat (tx (heap (pnet p') ! c)) = [socks5Version, socks5MethodNoAuth] @
        [socks5Version, socks5RepSuccess, 0, socks5AddrIPv4, 0, 0, 0, 0, 0, 0] @ rx up \<and>
     concat (tx (heap (pnet p') ! length (heap (pnet p)))) = payload"
    by (rule handle_serves [where x = ?x and ?v6.0 = "fst (sockaddr ip)"])
      (use assms host_saddr_string_clean [OF assms(1)] in \<open>simp_all add: host_saddr_resolves\<close>)
  have "[socks5Version, socks5RepSuccess, 0, socks5AddrIPv4, 0, 0, 0, 0, 0, 0] = reply_bytes 0 (SIP4 [0, 0, 0, 0]) 0"
    by (simp add: reply_bytes_def be16_put_def)
  with p assms(21) have rx: "rx conn = [socks5Version, socks5MethodNoAuth] @ reply_bytes 0 (SIP4 [0, 0, 0, 0]) 0 @ rx up"
    by simp
  have "wf_saddr (SIP4 [0, 0, 0, 0])" by simp
  from dial_connects [OF assms(3,1,2) wf this assms(17-20) rx, of server ctx] p assms(9) show ?thesis
    by (auto simp: clientHello_def)
qed

theorem client_through_proxy_witness:
  "let p = proxySys [peerConn (clientHello (SDomain ''db'') 80 @ [1, 2, 3]) []] [peerConn [4, 5] []] [];
       p' = handleProxyConn (\<lambda>h. Inr [[10, 0, 0, 9]]) (\<lambda>b. [b]) False 0 p;
       s = peerNet [] [peerConn (concat (tx (heap (pnet p') ! 0))) []]
   in \<exists>s'. dialContext netDial ''127.0.0.1:1080'' None ''tcp'' ''db:80'' s = (Inr 0, s') \<and> rx (heap s' ! 0) = [4, 5]"
proof -
  let ?p = "proxySys [peerConn (clientHello (SDomain ''db'') 80 @ [1, 2, 3]) []] [peerConn [4, 5] []] []"
  let ?p' = "handleProxyConn (\<lambda>h. Inr [[10, 0, 0, 9]]) (\<lambda>b. [b]) False 0 ?p"
  let ?c = "peerConn (concat (tx (heap (pnet ?p') ! 0))) []"
  have ip: "parseIP ''db'' = None" by code_simp
  then have x: "host_saddr ''db'' = SDomain ''db''" by (simp add: host_saddr_def)
  have h: "splitHostPort ''db:80'' = Inr (''db'', ''80'')" by code_simp
  have q: "parseUint16 ''80'' = Inr 80" by code_simp
  have w: "writable (pnet ?p) 0 (2 + length ((\<lambda>b. [b]) (rx (peerConn [4, 5] []))))"
    by (simp add: proxySys_def peerNet_def peerConn_def writable_def readable_def)
  have "\<exists>s'. dialContext netDial ''127.0.0.1:1080'' None ''tcp'' ''db:80'' (peerNet [] [?c]) = (Inr 0, s') \<and>
      rx (heap s' ! 0) = [4, 5]"
    using client_through_proxy [where lookup = "\<lambda>h. Inr [[10, 0, 0, 9]]" and chunks = "\<lambda>b. [b]" and p = ?p and c = 0
        and p' = ?p' and s = "peerNet [] [?c]" and conn = ?c and up = "peerConn [4, 5] []" and payload = "[1, 2, 3]"
        and ip = "[10, 0, 0, 9]" and server = "''127.0.0.1:1080''" and ctx = None and network = "''tcp''",
        OF h q _ _ _ _ refl _ _ w]
    by (simp add: x ip proxySys_def peerNet_def peerConn_def chunking_def) metis
  then show ?thesis by simp
qed

section \<open>Both binds among any other goroutines\<close>

text \<open>A result that fits a buffer, if it is a packet.\<close>

definition sized :: "nat \<Rightarrow> nat \<Rightarrow> bytes \<Rightarrow> bool" where
  "sized buflen n p \<longleftrightarrow> n = length p \<and> n \<le> buflen"

abbreviation fits_if_ok :: "nat \<Rightarrow> (nat \<times> bytes) outcome \<Rightarrow> bool" where
  "fits_if_ok buflen r \<equiv> \<forall>n p. r = Ok (n, p) \<longrightarrow> sized buflen n p \<and> n \<le> 65535"

lemma okP_readFull: "okP (\<lambda>_. True) (\<lambda>r. \<forall>p. r = Ok p \<longrightarrow> length p = k) (atom (onNet (c_readFull c k)))"
  by (rule okP_atom) (auto simp: onNet_def c_readFull_def Let_def split: if_splits)

lemma okP_readFailed: "okP (\<lambda>_. True) (\<lambda>r. \<forall>x. r \<noteq> Ok x) (readFailed dial address gen e)"
  unfolding readFailed_def
proof (rule okP_thenP [where Q = "\<lambda>r. \<exists>op. r = Ok op"])
  show "okP (\<lambda>_. True) (\<lambda>r. \<exists>op. r = Ok op) isOpen"
    unfolding isOpen_def by (rule okP_atom) simp
  show "okP (\<lambda>_. True) (\<lambda>r. \<forall>x. r \<noteq> Ok x)
      (if \<not> op then Done (Inl ErrClosed) else bindP (tcpDial dial address gen) (\<lambda>_. Done (Inl e)))" for op
    by (auto intro: okDone okP_bindP [OF okP_any])
qed auto

lemma okP_receiveOn: "okP (\<lambda>_. True) (fits_if_ok buflen) (receiveOn dial address buflen c gen)"
proof (cases c)
  case (Some i)
  have f: "okP (\<lambda>_. True) (fits_if_ok buflen) (readFailed dial address gen e)" for e
    by (rule okP_weaken [OF okP_readFailed]) simp
  show ?thesis unfolding receiveOn_def Some option.case
  proof (rule okP_bindP [OF okP_readFull])
    fix r :: "goerr + bytes"
    show "okP (\<lambda>_. True) (fits_if_ok buflen) (case r of Inl e \<Rightarrow> readFailed dial address gen e
       | Inr hdr \<Rightarrow> let n = unat (be16_get hdr) in if n = 0 then Done (Inr (0, []))
         else if n > buflen then bindP (atom (onNet (c_readFull i n))) (\<lambda>_. Done (Inl (Errorf ''tcpbind: oversized frame %d > buffer %d'' [AInt (int n), AInt (int buflen)])))
         else bindP (atom (onNet (c_readFull i n))) (\<lambda>r. case r of Inl e \<Rightarrow> readFailed dial address gen e | Inr p \<Rightarrow> Done (Inr (n, p))))"
    proof (cases r)
      case (Inr hdr)
      have b: "unat (be16_get hdr) \<le> 65535" using unat_be16_get_bound [of hdr] by simp
      then show ?thesis using Inr f unfolding Let_def
        by (auto simp: sized_def intro!: okDone okP_bindP [OF okP_readFull] split: sum.split)
    qed (simp add: f)
  qed simp
qed (auto simp: receiveOn_def intro: okCrash)

lemma okP_receive: "okP (\<lambda>_. True) (fits_if_ok buflen) (receive dial address buflen)"
proof -
  have r: "okP (\<lambda>_. True) (fits_if_ok buflen) (thenP currentConn (\<lambda>(c, gen, op). if \<not> op then Done (Inl ErrClosed) else k c gen))"
    if "\<And>c gen. okP (\<lambda>_. True) (fits_if_ok buflen) (k c gen)" for k :: "nat option \<Rightarrow> uint64 \<Rightarrow> (tcp_bind, nat \<times> bytes) prog"
    by (rule okP_thenP [OF okP_any]) (auto intro: okDone that split: prod.split)
  show ?thesis unfolding receive_def
    by (intro r) (auto intro: okP_receiveOn okP_thenP [OF okP_any] r)
qed

lemma okP_recvThread:
  "okP (\<lambda>_. True) (\<lambda>r. \<forall>n p. r = Ok (Some (n, p)) \<longrightarrow> sized buflen n p \<and> n \<le> 65535) (tcpThread dial address (CRecv buflen))"
  unfolding tcpThread_def bind_call.case by (rule okP_thenP [OF okP_receive]) (auto intro: okDone)

lemma okP_s5Receive: "okP (\<lambda>_. True) (\<lambda>r. \<forall>n p e. r = Ok (n, p, e) \<longrightarrow> sized buflen n p) (s5Receive buflen)"
proof -
  have f: "okP (\<lambda>_. True) (\<lambda>r. \<forall>n a p. r = Ok (n, a, p) \<longrightarrow> sized buflen n p) (atom (onSNet (readFrom u buflen)))" for u
    by (rule okP_atom) (auto simp: onSNet_def readFrom_def sized_def andThen_def liftE_def split: prod.splits sum.splits if_splits)
  show ?thesis unfolding s5Receive_def
    by (rule okP_thenP [OF okP_any])
      (auto intro!: okDone okP_bindP [OF f] okP_thenP [OF okP_any] split: option.split sum.split)
qed



end
